(* ===== verification/Prelude.thy ===== *)
theory Prelude
  imports Main "HOL-Library.Word"
begin

text \<open>
  What every component of the model shares: the machine integers of the Rust code, its
  \<open>Result\<close> combinators, big-endian octets, decimal text, ASCII classes and the UTF-8
  check of \<open>String::from_utf8\<close>. A Rust \<open>String\<close> or \<open>&str\<close> is a sequence of UTF-8 octets,
  here an Isabelle \<^typ>\<open>string\<close> whose characters are octets, so \<open>len()\<close> is \<^const>\<open>length\<close>
  and \<open>as_bytes()\<close> is a change of representation. A \<open>usize\<close> length is a \<^typ>\<open>nat\<close>.
\<close>

section \<open>Machine integers, octets and strings\<close>

type_synonym u8 = "8 word"
type_synonym u32 = "32 word"
type_synonym u64 = "64 word"
type_synonym uuid = "128 word"
type_synonym bytes = "u8 list"

named_theorems result_simps \<open>elimination of the Result combinators\<close>

definition byte_of_char :: "char \<Rightarrow> u8" where
  "byte_of_char c = word_of_nat (of_char c)"

definition char_of_byte :: "u8 \<Rightarrow> char" where
  "char_of_byte b = char_of (unat b)"

definition as_bytes :: "string \<Rightarrow> bytes" where
  "as_bytes s = map byte_of_char s"

definition string_of_bytes :: "bytes \<Rightarrow> string" where
  "string_of_bytes bs = map char_of_byte bs"

lemma of_char_less_256 [simp]: "(of_char c :: nat) < 256"
  using of_char_mod_256 [of c, where 'a = nat]
  by (metis mod_less_divisor zero_less_numeral)

lemma unat_byte_of_char [simp]: "unat (byte_of_char c) = of_char c"
  by (simp add: byte_of_char_def unat_of_nat)

lemma char_of_byte_of_char [simp]: "char_of_byte (byte_of_char c) = c"
  by (simp add: char_of_byte_def)

lemma byte_of_char_of_byte [simp]: "byte_of_char (char_of_byte b) = b"
proof -
  have "unat b < 256" using unsigned_less [of b, where 'a = nat] by simp
  then show ?thesis by (simp add: byte_of_char_def char_of_byte_def)
qed

lemma byte_of_char_inject [simp]: "byte_of_char c = byte_of_char d \<longleftrightarrow> c = d"
  by (metis char_of_byte_of_char)

lemma length_as_bytes [simp]: "length (as_bytes s) = length s"
  by (simp add: as_bytes_def)

lemma length_string_of_bytes [simp]: "length (string_of_bytes bs) = length bs"
  by (simp add: string_of_bytes_def)

lemma string_of_as_bytes [simp]: "string_of_bytes (as_bytes s) = s"
  by (induction s) (simp_all add: as_bytes_def string_of_bytes_def)

lemma as_bytes_of_bytes [simp]: "as_bytes (string_of_bytes bs) = bs"
  by (induction bs) (simp_all add: as_bytes_def string_of_bytes_def)

lemma as_bytes_append [simp]: "as_bytes (s @ t) = as_bytes s @ as_bytes t"
  by (simp add: as_bytes_def)

lemma as_bytes_Nil [simp]: "as_bytes [] = []"
  by (simp add: as_bytes_def)

lemma string_of_bytes_Nil [simp]: "string_of_bytes [] = []"
  by (simp add: string_of_bytes_def)

lemma as_bytes_inject [simp]: "as_bytes s = as_bytes t \<longleftrightarrow> s = t"
  by (metis string_of_as_bytes)

section \<open>Result combinators\<close>

text \<open>
  A fallible function returns \<^typ>\<open>'e + 'a\<close> with \<^const>\<open>Inl\<close> for \<open>Err\<close>. The \<open>?\<close> operator
  is sequencing, \<open>map_err\<close> and \<open>ok_or\<close> are the methods of the standard library.
\<close>

definition and_then :: "'e + 'a \<Rightarrow> ('a \<Rightarrow> 'e + 'b) \<Rightarrow> 'e + 'b" where
  "and_then r f = (case r of Inl e \<Rightarrow> Inl e | Inr v \<Rightarrow> f v)"

definition map_err :: "('e \<Rightarrow> 'f) \<Rightarrow> 'e + 'a \<Rightarrow> 'f + 'a" where
  "map_err g r = (case r of Inl e \<Rightarrow> Inl (g e) | Inr v \<Rightarrow> Inr v)"

definition map_ok :: "('a \<Rightarrow> 'b) \<Rightarrow> 'e + 'a \<Rightarrow> 'e + 'b" where
  "map_ok g r = (case r of Inl e \<Rightarrow> Inl e | Inr v \<Rightarrow> Inr (g v))"

definition ok_or :: "'e \<Rightarrow> 'a option \<Rightarrow> 'e + 'a" where
  "ok_or e m = (case m of None \<Rightarrow> Inl e | Some v \<Rightarrow> Inr v)"

lemma and_then_simps [simp]:
  "and_then (Inl e) f = Inl e" "and_then (Inr v) f = f v"
  by (simp_all add: and_then_def)

lemma map_err_simps [simp]:
  "map_err g (Inl e) = Inl (g e)" "map_err g (Inr v) = Inr v"
  by (simp_all add: map_err_def)

lemma map_ok_simps [simp]:
  "map_ok g (Inl e) = Inl e" "map_ok g (Inr v) = Inr (g v)"
  by (simp_all add: map_ok_def)

lemma ok_or_simps [simp]: "ok_or e None = Inl e" "ok_or e (Some v) = Inr v"
  by (simp_all add: ok_or_def)

lemma and_then_Inr_iff [result_simps]:
  "and_then r f = Inr w \<longleftrightarrow> (\<exists>v. r = Inr v \<and> f v = Inr w)"
  by (cases r) auto

lemma and_then_Inl_iff [result_simps]:
  "and_then r f = Inl e \<longleftrightarrow> r = Inl e \<or> (\<exists>v. r = Inr v \<and> f v = Inl e)"
  by (cases r) auto

lemma map_err_Inr_iff [result_simps]: "map_err g r = Inr v \<longleftrightarrow> r = Inr v"
  by (cases r) auto

lemma map_err_Inl_iff [result_simps]: "map_err g r = Inl e \<longleftrightarrow> (\<exists>d. r = Inl d \<and> g d = e)"
  by (cases r) auto

lemma map_ok_Inr_iff [result_simps]: "map_ok g r = Inr v \<longleftrightarrow> (\<exists>u. r = Inr u \<and> g u = v)"
  by (cases r) auto

lemma map_ok_Inl_iff [result_simps]: "map_ok g r = Inl e \<longleftrightarrow> r = Inl e"
  by (cases r) auto

lemma ok_or_Inr_iff [result_simps]: "ok_or e m = Inr v \<longleftrightarrow> m = Some v"
  by (cases m) auto

lemma ok_or_Inl_iff [result_simps]: "ok_or e m = Inl d \<longleftrightarrow> m = None \<and> d = e"
  by (cases m) auto

text \<open>
  Which errors a computation can end in, with one rule per combinator, so that the error set
  of a function follows its text.
\<close>

definition errs_in :: "'e + 'a \<Rightarrow> 'e set \<Rightarrow> bool" where
  "errs_in r E \<longleftrightarrow> (\<forall>e. r = Inl e \<longrightarrow> e \<in> E)"

named_theorems errs_intros \<open>error sets of the Result combinators\<close>

lemma errs_inD: "errs_in r E \<Longrightarrow> r = Inl e \<Longrightarrow> e \<in> E"
  by (simp add: errs_in_def)

lemma errs_in_Inl [errs_intros]: "e \<in> E \<Longrightarrow> errs_in (Inl e) E"
  by (simp add: errs_in_def)

lemma errs_in_Inr [errs_intros]: "errs_in (Inr v) E"
  by (simp add: errs_in_def)

lemma errs_in_and_then [errs_intros]:
  "errs_in r E \<Longrightarrow> (\<And>v. errs_in (f v) E) \<Longrightarrow> errs_in (and_then r f) E"
  by (cases r) (simp_all add: errs_in_def)

lemma errs_in_ok_or [errs_intros]: "e \<in> E \<Longrightarrow> errs_in (ok_or e m) E"
  by (cases m) (simp_all add: errs_in_def)

lemma errs_in_map_ok [errs_intros]: "errs_in r E \<Longrightarrow> errs_in (map_ok f r) E"
  by (cases r) (simp_all add: errs_in_def)

lemma errs_in_map_err [errs_intros]: "(\<And>d. g d \<in> E) \<Longrightarrow> errs_in (map_err g r) E"
  by (cases r) (simp_all add: errs_in_def)

lemma errs_in_if [errs_intros]: "errs_in r E \<Longrightarrow> errs_in q E \<Longrightarrow> errs_in (if b then r else q) E"
  by simp

section \<open>Big-endian octets\<close>

fun nat_of_be :: "bytes \<Rightarrow> nat" where
  "nat_of_be [] = 0"
| "nat_of_be (b # bs) = unat b * 256 ^ length bs + nat_of_be bs"

fun be_of_nat :: "nat \<Rightarrow> nat \<Rightarrow> bytes" where
  "be_of_nat 0 n = []"
| "be_of_nat (Suc k) n = word_of_nat (n div 256 ^ k) # be_of_nat k n"

lemma length_be_of_nat [simp]: "length (be_of_nat k n) = k"
  by (induction k) auto

lemma unat_less_256 [simp]: "unat (b :: u8) < 256"
  using unsigned_less [of b, where 'a = nat] by simp

lemma nat_of_be_less: "nat_of_be bs < 256 ^ length bs"
proof (induction bs)
  case (Cons b bs)
  have "unat b * 256 ^ length bs + nat_of_be bs < unat b * 256 ^ length bs + 256 ^ length bs"
    using Cons.IH by simp
  also have "\<dots> = (unat b + 1) * 256 ^ length bs" by simp
  also have "\<dots> \<le> 256 * 256 ^ length bs"
    by (rule mult_le_mono1) (use unat_less_256 [of b] in linarith)
  finally show ?case by simp
qed simp

lemma nat_of_be_of_nat: "nat_of_be (be_of_nat k n) = n mod 256 ^ k"
proof (induction k)
  case (Suc k)
  have "unat (word_of_nat (n div 256 ^ k) :: u8) = n div 256 ^ k mod 256"
    by (simp add: unat_of_nat)
  with Suc.IH show ?case
    using mod_mult2_eq [of n "256 ^ k" 256] by (simp add: algebra_simps)
qed simp

lemma be_of_nat_mod: "be_of_nat k (n mod 256 ^ (k + d)) = be_of_nat k n"
proof (induction k arbitrary: d)
  case (Suc k)
  have "n mod 256 ^ (Suc k + d) = 256 ^ k * (n div 256 ^ k mod 256 ^ Suc d) + n mod 256 ^ k"
    using mod_mult2_eq [of n "256 ^ k" "256 ^ Suc d"]
    by (simp add: power_add mult.left_commute)
  then have "n mod 256 ^ (Suc k + d) div 256 ^ k = (n div 256 ^ k) mod 256 ^ Suc d"
    by simp
  then have "(word_of_nat (n mod 256 ^ (Suc k + d) div 256 ^ k) :: u8)
      = word_of_nat (n div 256 ^ k)"
    by (simp add: word_of_nat_eq_iff take_bit_eq_mod mod_mod_cancel)
  with Suc.IH [of "Suc d"] show ?case by simp
qed simp

lemma be_of_nat_of_be: "be_of_nat (length bs) (nat_of_be bs) = bs"
proof (induction bs)
  case (Cons b bs)
  have "be_of_nat (length bs) (nat_of_be (b # bs))
      = be_of_nat (length bs) (nat_of_be (b # bs) mod 256 ^ (length bs + 0))"
    by (rule be_of_nat_mod [symmetric])
  also have "\<dots> = be_of_nat (length bs) (nat_of_be bs)"
    using nat_of_be_less [of bs] by simp
  finally show ?case
    using Cons.IH nat_of_be_less [of bs] by simp
qed simp

text \<open>Evaluation at numerals.\<close>

lemma be_of_nat_numeral:
  "be_of_nat (numeral k) n = word_of_nat (n div 256 ^ pred_numeral k) # be_of_nat (pred_numeral k) n"
  by (simp add: numeral_eq_Suc)

lemma replicate_by_numeral: "replicate (numeral k) x = x # replicate (pred_numeral k) x"
  by (simp add: numeral_eq_Suc)

definition u32_to_be_bytes :: "u32 \<Rightarrow> bytes" where
  "u32_to_be_bytes w = be_of_nat 4 (unat w)"

definition u32_from_be_bytes :: "bytes \<Rightarrow> u32" where
  "u32_from_be_bytes bs = word_of_nat (nat_of_be bs)"

definition u64_to_be_bytes :: "u64 \<Rightarrow> bytes" where
  "u64_to_be_bytes w = be_of_nat 8 (unat w)"

definition u64_from_be_bytes :: "bytes \<Rightarrow> u64" where
  "u64_from_be_bytes bs = word_of_nat (nat_of_be bs)"

lemma length_u32_to_be_bytes [simp]: "length (u32_to_be_bytes w) = 4"
  by (simp add: u32_to_be_bytes_def)

lemma length_u64_to_be_bytes [simp]: "length (u64_to_be_bytes w) = 8"
  by (simp add: u64_to_be_bytes_def)

lemma u32_from_to_be_bytes [simp]: "u32_from_be_bytes (u32_to_be_bytes w) = w"
  using unsigned_less [of w, where 'a = nat]
  by (simp add: u32_from_be_bytes_def u32_to_be_bytes_def nat_of_be_of_nat)

lemma u64_from_to_be_bytes [simp]: "u64_from_be_bytes (u64_to_be_bytes w) = w"
  using unsigned_less [of w, where 'a = nat]
  by (simp add: u64_from_be_bytes_def u64_to_be_bytes_def nat_of_be_of_nat)

lemma u32_to_be_bytes_eq:
  "u32_to_be_bytes w =
     [word_of_nat (unat w div 16777216), word_of_nat (unat w div 65536),
      word_of_nat (unat w div 256), word_of_nat (unat w)]"
proof -
  have four: "4 = Suc (Suc (Suc (Suc 0)))" by simp
  show ?thesis unfolding u32_to_be_bytes_def four by simp
qed

lemma u32_to_from_be_bytes: "length bs = 4 \<Longrightarrow> u32_to_be_bytes (u32_from_be_bytes bs) = bs"
  using nat_of_be_less [of bs] be_of_nat_of_be [of bs]
  by (simp add: u32_from_be_bytes_def u32_to_be_bytes_def unat_of_nat)

lemma u64_to_from_be_bytes: "length bs = 8 \<Longrightarrow> u64_to_be_bytes (u64_from_be_bytes bs) = bs"
  using nat_of_be_less [of bs] be_of_nat_of_be [of bs]
  by (simp add: u64_from_be_bytes_def u64_to_be_bytes_def unat_of_nat)

section \<open>Positions in a list\<close>

text \<open>The first index of an element, the length of the list when it does not occur.\<close>

fun index_of :: "'a \<Rightarrow> 'a list \<Rightarrow> nat" where
  "index_of x [] = 0"
| "index_of x (y # ys) = (if x = y then 0 else Suc (index_of x ys))"

lemma index_of_less_iff [simp]: "index_of x xs < length xs \<longleftrightarrow> x \<in> set xs"
  by (induction xs) auto

lemma nth_index_of [simp]: "x \<in> set xs \<Longrightarrow> xs ! index_of x xs = x"
  by (induction xs) auto

lemma index_of_append: "index_of x (xs @ ys) = (if x \<in> set xs then index_of x xs else length xs + index_of x ys)"
  by (induction xs) auto

lemma index_of_nth: "distinct xs \<Longrightarrow> i < length xs \<Longrightarrow> index_of (xs ! i) xs = i"
  by (metis index_of_less_iff nth_eq_iff_index_eq nth_index_of nth_mem)

lemma index_of_inject: "x \<in> set xs \<Longrightarrow> y \<in> set xs \<Longrightarrow> index_of x xs = index_of y xs \<longleftrightarrow> x = y"
  by (metis nth_index_of)

lemma filter_unique:
  "distinct (map f xs) \<Longrightarrow> x \<in> set xs \<Longrightarrow> f x = y \<Longrightarrow> filter (\<lambda>x. f x = y) xs = [x]"
proof (induction xs)
  case (Cons a xs)
  show ?case
  proof (cases "f a = y")
    case True
    with Cons.prems have "a = x" by force
    moreover have "\<forall>b \<in> set xs. f b \<noteq> y"
      using Cons.prems(1) True by (auto simp: image_iff)
    ultimately have "a = x" "\<forall>b \<in> set xs. f b \<noteq> y" by blast+
    with True show ?thesis by (simp add: filter_empty_conv)
  qed (use Cons in auto)
qed simp

end
