(* ===== verification/Text.thy ===== *)
theory Text
  imports Prelude
begin

text \<open>
  Text as the standard library handles it: ASCII classes, decimal rendering
  (\<open>u64::to_string\<close>) and parsing (\<open>str::parse::<u64>\<close>), and the well-formedness check of
  \<open>String::from_utf8\<close>. The lemmas say that decimal rendering and parsing invert each other
  on exactly the canonical numerals, and how UTF-8 validity behaves under concatenation.
\<close>

section \<open>ASCII classes\<close>

abbreviation char_code :: "char \<Rightarrow> nat" where
  "char_code c \<equiv> of_char c"

definition is_ascii_digit :: "char \<Rightarrow> bool" where
  "is_ascii_digit c \<longleftrightarrow> 48 \<le> char_code c \<and> char_code c \<le> 57"

definition is_ascii_whitespace :: "char \<Rightarrow> bool" where
  "is_ascii_whitespace c \<longleftrightarrow> char_code c \<in> {9, 10, 12, 13, 32}"

lemma code_inject: "char_code c = char_code d \<longleftrightarrow> c = d"
  by (metis char_of_char)

lemma digit_not_whitespace: "is_ascii_digit c \<Longrightarrow> \<not> is_ascii_whitespace c"
  by (auto simp: is_ascii_digit_def is_ascii_whitespace_def)

section \<open>Decimal text\<close>

definition digit_char :: "nat \<Rightarrow> char" where
  "digit_char d = char_of (48 + d)"

definition digit_val :: "char \<Rightarrow> nat" where
  "digit_val c = char_code c - 48"

fun dec_of_nat :: "nat \<Rightarrow> string" where
  "dec_of_nat n = (if n < 10 then [digit_char n] else dec_of_nat (n div 10) @ [digit_char (n mod 10)])"

declare dec_of_nat.simps [simp del]

definition nat_of_dec :: "string \<Rightarrow> nat" where
  "nat_of_dec s = foldl (\<lambda>a c. a * 10 + digit_val c) 0 s"

lemma code_digit_char [simp]: "d < 10 \<Longrightarrow> char_code (digit_char d) = 48 + d"
  by (simp add: digit_char_def)

lemma digit_val_char [simp]: "d < 10 \<Longrightarrow> digit_val (digit_char d) = d"
  by (simp add: digit_val_def)

lemma digit_char_is_digit [simp]: "d < 10 \<Longrightarrow> is_ascii_digit (digit_char d)"
  by (simp add: is_ascii_digit_def)

lemma digit_char_val: "is_ascii_digit c \<Longrightarrow> digit_char (digit_val c) = c"
  by (simp add: is_ascii_digit_def digit_char_def digit_val_def)

lemma digit_val_less: "is_ascii_digit c \<Longrightarrow> digit_val c < 10"
  by (auto simp: is_ascii_digit_def digit_val_def)

lemma nat_of_dec_snoc [simp]: "nat_of_dec (s @ [c]) = nat_of_dec s * 10 + digit_val c"
  by (simp add: nat_of_dec_def)

lemma nat_of_dec_Nil [simp]: "nat_of_dec [] = 0"
  by (simp add: nat_of_dec_def)

lemma dec_of_nat_nonempty [simp]: "dec_of_nat n \<noteq> []"
  by (subst dec_of_nat.simps) simp

lemma dec_of_nat_digits: "c \<in> set (dec_of_nat n) \<Longrightarrow> is_ascii_digit c"
proof (induction n rule: dec_of_nat.induct)
  case (1 n)
  then show ?case by (subst (asm) (2) dec_of_nat.simps) (auto split: if_splits)
qed

lemma nat_of_dec_of_nat [simp]: "nat_of_dec (dec_of_nat n) = n"
proof (induction n rule: dec_of_nat.induct)
  case (1 n)
  then show ?case
    using nat_of_dec_snoc [of "[]" "digit_char n"]
    by (subst dec_of_nat.simps) auto
qed

lemma dec_of_nat_inject [simp]: "dec_of_nat m = dec_of_nat n \<longleftrightarrow> m = n"
  by (metis nat_of_dec_of_nat)

text \<open>The canonical numerals: \<open>0\<close>, or digits that do not start with \<open>0\<close>.\<close>

definition canonical_dec :: "string \<Rightarrow> bool" where
  "canonical_dec s \<longleftrightarrow> s \<noteq> [] \<and> (\<forall>c \<in> set s. is_ascii_digit c) \<and> (s = ''0'' \<or> hd s \<noteq> CHR ''0'')"

lemma digit_char_eq_zero: "d < 10 \<Longrightarrow> digit_char d = CHR ''0'' \<longleftrightarrow> d = 0"
  using code_inject [of "digit_char d" "CHR ''0''"] by simp

lemma hd_dec_of_nat: "0 < n \<Longrightarrow> hd (dec_of_nat n) \<noteq> CHR ''0''"
proof (induction n rule: dec_of_nat.induct)
  case (1 n)
  then show ?case
    by (subst dec_of_nat.simps) (auto simp: digit_char_eq_zero hd_append)
qed

lemma digit_char_0 [simp]: "digit_char 0 = CHR ''0''"
  by (simp add: digit_char_eq_zero)

lemma dec_of_nat_0: "dec_of_nat 0 = ''0''"
  by (simp add: dec_of_nat.simps)

lemma canonical_dec_of_nat: "canonical_dec (dec_of_nat n)"
  by (cases "n = 0") (auto simp: canonical_dec_def dec_of_nat_0 hd_dec_of_nat is_ascii_digit_def
      dest: dec_of_nat_digits)

lemma digit_val_pos: "is_ascii_digit c \<Longrightarrow> c \<noteq> CHR ''0'' \<Longrightarrow> 0 < digit_val c"
  by (metis digit_char_0 digit_char_val gr0I)

lemma nat_of_dec_pos:
  assumes "s \<noteq> []" "\<forall>c \<in> set s. is_ascii_digit c" "hd s \<noteq> CHR ''0''"
  shows "0 < nat_of_dec s"
  using assms
proof (induction s rule: rev_induct)
  case (snoc c s)
  show ?case
  proof (cases "s = []")
    case True
    with snoc.prems digit_val_pos [of c] show ?thesis by (simp add: nat_of_dec_def)
  next
    case False
    with snoc show ?thesis by simp
  qed
qed simp

lemma dec_of_nat_of_dec: "canonical_dec s \<Longrightarrow> dec_of_nat (nat_of_dec s) = s"
proof (induction s rule: rev_induct)
  case Nil
  then show ?case by (simp add: canonical_dec_def)
next
  case (snoc c s)
  have c: "is_ascii_digit c" "digit_val c < 10"
    using snoc.prems digit_val_less by (auto simp: canonical_dec_def)
  show ?case
  proof (cases "s = []")
    case True
    with c show ?thesis by (simp add: nat_of_dec_def dec_of_nat.simps digit_char_val)
  next
    case False
    with snoc.prems have s: "\<forall>c \<in> set s. is_ascii_digit c" "hd s \<noteq> CHR ''0''"
      by (auto simp: canonical_dec_def)
    with False have "canonical_dec s" by (simp add: canonical_dec_def)
    moreover have "0 < nat_of_dec s" using nat_of_dec_pos False s by blast
    ultimately show ?thesis
      using c snoc.IH by (subst dec_of_nat.simps) (simp add: digit_char_val)
  qed
qed

text \<open>
  \<open>str::parse::<u64>\<close>: an optional \<open>+\<close>, then at least one digit, within 64 bits.
\<close>

definition u64_from_str :: "string \<Rightarrow> u64 option" where
  "u64_from_str s =
     (let d = (if s \<noteq> [] \<and> hd s = CHR ''+'' then tl s else s)
      in if d = [] \<or> (\<exists>c \<in> set d. \<not> is_ascii_digit c) then None
         else if nat_of_dec d < 2 ^ 64 then Some (word_of_nat (nat_of_dec d)) else None)"

definition u64_to_string :: "u64 \<Rightarrow> string" where
  "u64_to_string w = dec_of_nat (unat w)"

lemma u64_from_str_digits:
  assumes "s \<noteq> []" "\<forall>c \<in> set s. is_ascii_digit c"
  shows "u64_from_str s = (if nat_of_dec s < 2 ^ 64 then Some (word_of_nat (nat_of_dec s)) else None)"
proof -
  have "hd s \<noteq> CHR ''+''" using assms by (cases s) (auto simp: is_ascii_digit_def)
  with assms show ?thesis by (auto simp: u64_from_str_def)
qed

lemma unat_u64_less [simp]: "unat (w :: u64) < 2 ^ 64"
  using unsigned_less [of w, where 'a = nat] by simp

lemma u64_from_to_string: "u64_from_str (u64_to_string w) = Some w"
  using dec_of_nat_digits unat_u64_less [of w]
  by (subst u64_from_str_digits) (auto simp: u64_to_string_def)

lemma u64_to_from_str:
  "canonical_dec s \<Longrightarrow> u64_from_str s = Some w \<Longrightarrow> u64_to_string w = s"
  by (subst (asm) u64_from_str_digits)
    (auto simp: canonical_dec_def u64_to_string_def unat_of_nat dec_of_nat_of_dec
      split: if_splits)

section \<open>UTF-8\<close>

text \<open>
  \<open>String::from_utf8\<close> accepts exactly the well-formed octet sequences of the Unicode
  standard (table 3-7): \<open>utf8_step\<close> is the width of the well-formed character a sequence
  starts with, if it starts with one.
\<close>

definition utf8_cont :: "u8 \<Rightarrow> bool" where
  "utf8_cont b \<longleftrightarrow> 0x80 \<le> b \<and> b \<le> 0xBF"

definition utf8_second :: "u8 \<Rightarrow> u8 \<Rightarrow> bool" where
  "utf8_second b c \<longleftrightarrow>
     (if b = 0xE0 then 0xA0 \<le> c \<and> c \<le> 0xBF
      else if b = 0xED then 0x80 \<le> c \<and> c \<le> 0x9F
      else if b = 0xF0 then 0x90 \<le> c \<and> c \<le> 0xBF
      else if b = 0xF4 then 0x80 \<le> c \<and> c \<le> 0x8F
      else utf8_cont c)"

definition utf8_step :: "bytes \<Rightarrow> nat option" where
  "utf8_step bs = (case bs of
     [] \<Rightarrow> None
   | b # r \<Rightarrow>
       if b < 0x80 then Some 1
       else if 0xC2 \<le> b \<and> b \<le> 0xDF then
         (case r of c # _ \<Rightarrow> if utf8_cont c then Some 2 else None | _ \<Rightarrow> None)
       else if 0xE0 \<le> b \<and> b \<le> 0xEF then
         (case r of c # d # _ \<Rightarrow> if utf8_second b c \<and> utf8_cont d then Some 3 else None
          | _ \<Rightarrow> None)
       else if 0xF0 \<le> b \<and> b \<le> 0xF4 then
         (case r of c # d # e # _ \<Rightarrow>
            if utf8_second b c \<and> utf8_cont d \<and> utf8_cont e then Some 4 else None
          | _ \<Rightarrow> None)
       else None)"

lemma utf8_step_bounds: "utf8_step bs = Some n \<Longrightarrow> 0 < n \<and> n \<le> length bs"
  by (auto simp: utf8_step_def split: list.splits if_splits)

lemma utf8_step_append: "utf8_step bs = Some n \<Longrightarrow> utf8_step (bs @ cs) = Some n"
  by (cases bs; cases "tl bs"; cases "tl (tl bs)"; cases "tl (tl (tl bs))")
    (simp_all add: utf8_step_def split: if_splits)

function utf8_valid :: "bytes \<Rightarrow> bool" where
  "utf8_valid bs =
     (if bs = [] then True
      else case utf8_step bs of None \<Rightarrow> False | Some n \<Rightarrow> utf8_valid (drop n bs))"
  by pat_completeness auto
termination
  by (relation "measure length") (auto dest: utf8_step_bounds)

declare utf8_valid.simps [simp del]

lemma utf8_valid_Nil [simp]: "utf8_valid []"
  by (subst utf8_valid.simps) simp

lemma utf8_valid_step: "utf8_step bs = Some n \<Longrightarrow> utf8_valid bs \<longleftrightarrow> utf8_valid (drop n bs)"
  by (subst utf8_valid.simps) (auto simp: utf8_step_def)

lemma utf8_valid_append: "utf8_valid bs \<Longrightarrow> utf8_valid (bs @ cs) \<longleftrightarrow> utf8_valid cs"
proof (induction bs rule: utf8_valid.induct)
  case (1 bs)
  show ?case
  proof (cases "bs = []")
    case False
    with "1.prems" obtain n where n: "utf8_step bs = Some n" "utf8_valid (drop n bs)"
      by (subst (asm) utf8_valid.simps) (auto split: option.splits)
    from n(1) have "n \<le> length bs" by (simp add: utf8_step_bounds)
    with n "1.IH" [OF False n(1) n(2)] show ?thesis
      using utf8_valid_step [OF utf8_step_append [OF n(1)], of cs] by simp
  qed simp
qed

lemma utf8_valid_ascii_Cons: "b < 0x80 \<Longrightarrow> utf8_valid (b # bs) \<longleftrightarrow> utf8_valid bs"
  by (subst utf8_valid_step [of _ 1]) (simp_all add: utf8_step_def)

text \<open>A Rust string is UTF-8 by construction; in the model this is a predicate.\<close>

definition utf8_string :: "string \<Rightarrow> bool" where
  "utf8_string s \<longleftrightarrow> utf8_valid (as_bytes s)"

definition from_utf8 :: "bytes \<Rightarrow> string option" where
  "from_utf8 bs = (if utf8_valid bs then Some (string_of_bytes bs) else None)"

lemma from_utf8_as_bytes: "utf8_string s \<Longrightarrow> from_utf8 (as_bytes s) = Some s"
  by (simp add: from_utf8_def utf8_string_def)

lemma from_utf8_Some_iff: "from_utf8 bs = Some s \<longleftrightarrow> utf8_string s \<and> as_bytes s = bs"
  by (auto simp: from_utf8_def utf8_string_def split: if_splits)

lemma utf8_string_append: "utf8_string s \<Longrightarrow> utf8_string t \<Longrightarrow> utf8_string (s @ t)"
  by (simp add: utf8_string_def utf8_valid_append)

lemma utf8_string_Nil [simp]: "utf8_string []"
  by (simp add: utf8_string_def)

lemma utf8_string_ascii: "(\<forall>c \<in> set s. char_code c < 128) \<Longrightarrow> utf8_string s"
proof (induction s)
  case (Cons c s)
  then have "byte_of_char c < 0x80" by (simp add: word_less_nat_alt)
  with Cons show ?case
    by (simp add: utf8_string_def as_bytes_def utf8_valid_ascii_Cons)
qed simp

lemma utf8_string_dec [simp]: "utf8_string (dec_of_nat n)"
  by (rule utf8_string_ascii) (auto dest!: dec_of_nat_digits simp: is_ascii_digit_def)

section \<open>ASCII case\<close>

definition ascii_lower :: "char \<Rightarrow> char" where
  "ascii_lower c = (if 65 \<le> char_code c \<and> char_code c \<le> 90 then char_of (char_code c + 32) else c)"

definition ascii_upper :: "char \<Rightarrow> char" where
  "ascii_upper c = (if 97 \<le> char_code c \<and> char_code c \<le> 122 then char_of (char_code c - 32) else c)"

definition to_ascii_lowercase :: "string \<Rightarrow> string" where
  "to_ascii_lowercase s = map ascii_lower s"

definition to_ascii_uppercase :: "string \<Rightarrow> string" where
  "to_ascii_uppercase s = map ascii_upper s"

lemma ascii_upper_lower: "\<not> (97 \<le> char_code c \<and> char_code c \<le> 122) \<Longrightarrow> ascii_upper (ascii_lower c) = c"
  by (auto simp: ascii_upper_def ascii_lower_def)

lemma to_upper_lower:
  "\<forall>c \<in> set s. \<not> (97 \<le> char_code c \<and> char_code c \<le> 122) \<Longrightarrow> to_ascii_uppercase (to_ascii_lowercase s) = s"
  by (induction s) (auto simp: to_ascii_uppercase_def to_ascii_lowercase_def ascii_upper_lower)

section \<open>Lossy decoding, lines and trimming\<close>

text \<open>
  \<open>String::from_utf8_lossy\<close>: each maximal ill-formed piece becomes one \<open>U+FFFD\<close>;
  \<open>utf8_bad_len\<close> is the length of the piece a sequence starts with when it is ill-formed.
\<close>

definition utf8_bad_len :: "bytes \<Rightarrow> nat" where
  "utf8_bad_len bs = (case bs of
     b # c # r \<Rightarrow>
       if 0xE0 \<le> b \<and> b \<le> 0xF4 \<and> utf8_second b c then
         (if b \<le> 0xEF then 2
          else (case r of d # _ \<Rightarrow> if utf8_cont d then 3 else 2 | [] \<Rightarrow> 2))
       else 1
   | _ \<Rightarrow> 1)"

lemma utf8_bad_len_pos: "0 < utf8_bad_len bs"
  by (simp add: utf8_bad_len_def split: list.split)

function from_utf8_lossy_bytes :: "bytes \<Rightarrow> bytes" where
  "from_utf8_lossy_bytes bs =
     (if bs = [] then []
      else case utf8_step bs of
        Some n \<Rightarrow> take n bs @ from_utf8_lossy_bytes (drop n bs)
      | None \<Rightarrow> [0xEF, 0xBF, 0xBD] @ from_utf8_lossy_bytes (drop (utf8_bad_len bs) bs))"
  by pat_completeness auto
termination
  by (relation "measure length") (auto dest: utf8_step_bounds simp: utf8_bad_len_pos)

declare from_utf8_lossy_bytes.simps [simp del]

definition from_utf8_lossy :: "bytes \<Rightarrow> string" where
  "from_utf8_lossy bs = string_of_bytes (from_utf8_lossy_bytes bs)"

lemma from_utf8_lossy_valid: "utf8_valid bs \<Longrightarrow> from_utf8_lossy_bytes bs = bs"
proof (induction bs rule: utf8_valid.induct)
  case (1 bs)
  show ?case
  proof (cases "bs = []")
    case False
    with "1.prems" obtain n where n: "utf8_step bs = Some n" "utf8_valid (drop n bs)"
      by (subst (asm) utf8_valid.simps) (auto split: option.splits)
    with "1.IH" [OF False n] False show ?thesis by (subst from_utf8_lossy_bytes.simps) simp
  qed (simp add: from_utf8_lossy_bytes.simps)
qed

lemma from_utf8_lossy_as_bytes: "utf8_string s \<Longrightarrow> from_utf8_lossy (as_bytes s) = s"
  by (simp add: from_utf8_lossy_def utf8_string_def from_utf8_lossy_valid)

abbreviation LF :: char where "LF \<equiv> CHR 0x0A"
abbreviation CR :: char where "CR \<equiv> CHR 0x0D"

text \<open>\<open>str::lines\<close>: terminated lines lose the line feed and one carriage return before it.\<close>

definition strip_suffix_char :: "char \<Rightarrow> string \<Rightarrow> string" where
  "strip_suffix_char c s = (if s \<noteq> [] \<and> last s = c then butlast s else s)"

fun lines_from :: "string \<Rightarrow> string \<Rightarrow> string list" where
  "lines_from line [] = (if line = [] then [] else [line])"
| "lines_from line (c # s) =
     (if c = LF then strip_suffix_char CR line # lines_from [] s else lines_from (line @ [c]) s)"

definition str_lines :: "string \<Rightarrow> string list" where
  "str_lines s = lines_from [] s"

lemma lines_from_no_LF: "LF \<notin> set s \<Longrightarrow> lines_from line s = (if line @ s = [] then [] else [line @ s])"
  by (induction s arbitrary: line) auto

lemma str_lines_one: "LF \<notin> set s \<Longrightarrow> s \<noteq> [] \<Longrightarrow> str_lines s = [s]"
  by (simp add: str_lines_def lines_from_no_LF)

definition trim_end_char :: "char \<Rightarrow> string \<Rightarrow> string" where
  "trim_end_char c s = rev (dropWhile ((=) c) (rev s))"

definition strip_prefix :: "string \<Rightarrow> string \<Rightarrow> string option" where
  "strip_prefix p s = (if take (length p) s = p then Some (drop (length p) s) else None)"

lemma strip_prefix_append [simp]: "strip_prefix p (p @ s) = Some s"
  by (simp add: strip_prefix_def)

text \<open>
  \<open>str::trim\<close> removes characters with the Unicode property \<open>White_Space\<close> at both ends; these
  are their UTF-8 texts.
\<close>

definition unicode_whitespace :: "string list" where
  "unicode_whitespace =
     map (map char_of)
       ([[9], [10], [11], [12], [13], [32], [0xC2, 0x85], [0xC2, 0xA0], [0xE1, 0x9A, 0x80]]
        @ map (\<lambda>n. [0xE2, 0x80, n]) [0x80 ..< 0x8B]
        @ [[0xE2, 0x80, 0xA8], [0xE2, 0x80, 0xA9], [0xE2, 0x80, 0xAF], [0xE2, 0x81, 0x9F],
           [0xE3, 0x80, 0x80]] :: nat list list)"

lemma unicode_whitespace_nonempty: "w \<in> set unicode_whitespace \<Longrightarrow> w \<noteq> []"
  by (auto simp: unicode_whitespace_def)

function trim_front :: "string list \<Rightarrow> string \<Rightarrow> string" where
  "trim_front ws s =
     (case find (\<lambda>w. w \<noteq> [] \<and> take (length w) s = w) ws of
        None \<Rightarrow> s
      | Some w \<Rightarrow> trim_front ws (drop (length w) s))"
  by pat_completeness auto
termination
proof (relation "measure (length \<circ> snd)")
  fix ws s w
  assume "find (\<lambda>w. w \<noteq> [] \<and> take (length w) s = w) ws = Some w"
  then have "w \<noteq> []" "take (length w) s = w" by (auto simp: find_Some_iff)
  then have "s \<noteq> []" by auto
  with \<open>w \<noteq> []\<close> show "((ws, drop (length w) s), (ws, s)) \<in> measure (length \<circ> snd)" by simp
qed simp

declare trim_front.simps [simp del]

definition str_trim :: "string \<Rightarrow> string" where
  "str_trim s = rev (trim_front (map rev unicode_whitespace) (rev (trim_front unicode_whitespace s)))"

text \<open>Text between printable ASCII characters keeps its ends; a blank in front goes.\<close>

lemma trim_front_stops:
  "(\<And>w. w \<in> set ws \<Longrightarrow> w = [] \<or> take (length w) s \<noteq> w) \<Longrightarrow> trim_front ws s = s"
proof -
  assume "\<And>w. w \<in> set ws \<Longrightarrow> w = [] \<or> take (length w) s \<noteq> w"
  then have "find (\<lambda>w. w \<noteq> [] \<and> take (length w) s = w) ws = None" by (auto simp: find_None_iff)
  then show ?thesis by (subst trim_front.simps) simp
qed

lemma unicode_whitespace_ends:
  "w \<in> set unicode_whitespace \<Longrightarrow> \<not> (33 \<le> char_code (hd w) \<and> char_code (hd w) < 127)
     \<and> \<not> (33 \<le> char_code (last w) \<and> char_code (last w) < 127)"
  by (auto simp: unicode_whitespace_def)

lemma find_exists: "\<exists>x \<in> set xs. P x \<Longrightarrow> \<exists>x. find P xs = Some x \<and> x \<in> set xs \<and> P x"
  by (induction xs) auto

lemma trim_printable:
  assumes "s \<noteq> []" and "33 \<le> char_code (hd s) \<and> char_code (hd s) < 127"
    and "33 \<le> char_code (last s) \<and> char_code (last s) < 127"
  shows "str_trim s = s" "str_trim (CHR '' '' # s) = s"
proof -
  have front: "trim_front unicode_whitespace s = s"
  proof (rule trim_front_stops)
    fix w assume w: "w \<in> set unicode_whitespace"
    have "take (length w) s = w \<Longrightarrow> w \<noteq> [] \<Longrightarrow> hd w = hd s" using assms(1) by (cases w; cases s) auto
    with unicode_whitespace_ends [OF w] assms(2) show "w = [] \<or> take (length w) s \<noteq> w" by auto
  qed
  have rear: "trim_front (map rev unicode_whitespace) (rev s) = rev s"
  proof (rule trim_front_stops)
    fix v assume "v \<in> set (map rev unicode_whitespace)"
    then obtain w where w: "w \<in> set unicode_whitespace" "v = rev w" by auto
    have "take (length v) (rev s) = v \<Longrightarrow> v \<noteq> [] \<Longrightarrow> hd v = last s"
      using assms(1) by (cases v; cases s rule: rev_cases) auto
    with w unicode_whitespace_ends [OF w(1)] assms(3) show "v = [] \<or> take (length v) (rev s) \<noteq> v"
      by (auto simp: hd_rev)
  qed
  let ?P = "\<lambda>w. w \<noteq> [] \<and> take (length w) (CHR '' '' # s) = w"
  have blank: "char_of (32 :: nat) = CHR '' ''" by (rule code_inject [THEN iffD1]) simp
  have "'' '' \<in> set unicode_whitespace" unfolding blank [symmetric] by (simp add: unicode_whitespace_def)
  then have "\<exists>w \<in> set unicode_whitespace. ?P w" by force
  from find_exists [OF this] obtain w where
    w: "find ?P unicode_whitespace = Some w" "w \<in> set unicode_whitespace" "?P w" by blast
  then have "char_code (hd w) = 32" by (cases w) auto
  with w(2) have "w = '' ''" by (auto simp: unicode_whitespace_def blank)
  with w(1) have "trim_front unicode_whitespace (CHR '' '' # s) = trim_front unicode_whitespace s"
    by (subst trim_front.simps) simp
  with front rear show "str_trim s = s" "str_trim (CHR '' '' # s) = s" by (simp_all add: str_trim_def)
qed

end
