(* ===== verification/Json_Value.thy ===== *)
theory Json_Value
  imports Text
begin

text \<open>
  The JSON values the codec builds and reads. \<^verbatim>\<open>serde_json\<close>, \<^verbatim>\<open>uuid\<close> and \<^verbatim>\<open>time\<close> are
  third-party crates: their public data (the \<open>Value\<close> enum, an object as a finite map from
  keys to values) is a datatype here, and their algorithms are the fields of the record
  \<open>deps\<close>, an argument of every definition that calls them. \<open>Debug\<close> formatting of a string
  (\<open>{:?}\<close>) depends on the standard library's Unicode tables and is a field as well.
\<close>

section \<open>Values\<close>

text \<open>
  A \<open>serde_json::Number\<close> is an unsigned 64-bit integer, a negative integer or a float (kept
  as its bits); \<open>as_u64\<close> answers for the first kind only.
\<close>

datatype json_number = PosInt u64 | NegInt int | Float u64

datatype json =
    JNull
  | JBool bool
  | JNumber json_number
  | JString string
  | JArray "json list"
  | JObject "string \<Rightarrow> json option"

type_synonym json_map = "string \<rightharpoonup> json"

fun as_u64 :: "json_number \<Rightarrow> u64 option" where
  "as_u64 (PosInt n) = Some n"
| "as_u64 (NegInt i) = None"
| "as_u64 (Float f) = None"

definition number_of_u32 :: "u32 \<Rightarrow> json_number" where
  "number_of_u32 w = PosInt (ucast w)"

text \<open>\<open>u32::try_from\<close> of a \<open>u64\<close>, and of a \<open>usize\<close> length.\<close>

definition u32_try_from_u64 :: "u64 \<Rightarrow> u32 option" where
  "u32_try_from_u64 v = (if unat v < 2 ^ 32 then Some (ucast v) else None)"

definition u32_try_from_usize :: "nat \<Rightarrow> u32 option" where
  "u32_try_from_usize n = (if n < 2 ^ 32 then Some (word_of_nat n) else None)"

lemma unat_u32_less [simp]: "unat (w :: u32) < 4294967296"
  using unsigned_less [of w, where 'a = nat] by simp

lemma unat_ucast_u32 [simp]: "unat (ucast (w :: u32) :: u64) = unat w"
proof -
  have "unat w < 2 ^ 64" by (rule less_trans [OF unat_u32_less]) simp
  then show ?thesis by (simp add: unsigned_ucast_eq take_bit_nat_eq_self del: power_numeral)
qed

lemma unat_ucast_u64: "unat v < 4294967296 \<Longrightarrow> unat (ucast (v :: u64) :: u32) = unat v"
  by (simp add: unsigned_ucast_eq take_bit_nat_eq_self)

lemma ucast_ucast_u32 [simp]: "ucast (ucast (w :: u32) :: u64) = w"
  by (simp add: word_unat_eq_iff unat_ucast_u64)

lemma u32_try_from_u64_of_u32 [simp]: "u32_try_from_u64 (ucast (w :: u32)) = Some w"
  by (simp add: u32_try_from_u64_def)

lemma u32_try_from_u64_Some_iff: "u32_try_from_u64 v = Some w \<longleftrightarrow> v = ucast w"
proof
  assume "u32_try_from_u64 v = Some w"
  then have "unat v < 4294967296" "w = ucast v"
    by (auto simp: u32_try_from_u64_def split: if_splits)
  then show "v = ucast w" by (simp add: word_unat_eq_iff unat_ucast_u64)
qed simp

lemma u32_try_from_usize_Some_iff:
  "u32_try_from_usize n = Some w \<longleftrightarrow> unat w = n"
proof
  assume "unat w = n"
  then have "n < 4294967296" "w = word_of_nat n" using unat_u32_less [of w] by auto
  then show "u32_try_from_usize n = Some w" by (simp add: u32_try_from_usize_def)
qed (auto simp: u32_try_from_usize_def unat_of_nat split: if_splits)

lemma u32_try_from_usize_None_iff: "u32_try_from_usize n = None \<longleftrightarrow> 2 ^ 32 \<le> n"
  by (auto simp: u32_try_from_usize_def)

section \<open>Third-party operations\<close>

record 'ts deps =
  serde_from_str :: "string \<Rightarrow> json option"
  serde_to_string :: "json \<Rightarrow> string option"
  uuid_parse_str :: "string \<Rightarrow> uuid option"
  uuid_to_string :: "uuid \<Rightarrow> string"
  rfc3339_format :: "'ts \<Rightarrow> string option"
  rfc3339_parse :: "string \<Rightarrow> 'ts option"
  str_debug :: "string \<Rightarrow> string"

text \<open>
  Documented behaviour the codec relies on, stated for one value at a time: a UUID's text
  parses back to it, a timestamp's RFC 3339 text (when it can be written) parses back to it,
  and \<^verbatim>\<open>serde_json\<close> reads back the value it wrote.
\<close>

definition uuid_ok :: "'ts deps \<Rightarrow> uuid \<Rightarrow> bool" where
  "uuid_ok D u \<longleftrightarrow> uuid_parse_str D (uuid_to_string D u) = Some u"

definition timestamp_ok :: "'ts deps \<Rightarrow> 'ts \<Rightarrow> bool" where
  "timestamp_ok D t \<longleftrightarrow> (case rfc3339_format D t of None \<Rightarrow> True | Some s \<Rightarrow> rfc3339_parse D s = Some t)"

definition serde_ok :: "'ts deps \<Rightarrow> json \<Rightarrow> bool" where
  "serde_ok D v \<longleftrightarrow> (case serde_to_string D v of None \<Rightarrow> True | Some s \<Rightarrow> serde_from_str D s = Some v)"

lemma timestamp_okD: "timestamp_ok D t \<Longrightarrow> rfc3339_format D t = Some s \<Longrightarrow> rfc3339_parse D s = Some t"
  by (simp add: timestamp_ok_def)

lemma serde_okD: "serde_ok D v \<Longrightarrow> serde_to_string D v = Some s \<Longrightarrow> serde_from_str D s = Some v"
  by (simp add: serde_ok_def)

end
