(* ===== verification/Reference_Ticket.thy ===== *)
theory Reference_Ticket
  imports Text
begin

text \<open>
  The reference ticket profile \<open>guyos.reference_v1\<close>
  (\<^verbatim>\<open>guyos_core/src/domain/reference_ticket_v1.rs\<close>): issuing and checking a ticket.
  Base64 (\<^verbatim>\<open>data_encoding\<close>), HMAC-SHA256 (\<^verbatim>\<open>hmac\<close>, \<^verbatim>\<open>sha2\<close>), the constant-time
  comparison (\<^verbatim>\<open>subtle\<close>) and the text of a UUID (\<^verbatim>\<open>uuid\<close>) are third-party code: they are
  the fields of the record \<open>crypto\<close>, an argument of the definitions, and \<open>crypto_ok\<close> states
  what their documentation promises. The lemmas give the exact set of accepted tickets, the
  round trip, and which failures are structural.
\<close>

section \<open>Third-party operations\<close>

record crypto =
  b64url_encode :: "bytes \<Rightarrow> string"
  b64url_decode :: "bytes \<Rightarrow> bytes option"
  hmac_sha256_mac :: "bytes \<Rightarrow> bytes \<Rightarrow> bytes"
  ct_eq :: "bytes \<Rightarrow> bytes \<Rightarrow> bool"
  uuid_text :: "uuid \<Rightarrow> string"

section \<open>Constants and errors\<close>

definition REFERENCE_TICKET_PROFILE_ID :: string where
  "REFERENCE_TICKET_PROFILE_ID = ''guyos.reference_v1''"

definition VERSION_V1 :: u8 where
  "VERSION_V1 = 0x01"

definition TICKET_BINARY_LEN :: nat where
  "TICKET_BINARY_LEN = 57"

definition PREFIX :: bytes where
  "PREFIX = as_bytes ''guyos-ticket-v1'' @ [0]"

datatype reference_ticket_error = TicketDecodeFailed | InvalidTicket

fun portable_code :: "reference_ticket_error \<Rightarrow> string" where
  "portable_code TicketDecodeFailed = ''ticket_decode_failed''"
| "portable_code InvalidTicket = ''invalid_ticket''"

section \<open>Operations\<close>

definition is_base64url_byte :: "u8 \<Rightarrow> bool" where
  "is_base64url_byte b \<longleftrightarrow>
     (byte_of_char CHR ''A'' \<le> b \<and> b \<le> byte_of_char CHR ''Z'')
   \<or> (byte_of_char CHR ''a'' \<le> b \<and> b \<le> byte_of_char CHR ''z'')
   \<or> (byte_of_char CHR ''0'' \<le> b \<and> b \<le> byte_of_char CHR ''9'')
   \<or> b = byte_of_char CHR ''-'' \<or> b = byte_of_char CHR ''_''"

text \<open>The loop over \<open>ticket.as_bytes()\<close>, leaving at the first octet outside the alphabet.\<close>

fun pad_strict_scan :: "bytes \<Rightarrow> reference_ticket_error + unit" where
  "pad_strict_scan [] = Inr ()"
| "pad_strict_scan (b # bs) =
     (if \<not> is_base64url_byte b then Inl TicketDecodeFailed else pad_strict_scan bs)"

definition hmac_sha256 :: "crypto \<Rightarrow> bytes \<Rightarrow> bytes \<Rightarrow> bytes" where
  "hmac_sha256 C k_mac body = hmac_sha256_mac C k_mac (PREFIX @ body)"

text \<open>The 25 octets of the body: version, room id, big-endian expiry.\<close>

definition ticket_body :: "bytes \<Rightarrow> u64 \<Rightarrow> bytes" where
  "ticket_body room_id expires_unix = [VERSION_V1] @ room_id @ u64_to_be_bytes expires_unix"

definition encode_reference_v1 :: "crypto \<Rightarrow> bytes \<Rightarrow> bytes \<Rightarrow> u64 \<Rightarrow> string" where
  "encode_reference_v1 C k_mac room_id expires_unix =
     (let body = ticket_body room_id expires_unix;
          signature = hmac_sha256 C k_mac body;
          ticket_binary = body @ signature
      in b64url_encode C ticket_binary)"

definition uuid_from_bytes :: "bytes \<Rightarrow> uuid" where
  "uuid_from_bytes bs = word_of_nat (nat_of_be bs)"

definition decode_reference_v1 ::
    "crypto \<Rightarrow> string \<Rightarrow> bytes \<Rightarrow> u64 \<Rightarrow> reference_ticket_error + string" where
  "decode_reference_v1 C ticket k_mac now_unix =
     and_then (pad_strict_scan (as_bytes ticket)) (\<lambda>_.
     and_then (ok_or TicketDecodeFailed (b64url_decode C (as_bytes ticket))) (\<lambda>decoded.
       if length decoded \<noteq> TICKET_BINARY_LEN then Inl TicketDecodeFailed
       else if decoded ! 0 \<noteq> VERSION_V1 then Inl TicketDecodeFailed
       else
         let body = take 25 decoded;
             signature = drop 25 decoded;
             expected_mac = hmac_sha256 C k_mac body
         in if \<not> ct_eq C signature expected_mac then Inl InvalidTicket
            else
              let expires_unix = u64_from_be_bytes (take 8 (drop 17 body))
              in if expires_unix \<noteq> 0 \<and> expires_unix < now_unix then Inl InvalidTicket
                 else Inr (uuid_text C (uuid_from_bytes (take 16 (drop 1 body))))))"

section \<open>What the third-party operations promise\<close>

text \<open>
  \<open>BASE64URL_NOPAD\<close> writes only its alphabet, decodes what it encodes, and rejects every
  other spelling of the same octets (no padding, trailing bits checked); an HMAC-SHA256 tag
  has 32 octets; \<open>ct_eq\<close> decides equality.
\<close>

definition crypto_ok :: "crypto \<Rightarrow> bool" where
  "crypto_ok C \<longleftrightarrow>
     (\<forall>bs. b64url_decode C (as_bytes (b64url_encode C bs)) = Some bs)
   \<and> (\<forall>s bs. b64url_decode C (as_bytes s) = Some bs \<longrightarrow> b64url_encode C bs = s)
   \<and> (\<forall>bs. \<forall>b \<in> set (as_bytes (b64url_encode C bs)). is_base64url_byte b)
   \<and> (\<forall>k m. length (hmac_sha256_mac C k m) = 32)
   \<and> (\<forall>a b. ct_eq C a b \<longleftrightarrow> a = b)"

lemma crypto_okD:
  assumes "crypto_ok C"
  shows "b64url_decode C (as_bytes (b64url_encode C bs)) = Some bs"
    and "b64url_decode C (as_bytes s) = Some bs \<Longrightarrow> b64url_encode C bs = s"
    and "b \<in> set (as_bytes (b64url_encode C bs)) \<Longrightarrow> is_base64url_byte b"
    and "length (hmac_sha256 C k m) = 32"
    and "ct_eq C x y \<longleftrightarrow> x = y"
  using assms by (auto simp: crypto_ok_def hmac_sha256_def)

section \<open>Lemmas\<close>

lemma pad_strict_scan_Inr_iff:
  "pad_strict_scan bs = Inr u \<longleftrightarrow> (\<forall>b \<in> set bs. is_base64url_byte b)"
  by (induction bs) auto

lemma pad_strict_scan_Inl_iff:
  "pad_strict_scan bs = Inl e \<longleftrightarrow> e = TicketDecodeFailed \<and> (\<exists>b \<in> set bs. \<not> is_base64url_byte b)"
  by (induction bs) auto

lemma length_ticket_body: "length room_id = 16 \<Longrightarrow> length (ticket_body room_id e) = 25"
  by (simp add: ticket_body_def)

lemma ticket_body_fields:
  assumes "length room_id = 16"
  shows "ticket_body room_id e ! 0 = VERSION_V1"
    and "take 16 (drop 1 (ticket_body room_id e)) = room_id"
    and "take 8 (drop 17 (ticket_body room_id e)) = u64_to_be_bytes e"
proof -
  have "drop 17 (ticket_body room_id e) = drop 16 (room_id @ u64_to_be_bytes e)"
    by (simp add: ticket_body_def numeral_eq_Suc)
  then show "take 8 (drop 17 (ticket_body room_id e)) = u64_to_be_bytes e"
    using assms by simp
qed (use assms in \<open>simp_all add: ticket_body_def\<close>)

lemma ticket_body_split:
  assumes "length body = 25" and "body ! 0 = VERSION_V1"
  shows "body = ticket_body (take 16 (drop 1 body)) (u64_from_be_bytes (take 8 (drop 17 body)))"
proof -
  obtain b r where b: "body = b # r" using assms(1) by (cases body) auto
  then have r: "length r = 24" "b = VERSION_V1" using assms by auto
  have "take 8 (drop 16 r) = drop 16 r" using r(1) by simp
  moreover have "drop 17 body = drop 16 r" using b by (simp add: numeral_eq_Suc)
  ultimately have "u64_to_be_bytes (u64_from_be_bytes (take 8 (drop 17 body))) = drop 16 r"
    using r(1) by (simp add: u64_to_from_be_bytes)
  then show ?thesis using b r by (simp add: ticket_body_def)
qed

text \<open>The structural checks (steps 1 to 4 of the checklist) as one predicate.\<close>

definition ticket_shape :: "crypto \<Rightarrow> string \<Rightarrow> bytes option" where
  "ticket_shape C ticket =
     (if \<forall>b \<in> set (as_bytes ticket). is_base64url_byte b
      then (case b64url_decode C (as_bytes ticket) of
              None \<Rightarrow> None
            | Some d \<Rightarrow> if length d = TICKET_BINARY_LEN \<and> d ! 0 = VERSION_V1 then Some d else None)
      else None)"

lemma decode_reference_v1_shape:
  "decode_reference_v1 C ticket k now =
     (case ticket_shape C ticket of
        None \<Rightarrow> Inl TicketDecodeFailed
      | Some d \<Rightarrow>
          (let body = take 25 d; e = u64_from_be_bytes (take 8 (drop 17 body))
           in if \<not> ct_eq C (drop 25 d) (hmac_sha256 C k body) \<or> (e \<noteq> 0 \<and> e < now)
              then Inl InvalidTicket
              else Inr (uuid_text C (uuid_from_bytes (take 16 (drop 1 body))))))"
proof (cases "\<forall>b \<in> set (as_bytes ticket). is_base64url_byte b")
  case True
  then have "pad_strict_scan (as_bytes ticket) = Inr ()" by (simp add: pad_strict_scan_Inr_iff)
  with True show ?thesis
    by (auto simp: decode_reference_v1_def ticket_shape_def Let_def split: option.splits)
next
  case False
  then have "pad_strict_scan (as_bytes ticket) = Inl TicketDecodeFailed"
    by (auto simp: pad_strict_scan_Inl_iff)
  with False show ?thesis by (auto simp: decode_reference_v1_def ticket_shape_def)
qed

lemma ticket_shape_encode:
  assumes "crypto_ok C" and "length room_id = 16"
  shows "ticket_shape C (encode_reference_v1 C k room_id e)
       = Some (ticket_body room_id e @ hmac_sha256 C k (ticket_body room_id e))"
  using assms length_ticket_body [of room_id e] ticket_body_fields(1) [of room_id e]
  by (auto simp: ticket_shape_def encode_reference_v1_def Let_def crypto_okD nth_append
      TICKET_BINARY_LEN_def)

lemma uuid_from_bytes_inject:
  assumes "length a = 16" "length b = 16" "uuid_from_bytes a = uuid_from_bytes b"
  shows "a = b"
proof -
  have "nat_of_be a = nat_of_be b"
    using assms nat_of_be_less [of a] nat_of_be_less [of b]
    by (simp add: uuid_from_bytes_def word_of_nat_eq_iff take_bit_eq_mod)
  then show ?thesis
    using assms be_of_nat_of_be [of a] be_of_nat_of_be [of b] by simp
qed

text \<open>The tickets accepted are the tickets written.\<close>

lemma decode_reference_v1_Inr_iff:
  assumes "crypto_ok C"
  shows "decode_reference_v1 C t k now = Inr r \<longleftrightarrow>
    (\<exists>room e. length room = 16 \<and> t = encode_reference_v1 C k room e
       \<and> (e = 0 \<or> now \<le> e) \<and> r = uuid_text C (uuid_from_bytes room))"
proof
  assume ok: "decode_reference_v1 C t k now = Inr r"
  then obtain d where d: "ticket_shape C t = Some d"
    by (auto simp: decode_reference_v1_shape split: option.splits)
  define body where "body = take 25 d"
  define e where "e = u64_from_be_bytes (take 8 (drop 17 body))"
  define room where "room = take 16 (drop (Suc 0) body)"
  from d have len: "length d = 57" "d ! 0 = VERSION_V1" "b64url_decode C (as_bytes t) = Some d"
    by (auto simp: ticket_shape_def TICKET_BINARY_LEN_def split: if_splits option.splits)
  have body: "body = ticket_body room e"
    unfolding e_def room_def by (rule ticket_body_split [unfolded One_nat_def]) (use len in \<open>simp_all add: body_def\<close>)
  from ok d have sig: "drop 25 d = hmac_sha256 C k body" "e = 0 \<or> now \<le> e"
      "r = uuid_text C (uuid_from_bytes room)"
    by (auto simp: decode_reference_v1_shape crypto_okD(5) [OF assms] body_def [symmetric]
        e_def [symmetric] room_def [symmetric] Let_def split: if_splits)
  have "d = body @ hmac_sha256 C k body" using sig(1) unfolding body_def by (metis append_take_drop_id)
  then have "t = encode_reference_v1 C k room e"
    using crypto_okD(2) [OF assms len(3)] by (simp add: encode_reference_v1_def Let_def body)
  moreover have "length room = 16" using len by (simp add: room_def body_def)
  ultimately show "\<exists>room e. length room = 16 \<and> t = encode_reference_v1 C k room e
       \<and> (e = 0 \<or> now \<le> e) \<and> r = uuid_text C (uuid_from_bytes room)"
    using sig by blast
next
  assume "\<exists>room e. length room = 16 \<and> t = encode_reference_v1 C k room e
       \<and> (e = 0 \<or> now \<le> e) \<and> r = uuid_text C (uuid_from_bytes room)"
  then obtain room e where r: "length room = 16" "t = encode_reference_v1 C k room e"
      "e = 0 \<or> now \<le> e" "r = uuid_text C (uuid_from_bytes room)" by blast
  then show "decode_reference_v1 C t k now = Inr r"
    using ticket_shape_encode [OF assms r(1)] ticket_body_fields [OF r(1)]
      length_ticket_body [OF r(1)]
    by (auto simp: decode_reference_v1_shape crypto_okD(5) [OF assms] Let_def)
qed

section \<open>A concrete instance\<close>

text \<open>
  An instance of the third-party operations that meets \<open>crypto_ok\<close>: two letters per octet for
  the text encoding, a 32-octet checksum for the tag. It shows that the hypotheses below can
  hold; nothing about the program is read off it.
\<close>

definition letter :: "nat \<Rightarrow> u8" where
  "letter n = word_of_nat (65 + n)"

definition letter_pair :: "u8 \<Rightarrow> u8 \<Rightarrow> u8" where
  "letter_pair a b = word_of_nat ((unat a - 65) * 16 + (unat b - 65))"

fun letters_decode :: "bytes \<Rightarrow> bytes option" where
  "letters_decode [] = Some []"
| "letters_decode [b] = None"
| "letters_decode (a # b # r) =
     (if 65 \<le> unat a \<and> unat a < 81 \<and> 65 \<le> unat b \<and> unat b < 81
      then map_option ((#) (letter_pair a b)) (letters_decode r) else None)"

fun letters_encode :: "bytes \<Rightarrow> bytes" where
  "letters_encode [] = []"
| "letters_encode (b # bs) = letter (unat b div 16) # letter (unat b mod 16) # letters_encode bs"

definition letters_crypto :: crypto where
  "letters_crypto = \<lparr>
     b64url_encode = (\<lambda>bs. string_of_bytes (letters_encode bs)),
     b64url_decode = letters_decode,
     hmac_sha256_mac = (\<lambda>k m. replicate 32 (sum_list k + sum_list m)),
     ct_eq = (=),
     uuid_text = (\<lambda>u. dec_of_nat (unat u))\<rparr>"

lemma nibble_bounds: "unat (b :: u8) div 16 < 16"
  using unat_less_256 [of b] by (simp add: less_mult_imp_div_less)

lemma unat_letter [simp]: "n < 16 \<Longrightarrow> unat (letter n) = 65 + n"
  unfolding letter_def by (subst unat_of_nat) simp

lemma letter_pair_letters: "letter_pair (letter (unat b div 16)) (letter (unat b mod 16)) = b"
  by (simp add: letter_pair_def nibble_bounds)

lemma letter_of_pair:
  assumes "65 \<le> unat a" "unat a < 81" "65 \<le> unat b" "unat b < 81"
  shows "letter (unat (letter_pair a b) div 16) = a" "letter (unat (letter_pair a b) mod 16) = b"
proof -
  define x y where "x = unat a - 65" and "y = unat b - 65"
  have xy: "x < 16" "y < 16" "unat a = 65 + x" "unat b = 65 + y"
    using assms by (simp_all add: x_def y_def)
  have "unat (letter_pair a b) = x * 16 + y"
    unfolding letter_pair_def x_def [symmetric] y_def [symmetric]
    using xy by (subst unat_of_nat) simp
  then show "letter (unat (letter_pair a b) div 16) = a" "letter (unat (letter_pair a b) mod 16) = b"
    using xy by (simp_all add: word_unat_eq_iff)
qed

lemma letters_decode_encode [simp]: "letters_decode (letters_encode bs) = Some bs"
  by (induction bs) (simp_all add: nibble_bounds letter_pair_letters)

lemma letters_encode_decode: "letters_decode bs = Some ds \<Longrightarrow> letters_encode ds = bs"
  by (induction bs arbitrary: ds rule: letters_decode.induct)
    (auto simp: letter_of_pair split: if_splits)

lemma letter_is_base64url: "n < 16 \<Longrightarrow> is_base64url_byte (letter n)"
  by (simp add: is_base64url_byte_def word_le_nat_alt)

lemma letters_alphabet: "b \<in> set (letters_encode bs) \<Longrightarrow> is_base64url_byte b"
  by (induction bs) (auto simp: nibble_bounds letter_is_base64url)

lemma letters_crypto_ok: "crypto_ok letters_crypto"
  by (auto simp: crypto_ok_def letters_crypto_def letters_alphabet dest: letters_encode_decode)

section \<open>Properties\<close>

text \<open>
  C9: The hub accepts exactly the tickets the issuer can have written with the same key, for
  some room and an expiry that has not passed, and answers the text of that room's UUID.
\<close>

theorem reference_ticket_accepts_iff:
  assumes "crypto_ok C"
  shows "decode_reference_v1 C t k now = Inr r \<longleftrightarrow>
    (\<exists>room e. length room = 16 \<and> t = encode_reference_v1 C k room e
       \<and> (e = 0 \<or> now \<le> e) \<and> r = uuid_text C (uuid_from_bytes room))"
  using assms by (rule decode_reference_v1_Inr_iff)

theorem reference_ticket_accepts_iff_witness:
  "decode_reference_v1 letters_crypto (encode_reference_v1 letters_crypto [7] (replicate 16 3) 90) [7] 90
     = Inr (uuid_text letters_crypto (uuid_from_bytes (replicate 16 3)))"
  by (subst reference_ticket_accepts_iff [OF letters_crypto_ok])
    (rule exI [of _ "replicate 16 3"], rule exI [of _ 90], simp)

text \<open>
  A ticket checked with the key it was issued with yields the room's UUID text up to and
  including its expiry second (for ever when the expiry is 0), and \<open>invalid_ticket\<close> after it.
\<close>

lemma reference_ticket_expiry:
  assumes "crypto_ok C" and "length room = 16"
  shows "decode_reference_v1 C (encode_reference_v1 C k room e) k now =
    (if e \<noteq> 0 \<and> e < now then Inl InvalidTicket
     else Inr (uuid_text C (uuid_from_bytes room)))"
  using ticket_shape_encode [OF assms] ticket_body_fields [OF assms(2)]
    length_ticket_body [OF assms(2)]
  by (simp add: decode_reference_v1_shape crypto_okD(5) [OF assms(1)] Let_def)

text \<open>
  Whether a ticket fails with \<open>ticket_decode_failed\<close> depends on its text alone: no key
  and no clock turns such a failure into an acceptance or an \<open>invalid_ticket\<close>.
\<close>

lemma reference_ticket_decode_failure_structural:
  "decode_reference_v1 C t k now = Inl TicketDecodeFailed \<longleftrightarrow>
   decode_reference_v1 C t k' now' = Inl TicketDecodeFailed"
  by (auto simp: decode_reference_v1_shape Let_def split: option.splits if_splits)

text \<open>
  Acceptance is monotone in time: a ticket accepted now was accepted, for the same room,
  at every earlier second.
\<close>

lemma reference_ticket_earlier_clock:
  assumes "decode_reference_v1 C t k now = Inr r" and "now' \<le> now"
  shows "decode_reference_v1 C t k now' = Inr r"
  using assms
  by (auto simp: decode_reference_v1_shape Let_def split: option.splits if_splits)

end
