(* ===== verification/Wire_Attach.thy ===== *)
theory Wire_Attach
  imports Json_Value Reference_Ticket
begin

text \<open>
  Attach negotiation (\<^verbatim>\<open>guyos_core/src/domain/guyos_wire_attach.rs\<close>): payloads, hub policy,
  preamble validation, extraction from a JSON object, and the ordered handshake preamble,
  major, ticket. The injected \<open>AttachTicketVerifier\<close> is a function argument, as the trait
  object is in the code.
\<close>

section \<open>Payloads and policy\<close>

definition U31_MAX :: u32 where
  "U31_MAX = 2147483647"

record attach =
  att_protocol_major :: u32
  att_protocol_minor :: u32
  att_ticket :: string

record attach_ack =
  ack_room_id :: string
  ack_max_frame_bytes :: u32
  ack_max_message_bytes :: u32
  ack_protocol_major :: u32
  ack_server_protocol_minor :: u32
  ack_keepalive_interval_seconds :: "u32 option"

record attach_policy =
  pol_max_frame_bytes :: u32
  pol_max_message_bytes :: u32
  pol_keepalive_interval_seconds :: "u32 option"
  pol_supported_major :: u32
  pol_hub_minor_ceiling :: u32

definition single_major :: "u32 \<Rightarrow> u32 \<Rightarrow> u32 \<Rightarrow> u32 \<Rightarrow> u32 option \<Rightarrow> attach_policy" where
  "single_major supported_major hub_minor_ceiling max_frame_bytes max_message_bytes keepalive =
     \<lparr>pol_max_frame_bytes = max_frame_bytes,
      pol_max_message_bytes = max_message_bytes,
      pol_keepalive_interval_seconds = keepalive,
      pol_supported_major = supported_major,
      pol_hub_minor_ceiling = hub_minor_ceiling\<rparr>"

definition hub_protocol_minor_ceiling :: "attach_policy \<Rightarrow> u32 \<Rightarrow> u32 option" where
  "hub_protocol_minor_ceiling p major =
     (if major = pol_supported_major p then Some (pol_hub_minor_ceiling p) else None)"

type_synonym ticket_verifier = "string \<Rightarrow> reference_ticket_error + string"

section \<open>Preamble and extraction\<close>

definition validate_attach_preamble :: "attach \<Rightarrow> unit + unit" where
  "validate_attach_preamble a =
     (if U31_MAX < att_protocol_major a \<or> U31_MAX < att_protocol_minor a then Inl () else Inr ())"

definition require_attach_u31 :: "json_map \<Rightarrow> string \<Rightarrow> unit + u32" where
  "require_attach_u31 m key = (case m key of
     Some (JNumber n) \<Rightarrow>
       and_then (ok_or () (as_u64 n)) (\<lambda>v.
       and_then (ok_or () (u32_try_from_u64 v)) (\<lambda>v.
         if U31_MAX < v then Inl () else Inr v))
   | _ \<Rightarrow> Inl ())"

definition require_attach_string :: "json_map \<Rightarrow> string \<Rightarrow> unit + string" where
  "require_attach_string m key = (case m key of Some (JString s) \<Rightarrow> Inr s | _ \<Rightarrow> Inl ())"

definition attach_from_decoded_map :: "json_map \<Rightarrow> unit + attach" where
  "attach_from_decoded_map m =
     and_then (require_attach_u31 m ''protocol_major'') (\<lambda>protocol_major.
     and_then (require_attach_u31 m ''protocol_minor'') (\<lambda>protocol_minor.
     and_then (require_attach_string m ''ticket'') (\<lambda>ticket.
       let attach = \<lparr>att_protocol_major = protocol_major,
                     att_protocol_minor = protocol_minor,
                     att_ticket = ticket\<rparr>
       in and_then (validate_attach_preamble attach) (\<lambda>_. Inr attach))))"

section \<open>Handshake\<close>

datatype attach_handshake_error =
    HsInvalidAttach
  | HsProtocolMajorUnsupported
  | HsTicket reference_ticket_error

definition accept_attach ::
    "attach \<Rightarrow> attach_policy \<Rightarrow> ticket_verifier \<Rightarrow> attach_handshake_error + attach_ack" where
  "accept_attach a p verify_ticket =
     and_then (map_err (\<lambda>_. HsInvalidAttach) (validate_attach_preamble a)) (\<lambda>_.
     and_then (ok_or HsProtocolMajorUnsupported
                 (hub_protocol_minor_ceiling p (att_protocol_major a))) (\<lambda>h.
     and_then (map_err HsTicket (verify_ticket (att_ticket a))) (\<lambda>room_id.
       let server_minor = min (att_protocol_minor a) h
       in Inr \<lparr>ack_room_id = room_id,
               ack_max_frame_bytes = pol_max_frame_bytes p,
               ack_max_message_bytes = pol_max_message_bytes p,
               ack_protocol_major = att_protocol_major a,
               ack_server_protocol_minor = server_minor,
               ack_keepalive_interval_seconds = pol_keepalive_interval_seconds p\<rparr>)))"

section \<open>Portable codes\<close>

definition error_message_protocol_major_unsupported :: string where
  "error_message_protocol_major_unsupported = ''Protocol major is not supported by this hub.''"

definition error_message_invalid_attach :: string where
  "error_message_invalid_attach = ''Attach payload failed semantic validation.''"

definition error_message_invalid_attach_duplicate :: string where
  "error_message_invalid_attach_duplicate =
     ''A second attach is not allowed after attach_ack on this stream.''"

definition error_message_ticket_decode_failed :: string where
  "error_message_ticket_decode_failed = ''Ticket could not be decoded.''"

definition error_message_invalid_ticket :: string where
  "error_message_invalid_ticket = ''Ticket validation failed.''"

definition error_message_attach_required :: string where
  "error_message_attach_required = ''A successful attach is required before this message.''"

fun map_ticket_err :: "reference_ticket_error \<Rightarrow> string" where
  "map_ticket_err TicketDecodeFailed = error_message_ticket_decode_failed"
| "map_ticket_err InvalidTicket = error_message_invalid_ticket"

fun attach_handshake_portable :: "attach_handshake_error \<Rightarrow> string \<times> string" where
  "attach_handshake_portable HsInvalidAttach = (''invalid_attach'', error_message_invalid_attach)"
| "attach_handshake_portable HsProtocolMajorUnsupported =
     (''protocol_major_unsupported'', error_message_protocol_major_unsupported)"
| "attach_handshake_portable (HsTicket e) = (portable_code e, map_ticket_err e)"

section \<open>Lemmas\<close>

definition attach_in_range :: "attach \<Rightarrow> bool" where
  "attach_in_range a \<longleftrightarrow> att_protocol_major a \<le> U31_MAX \<and> att_protocol_minor a \<le> U31_MAX"

lemma validate_attach_preamble_eq:
  "validate_attach_preamble a = (if attach_in_range a then Inr () else Inl ())"
  by (auto simp: validate_attach_preamble_def attach_in_range_def not_le)

lemma validate_attach_preamble_iff:
  "validate_attach_preamble a = Inr u \<longleftrightarrow> attach_in_range a"
  "validate_attach_preamble a = Inl u \<longleftrightarrow> \<not> attach_in_range a"
  by (simp_all add: validate_attach_preamble_eq)

lemma require_attach_u31_Inr_iff:
  "require_attach_u31 m key = Inr v \<longleftrightarrow> m key = Some (JNumber (number_of_u32 v)) \<and> v \<le> U31_MAX"
proof
  assume "require_attach_u31 m key = Inr v"
  then show "m key = Some (JNumber (number_of_u32 v)) \<and> v \<le> U31_MAX"
    by (auto simp: require_attach_u31_def number_of_u32_def result_simps u32_try_from_u64_Some_iff
        not_less split: option.splits json.splits if_splits elim!: as_u64.elims)
qed (auto simp: require_attach_u31_def number_of_u32_def)

lemma require_attach_string_Inr_iff:
  "require_attach_string m key = Inr s \<longleftrightarrow> m key = Some (JString s)"
  by (auto simp: require_attach_string_def split: option.splits json.splits)

lemma attach_from_decoded_map_Inr_iff:
  "attach_from_decoded_map m = Inr a \<longleftrightarrow>
     m ''protocol_major'' = Some (JNumber (number_of_u32 (att_protocol_major a)))
   \<and> m ''protocol_minor'' = Some (JNumber (number_of_u32 (att_protocol_minor a)))
   \<and> m ''ticket'' = Some (JString (att_ticket a)) \<and> attach_in_range a"
  by (cases a)
    (auto simp: attach_from_decoded_map_def Let_def result_simps require_attach_u31_Inr_iff
      require_attach_string_Inr_iff validate_attach_preamble_iff attach_in_range_def)

lemma accept_attach_Inr_iff:
  "accept_attach a p v = Inr ack \<longleftrightarrow>
     attach_in_range a \<and> att_protocol_major a = pol_supported_major p
   \<and> (\<exists>room. v (att_ticket a) = Inr room
        \<and> ack = \<lparr>ack_room_id = room,
                 ack_max_frame_bytes = pol_max_frame_bytes p,
                 ack_max_message_bytes = pol_max_message_bytes p,
                 ack_protocol_major = att_protocol_major a,
                 ack_server_protocol_minor = min (att_protocol_minor a) (pol_hub_minor_ceiling p),
                 ack_keepalive_interval_seconds = pol_keepalive_interval_seconds p\<rparr>)"
  by (auto simp: accept_attach_def Let_def result_simps validate_attach_preamble_iff
      hub_protocol_minor_ceiling_def)

lemma accept_attach_Inl_iff:
  "accept_attach a p v = Inl e \<longleftrightarrow>
     (if \<not> attach_in_range a then e = HsInvalidAttach
      else if att_protocol_major a \<noteq> pol_supported_major p then e = HsProtocolMajorUnsupported
      else \<exists>t. v (att_ticket a) = Inl t \<and> e = HsTicket t)"
  by (auto simp: accept_attach_def Let_def result_simps validate_attach_preamble_eq
      hub_protocol_minor_ceiling_def)

lemma portable_code_inject [simp]: "portable_code t = portable_code t' \<longleftrightarrow> t = t'"
  by (cases t; cases t') simp_all

lemma portable_code_not_attach [simp]:
  "portable_code t \<noteq> ''invalid_attach''" "portable_code t \<noteq> ''protocol_major_unsupported''"
  "''invalid_attach'' \<noteq> portable_code t" "''protocol_major_unsupported'' \<noteq> portable_code t"
  by (cases t; simp)+

section \<open>Properties\<close>

text \<open>
  The handshake accepts exactly the attaches with in-range versions, the supported major
  and a ticket the verifier accepts; the acknowledgement echoes the major and the hub's
  limits, carries the verifier's room, and the smaller of the two minors.
\<close>

lemma accept_attach_exactly:
  "accept_attach a p v = Inr ack \<longleftrightarrow>
     att_protocol_major a \<le> U31_MAX \<and> att_protocol_minor a \<le> U31_MAX
   \<and> att_protocol_major a = pol_supported_major p
   \<and> v (att_ticket a) = Inr (ack_room_id ack)
   \<and> ack_max_frame_bytes ack = pol_max_frame_bytes p
   \<and> ack_max_message_bytes ack = pol_max_message_bytes p
   \<and> ack_protocol_major ack = att_protocol_major a
   \<and> ack_server_protocol_minor ack = min (att_protocol_minor a) (pol_hub_minor_ceiling p)
   \<and> ack_keepalive_interval_seconds ack = pol_keepalive_interval_seconds p"
  by (cases ack) (auto simp: accept_attach_Inr_iff attach_in_range_def)

text \<open>
  The checks are ordered preamble, major, ticket: the first one that fails names the
  error, and a failure before the ticket check is the same for every verifier, so the ticket
  is not looked at.
\<close>

lemma accept_attach_check_order:
  "(\<not> attach_in_range a \<longrightarrow> accept_attach a p v = Inl HsInvalidAttach)
 \<and> (attach_in_range a \<and> att_protocol_major a \<noteq> pol_supported_major p
      \<longrightarrow> accept_attach a p v = Inl HsProtocolMajorUnsupported)
 \<and> (attach_in_range a \<and> att_protocol_major a = pol_supported_major p
      \<longrightarrow> (\<forall>t. v (att_ticket a) = Inl t \<longrightarrow> accept_attach a p v = Inl (HsTicket t)))
 \<and> ((accept_attach a p v = Inl HsInvalidAttach \<or> accept_attach a p v = Inl HsProtocolMajorUnsupported)
      \<longrightarrow> accept_attach a p v' = accept_attach a p v)"
  by (cases "attach_in_range a"; cases "att_protocol_major a = pol_supported_major p")
    (auto simp: accept_attach_def validate_attach_preamble_eq hub_protocol_minor_ceiling_def
      result_simps Let_def)

text \<open>
  Decoding an attach object succeeds exactly when its three keys hold an in-range
  integer, an in-range integer and a string; every other key is ignored.
\<close>

lemma attach_decode_exactly:
  "attach_from_decoded_map m = Inr a \<longleftrightarrow>
     m ''protocol_major'' = Some (JNumber (PosInt (ucast (att_protocol_major a))))
   \<and> m ''protocol_minor'' = Some (JNumber (PosInt (ucast (att_protocol_minor a))))
   \<and> m ''ticket'' = Some (JString (att_ticket a))
   \<and> att_protocol_major a \<le> U31_MAX \<and> att_protocol_minor a \<le> U31_MAX"
  by (auto simp: attach_from_decoded_map_Inr_iff attach_in_range_def number_of_u32_def)

end
