(* ===== verification/Wire_Codec.thy ===== *)
theory Wire_Codec
  imports Wire_Attach
begin

text \<open>
  The wire v1 JSON codec (\<^verbatim>\<open>guyos_core/src/domain/guyos_wire_v1.rs\<close>, from the payload structs
  to \<open>parse_optional_rfc3339\<close>): the message enum, the message-layer errors, encoding with
  limits and decoding by \<open>type\<close>. The timestamp type of the \<^verbatim>\<open>time\<close> crate is the type variable
  \<^typ>\<open>'ts\<close>.
\<close>

section \<open>Limits and payloads\<close>

definition MAX_MESSAGE_BYTES_ADR_V1 :: nat where
  "MAX_MESSAGE_BYTES_ADR_V1 = 65536"

definition MAX_FRAME_BYTES_ADR_V1 :: u32 where
  "MAX_FRAME_BYTES_ADR_V1 = 1048576"

record publish =
  pub_client_message_id :: uuid
  pub_text :: string

record 'ts publish_ack =
  pa_seq :: u64
  pa_client_message_id :: uuid
  pa_server_timestamp :: "'ts option"

record 'ts wire_chat_message =
  cm_seq :: u64
  cm_client_message_id :: uuid
  cm_text :: string
  cm_sender_endpoint_id :: "string option"
  cm_server_timestamp :: "'ts option"

record error_envelope =
  err_code :: string
  err_message :: string
  err_details :: "json_map option"

datatype 'ts guyos_wire_v1_message =
    MAttach attach
  | MAttachAck attach_ack
  | MPublish publish
  | MPublishAck "'ts publish_ack"
  | MChatMessage "'ts wire_chat_message"
  | MDetach
  | MKeepalive
  | MError error_envelope

datatype guyos_wire_v1_message_error =
    MalformedJson
  | UnknownMessageType "string option"
  | InvalidAttach
  | MessageTooLarge nat u32
  | JsonBodyTooLarge nat u32
  | InvalidClientMessageId string

fun message_error_fmt :: "'ts deps \<Rightarrow> guyos_wire_v1_message_error \<Rightarrow> string" where
  "message_error_fmt D MalformedJson = ''malformed_json: invalid UTF-8 JSON or not a JSON object''"
| "message_error_fmt D (UnknownMessageType (Some t)) = ''unknown_message_type: '' @ str_debug D t"
| "message_error_fmt D (UnknownMessageType None) =
     ''unknown_message_type: missing or invalid `type` field''"
| "message_error_fmt D InvalidAttach = ''invalid_attach: attach payload failed semantic validation''"
| "message_error_fmt D (MessageTooLarge bytes limit) =
     ''message_too_large: text is '' @ dec_of_nat bytes @ '' bytes (limit '' @ dec_of_nat (unat limit) @ '')''"
| "message_error_fmt D (JsonBodyTooLarge bytes limit) =
     ''JSON body is '' @ dec_of_nat bytes @ '' bytes (max_frame_bytes limit ''
       @ dec_of_nat (unat limit) @ '')''"
| "message_error_fmt D (InvalidClientMessageId raw) =
     ''invalid_client_message_id: '' @ str_debug D raw @ '' is not a canonical UUID string''"

section \<open>Field validation and rendering\<close>

definition validate_u31_generic :: "u32 \<Rightarrow> guyos_wire_v1_message_error + unit" where
  "validate_u31_generic v = (if U31_MAX < v then Inl MalformedJson else Inr ())"

definition validate_text_len :: "string \<Rightarrow> u32 \<Rightarrow> guyos_wire_v1_message_error + unit" where
  "validate_text_len text max_message_bytes =
     (let bytes = length text; limit = unat max_message_bytes
      in if limit < bytes then Inl (MessageTooLarge bytes max_message_bytes) else Inr ())"

definition uuid_wire_string :: "'ts deps \<Rightarrow> uuid \<Rightarrow> string" where
  "uuid_wire_string D u = uuid_to_string D u"

definition seq_to_wire :: "u64 \<Rightarrow> string" where
  "seq_to_wire seq = u64_to_string seq"

definition format_rfc3339_ts :: "'ts deps \<Rightarrow> 'ts \<Rightarrow> guyos_wire_v1_message_error + string" where
  "format_rfc3339_ts D ts = ok_or MalformedJson (rfc3339_format D ts)"

definition parse_uuid_canonical :: "'ts deps \<Rightarrow> string \<Rightarrow> guyos_wire_v1_message_error + uuid" where
  "parse_uuid_canonical D raw =
     and_then (ok_or (InvalidClientMessageId raw) (uuid_parse_str D raw)) (\<lambda>u.
       if raw \<noteq> uuid_to_string D u then Inl (InvalidClientMessageId raw) else Inr u)"

text \<open>
  The byte loops of \<open>parse_seq_wire\<close>: any ASCII whitespace, then the first octet in \<open>1\<close> to
  \<open>9\<close>, then digits only.
\<close>

definition parse_seq_wire :: "string \<Rightarrow> guyos_wire_v1_message_error + u64" where
  "parse_seq_wire raw =
     (if raw = [] then Inl MalformedJson
      else if \<exists>c \<in> set raw. is_ascii_whitespace c then Inl MalformedJson
      else if raw = ''0'' then Inr 0
      else if char_code (hd raw) < char_code CHR ''1'' \<or> char_code CHR ''9'' < char_code (hd raw) then Inl MalformedJson
      else if \<exists>c \<in> set (tl raw). \<not> is_ascii_digit c then Inl MalformedJson
      else ok_or MalformedJson (u64_from_str raw))"

section \<open>Encoding\<close>

fun encode_to_value_with_limits ::
    "'ts deps \<Rightarrow> 'ts guyos_wire_v1_message \<Rightarrow> u32 \<Rightarrow> guyos_wire_v1_message_error + json" where
  "encode_to_value_with_limits D (MAttach a) max_message_bytes =
     and_then (map_err (\<lambda>_. InvalidAttach) (validate_attach_preamble a)) (\<lambda>_.
       Inr (JObject (Map.empty(
         ''type'' \<mapsto> JString ''attach'',
         ''protocol_major'' \<mapsto> JNumber (number_of_u32 (att_protocol_major a)),
         ''protocol_minor'' \<mapsto> JNumber (number_of_u32 (att_protocol_minor a)),
         ''ticket'' \<mapsto> JString (att_ticket a)))))"
| "encode_to_value_with_limits D (MAttachAck a) max_message_bytes =
     and_then (validate_u31_generic (ack_protocol_major a)) (\<lambda>_.
     and_then (validate_u31_generic (ack_server_protocol_minor a)) (\<lambda>_.
       let m = Map.empty(
         ''type'' \<mapsto> JString ''attach_ack'',
         ''room_id'' \<mapsto> JString (ack_room_id a),
         ''max_frame_bytes'' \<mapsto> JNumber (number_of_u32 (ack_max_frame_bytes a)),
         ''max_message_bytes'' \<mapsto> JNumber (number_of_u32 (ack_max_message_bytes a)),
         ''protocol_major'' \<mapsto> JNumber (number_of_u32 (ack_protocol_major a)),
         ''server_protocol_minor'' \<mapsto> JNumber (number_of_u32 (ack_server_protocol_minor a)))
       in case ack_keepalive_interval_seconds a of
            None \<Rightarrow> Inr (JObject m)
          | Some k \<Rightarrow>
              and_then (validate_u31_generic k) (\<lambda>_.
                Inr (JObject (m(''keepalive_interval_seconds'' \<mapsto> JNumber (number_of_u32 k)))))))"
| "encode_to_value_with_limits D (MPublish p) max_message_bytes =
     and_then (validate_text_len (pub_text p) max_message_bytes) (\<lambda>_.
       Inr (JObject (Map.empty(
         ''type'' \<mapsto> JString ''publish'',
         ''client_message_id'' \<mapsto> JString (uuid_wire_string D (pub_client_message_id p)),
         ''text'' \<mapsto> JString (pub_text p)))))"
| "encode_to_value_with_limits D (MPublishAck p) max_message_bytes =
     (let m = Map.empty(
        ''type'' \<mapsto> JString ''publish_ack'',
        ''client_message_id'' \<mapsto> JString (uuid_wire_string D (pa_client_message_id p)),
        ''seq'' \<mapsto> JString (seq_to_wire (pa_seq p)))
      in case pa_server_timestamp p of
           None \<Rightarrow> Inr (JObject m)
         | Some ts \<Rightarrow>
             and_then (format_rfc3339_ts D ts) (\<lambda>s.
               Inr (JObject (m(''server_timestamp'' \<mapsto> JString s)))))"
| "encode_to_value_with_limits D (MChatMessage c) max_message_bytes =
     and_then (validate_text_len (cm_text c) max_message_bytes) (\<lambda>_.
       let m = Map.empty(
             ''type'' \<mapsto> JString ''chat_message'',
             ''seq'' \<mapsto> JString (seq_to_wire (cm_seq c)),
             ''client_message_id'' \<mapsto> JString (uuid_wire_string D (cm_client_message_id c)),
             ''text'' \<mapsto> JString (cm_text c));
           m = (case cm_sender_endpoint_id c of
                  None \<Rightarrow> m
                | Some sid \<Rightarrow> m(''sender_endpoint_id'' \<mapsto> JString sid))
       in case cm_server_timestamp c of
            None \<Rightarrow> Inr (JObject m)
          | Some ts \<Rightarrow>
              and_then (format_rfc3339_ts D ts) (\<lambda>s.
                Inr (JObject (m(''server_timestamp'' \<mapsto> JString s)))))"
| "encode_to_value_with_limits D MDetach max_message_bytes =
     Inr (JObject (Map.empty(''type'' \<mapsto> JString ''detach'')))"
| "encode_to_value_with_limits D MKeepalive max_message_bytes =
     Inr (JObject (Map.empty(''type'' \<mapsto> JString ''keepalive'')))"
| "encode_to_value_with_limits D (MError e) max_message_bytes =
     (let err_obj = Map.empty(
            ''code'' \<mapsto> JString (err_code e),
            ''message'' \<mapsto> JString (err_message e));
          err_obj = (case err_details e of
                       None \<Rightarrow> err_obj
                     | Some d \<Rightarrow> err_obj(''details'' \<mapsto> JObject d))
      in Inr (JObject (Map.empty(
           ''type'' \<mapsto> JString ''error'',
           ''error'' \<mapsto> JObject err_obj))))"

definition encode_guyos_wire_v1_json_within_limits ::
    "'ts deps \<Rightarrow> 'ts guyos_wire_v1_message \<Rightarrow> u32 \<Rightarrow> u32 \<Rightarrow> guyos_wire_v1_message_error + string" where
  "encode_guyos_wire_v1_json_within_limits D msg max_frame_bytes max_message_bytes =
     and_then (encode_to_value_with_limits D msg max_message_bytes) (\<lambda>v.
     and_then (ok_or MalformedJson (serde_to_string D v)) (\<lambda>s.
       let limit = unat max_frame_bytes
       in if limit < length s then Inl (JsonBodyTooLarge (length s) max_frame_bytes) else Inr s))"

definition encode_guyos_wire_v1_json ::
    "'ts deps \<Rightarrow> 'ts guyos_wire_v1_message \<Rightarrow> guyos_wire_v1_message_error + string" where
  "encode_guyos_wire_v1_json D msg =
     encode_guyos_wire_v1_json_within_limits D msg MAX_FRAME_BYTES_ADR_V1
       (word_of_nat MAX_MESSAGE_BYTES_ADR_V1)"

section \<open>Decoding\<close>

definition require_seq :: "json_map \<Rightarrow> string \<Rightarrow> guyos_wire_v1_message_error + u64" where
  "require_seq m key = (case m key of Some (JString s) \<Rightarrow> parse_seq_wire s | _ \<Rightarrow> Inl MalformedJson)"

definition require_string :: "json_map \<Rightarrow> string \<Rightarrow> guyos_wire_v1_message_error + string" where
  "require_string m key = (case m key of Some (JString s) \<Rightarrow> Inr s | _ \<Rightarrow> Inl MalformedJson)"

definition require_u32 :: "json_map \<Rightarrow> string \<Rightarrow> guyos_wire_v1_message_error + u32" where
  "require_u32 m key = (case m key of
     Some (JNumber n) \<Rightarrow>
       and_then (ok_or MalformedJson (as_u64 n)) (\<lambda>v. ok_or MalformedJson (u32_try_from_u64 v))
   | _ \<Rightarrow> Inl MalformedJson)"

definition require_u31 :: "json_map \<Rightarrow> string \<Rightarrow> guyos_wire_v1_message_error + u32" where
  "require_u31 m key =
     and_then (require_u32 m key) (\<lambda>v. and_then (validate_u31_generic v) (\<lambda>_. Inr v))"

definition parse_optional_rfc3339 ::
    "'ts deps \<Rightarrow> json_map \<Rightarrow> string \<Rightarrow> guyos_wire_v1_message_error + 'ts option" where
  "parse_optional_rfc3339 D m key = (case m key of
     None \<Rightarrow> Inr None
   | Some JNull \<Rightarrow> Inr None
   | Some (JString s) \<Rightarrow> map_ok Some (ok_or MalformedJson (rfc3339_parse D s))
   | Some _ \<Rightarrow> Inl MalformedJson)"

definition decode_attach :: "json_map \<Rightarrow> guyos_wire_v1_message_error + 'ts guyos_wire_v1_message" where
  "decode_attach m = map_err (\<lambda>_. InvalidAttach) (map_ok MAttach (attach_from_decoded_map m))"

definition decode_attach_ack :: "json_map \<Rightarrow> guyos_wire_v1_message_error + 'ts guyos_wire_v1_message" where
  "decode_attach_ack m =
     and_then (require_string m ''room_id'') (\<lambda>room_id.
     and_then (require_u32 m ''max_frame_bytes'') (\<lambda>max_frame_bytes.
     and_then (require_u32 m ''max_message_bytes'') (\<lambda>max_message_bytes.
     and_then (require_u31 m ''protocol_major'') (\<lambda>protocol_major.
     and_then (require_u31 m ''server_protocol_minor'') (\<lambda>server_protocol_minor.
     and_then (case m ''keepalive_interval_seconds'' of
                 None \<Rightarrow> Inr None
               | Some JNull \<Rightarrow> Inr None
               | Some _ \<Rightarrow> map_ok Some (require_u31 m ''keepalive_interval_seconds''))
       (\<lambda>keepalive_interval_seconds.
       Inr (MAttachAck
         \<lparr>ack_room_id = room_id,
          ack_max_frame_bytes = max_frame_bytes,
          ack_max_message_bytes = max_message_bytes,
          ack_protocol_major = protocol_major,
          ack_server_protocol_minor = server_protocol_minor,
          ack_keepalive_interval_seconds = keepalive_interval_seconds\<rparr>)))))))"

definition decode_publish ::
    "'ts deps \<Rightarrow> json_map \<Rightarrow> guyos_wire_v1_message_error + 'ts guyos_wire_v1_message" where
  "decode_publish D m =
     and_then (require_string m ''client_message_id'') (\<lambda>raw_id.
     and_then (parse_uuid_canonical D raw_id) (\<lambda>client_message_id.
     and_then (require_string m ''text'') (\<lambda>text.
       Inr (MPublish \<lparr>pub_client_message_id = client_message_id, pub_text = text\<rparr>))))"

definition decode_publish_ack ::
    "'ts deps \<Rightarrow> json_map \<Rightarrow> guyos_wire_v1_message_error + 'ts guyos_wire_v1_message" where
  "decode_publish_ack D m =
     and_then (require_string m ''client_message_id'') (\<lambda>raw_id.
     and_then (parse_uuid_canonical D raw_id) (\<lambda>client_message_id.
     and_then (require_seq m ''seq'') (\<lambda>seq.
     and_then (parse_optional_rfc3339 D m ''server_timestamp'') (\<lambda>server_timestamp.
       Inr (MPublishAck
         \<lparr>pa_seq = seq,
          pa_client_message_id = client_message_id,
          pa_server_timestamp = server_timestamp\<rparr>)))))"

definition decode_chat_message ::
    "'ts deps \<Rightarrow> json_map \<Rightarrow> guyos_wire_v1_message_error + 'ts guyos_wire_v1_message" where
  "decode_chat_message D m =
     and_then (require_seq m ''seq'') (\<lambda>seq.
     and_then (require_string m ''client_message_id'') (\<lambda>raw_id.
     and_then (parse_uuid_canonical D raw_id) (\<lambda>client_message_id.
     and_then (require_string m ''text'') (\<lambda>text.
     and_then (case m ''sender_endpoint_id'' of
                 None \<Rightarrow> Inr None
               | Some JNull \<Rightarrow> Inr None
               | Some (JString s) \<Rightarrow> Inr (Some s)
               | Some _ \<Rightarrow> Inl MalformedJson) (\<lambda>sender_endpoint_id.
     and_then (parse_optional_rfc3339 D m ''server_timestamp'') (\<lambda>server_timestamp.
       Inr (MChatMessage
         \<lparr>cm_seq = seq,
          cm_client_message_id = client_message_id,
          cm_text = text,
          cm_sender_endpoint_id = sender_endpoint_id,
          cm_server_timestamp = server_timestamp\<rparr>)))))))"

definition decode_detach :: "json_map \<Rightarrow> guyos_wire_v1_message_error + 'ts guyos_wire_v1_message" where
  "decode_detach m = Inr MDetach"

definition decode_keepalive :: "json_map \<Rightarrow> guyos_wire_v1_message_error + 'ts guyos_wire_v1_message" where
  "decode_keepalive m = Inr MKeepalive"

definition decode_error_message ::
    "json_map \<Rightarrow> guyos_wire_v1_message_error + 'ts guyos_wire_v1_message" where
  "decode_error_message m =
     and_then (ok_or MalformedJson (m ''error'')) (\<lambda>err_val.
     and_then (case err_val of JObject obj \<Rightarrow> Inr obj | _ \<Rightarrow> Inl MalformedJson) (\<lambda>err_map.
     and_then (case err_map ''code'' of
                 Some (JString s) \<Rightarrow> Inr s
               | _ \<Rightarrow> Inl MalformedJson) (\<lambda>code.
     and_then (case err_map ''message'' of
                 Some (JString s) \<Rightarrow> Inr s
               | _ \<Rightarrow> Inl MalformedJson) (\<lambda>message.
     and_then (case err_map ''details'' of
                 None \<Rightarrow> Inr None
               | Some JNull \<Rightarrow> Inr None
               | Some (JObject obj) \<Rightarrow> Inr (Some obj)
               | Some _ \<Rightarrow> Inl MalformedJson) (\<lambda>details.
       Inr (MError \<lparr>err_code = code, err_message = message, err_details = details\<rparr>))))))"

text \<open>The \<open>match\<close> on the \<open>type\<close> string, and the whole decoder.\<close>

definition decode_by_type ::
    "'ts deps \<Rightarrow> json_map \<Rightarrow> string \<Rightarrow> guyos_wire_v1_message_error + 'ts guyos_wire_v1_message" where
  "decode_by_type D m t =
     (if t = ''attach'' then decode_attach m
      else if t = ''attach_ack'' then decode_attach_ack m
      else if t = ''publish'' then decode_publish D m
      else if t = ''publish_ack'' then decode_publish_ack D m
      else if t = ''chat_message'' then decode_chat_message D m
      else if t = ''detach'' then decode_detach m
      else if t = ''keepalive'' then decode_keepalive m
      else if t = ''error'' then decode_error_message m
      else Inl (UnknownMessageType (Some t)))"

definition decode_guyos_wire_v1_json ::
    "'ts deps \<Rightarrow> string \<Rightarrow> guyos_wire_v1_message_error + 'ts guyos_wire_v1_message" where
  "decode_guyos_wire_v1_json D text =
     and_then (ok_or MalformedJson (serde_from_str D text)) (\<lambda>value.
     and_then (case value of JObject m \<Rightarrow> Inr m | _ \<Rightarrow> Inl MalformedJson) (\<lambda>m.
       case m ''type'' of
         Some (JString t) \<Rightarrow> decode_by_type D m t
       | Some _ \<Rightarrow> Inl MalformedJson
       | None \<Rightarrow> Inl (UnknownMessageType None)))"

section \<open>Lemmas: fields\<close>

lemma validate_u31_generic_eq:
  "validate_u31_generic v = (if v \<le> U31_MAX then Inr () else Inl MalformedJson)"
  by (auto simp: validate_u31_generic_def not_le)

lemma validate_text_len_eq:
  "validate_text_len t n = (if length t \<le> unat n then Inr () else Inl (MessageTooLarge (length t) n))"
  by (auto simp: validate_text_len_def Let_def not_le)

lemma parse_uuid_canonical_Inr_iff:
  "parse_uuid_canonical D raw = Inr u \<longleftrightarrow> uuid_ok D u \<and> raw = uuid_to_string D u"
  by (auto simp: parse_uuid_canonical_def uuid_ok_def result_simps split: if_splits)

lemma parse_seq_wire_canonical:
  "parse_seq_wire raw = (if canonical_dec raw then ok_or MalformedJson (u64_from_str raw) else Inl MalformedJson)"
proof (cases raw)
  case Nil
  then show ?thesis by (simp add: parse_seq_wire_def canonical_dec_def)
next
  case (Cons c cs)
  have first: "(char_code c < char_code CHR ''1'' \<or> char_code CHR ''9'' < char_code c)
      \<longleftrightarrow> \<not> (is_ascii_digit c \<and> c \<noteq> CHR ''0'')"
    using code_inject [of c "CHR ''0''"] by (auto simp: is_ascii_digit_def)
  have zero: "u64_from_str ''0'' = Some 0"
    by (simp add: u64_from_str_def is_ascii_digit_def nat_of_dec_def digit_val_def)
  show ?thesis
  proof (cases "canonical_dec raw")
    case True
    then have d: "\<forall>x \<in> set raw. is_ascii_digit x" "raw = ''0'' \<or> c \<noteq> CHR ''0''"
      using Cons by (auto simp: canonical_dec_def)
    then have w: "\<not> (\<exists>x \<in> set raw. is_ascii_whitespace x)" using digit_not_whitespace by blast
    show ?thesis
    proof (cases "raw = ''0''")
      case True
      with w zero \<open>canonical_dec raw\<close> show ?thesis by (simp add: parse_seq_wire_def)
    next
      case False
      with d Cons have "\<not> (\<exists>x \<in> set (tl raw). \<not> is_ascii_digit x)" by simp
      moreover have "\<not> (char_code (hd raw) < char_code CHR ''1'' \<or> char_code CHR ''9'' < char_code (hd raw))"
        unfolding Cons list.sel first using d False Cons by auto
      ultimately show ?thesis
        using w False Cons \<open>canonical_dec raw\<close>
        by (simp only: parse_seq_wire_def if_False if_True list.distinct)
    qed
  next
    case False
    then have "raw \<noteq> ''0''" by (auto simp: canonical_dec_def is_ascii_digit_def)
    moreover have "(char_code (hd raw) < char_code CHR ''1'' \<or> char_code CHR ''9'' < char_code (hd raw))
        \<or> (\<exists>x \<in> set (tl raw). \<not> is_ascii_digit x)"
      unfolding Cons list.sel first using False Cons by (auto simp: canonical_dec_def)
    ultimately show ?thesis
      using False by (auto simp only: parse_seq_wire_def if_False if_True split: if_splits)
  qed
qed

lemma parse_seq_wire_Inr_iff: "parse_seq_wire raw = Inr n \<longleftrightarrow> raw = seq_to_wire n"
proof
  assume "parse_seq_wire raw = Inr n"
  then have "canonical_dec raw" "u64_from_str raw = Some n"
    by (auto simp: parse_seq_wire_canonical result_simps split: if_splits)
  then show "raw = seq_to_wire n" using u64_to_from_str by (simp add: seq_to_wire_def)
next
  assume "raw = seq_to_wire n"
  then show "parse_seq_wire raw = Inr n"
    by (simp add: parse_seq_wire_canonical seq_to_wire_def u64_from_to_string)
      (simp add: u64_to_string_def canonical_dec_of_nat)
qed

lemma require_string_Inr_iff: "require_string m key = Inr s \<longleftrightarrow> m key = Some (JString s)"
  by (auto simp: require_string_def split: option.splits json.splits)

lemma require_seq_Inr_iff: "require_seq m key = Inr n \<longleftrightarrow> m key = Some (JString (seq_to_wire n))"
  by (auto simp: require_seq_def parse_seq_wire_Inr_iff split: option.splits json.splits)

lemma require_u32_Inr_iff: "require_u32 m key = Inr v \<longleftrightarrow> m key = Some (JNumber (number_of_u32 v))"
proof
  assume "require_u32 m key = Inr v"
  then show "m key = Some (JNumber (number_of_u32 v))"
    by (auto simp: require_u32_def number_of_u32_def result_simps u32_try_from_u64_Some_iff
        split: option.splits json.splits elim!: as_u64.elims)
qed (simp add: require_u32_def number_of_u32_def)

lemma require_u31_Inr_iff:
  "require_u31 m key = Inr v \<longleftrightarrow> m key = Some (JNumber (number_of_u32 v)) \<and> v \<le> U31_MAX"
  by (auto simp: require_u31_def result_simps require_u32_Inr_iff validate_u31_generic_eq
      split: if_splits)

text \<open>The errors of the field readers.\<close>

lemma field_errs [errs_intros]:
  "MalformedJson \<in> E \<Longrightarrow> errs_in (validate_u31_generic v) E"
  "MalformedJson \<in> E \<Longrightarrow> errs_in (parse_seq_wire raw) E"
  "MalformedJson \<in> E \<Longrightarrow> errs_in (parse_optional_rfc3339 D m key) E"
  "InvalidClientMessageId raw \<in> E \<Longrightarrow> errs_in (parse_uuid_canonical D raw) E"
  unfolding validate_u31_generic_def parse_seq_wire_def parse_optional_rfc3339_def
    parse_uuid_canonical_def
  by (auto intro!: errs_intros split: option.split json.split)

lemma require_errs [errs_intros]:
  "MalformedJson \<in> E \<Longrightarrow> errs_in (require_string m key) E"
  "MalformedJson \<in> E \<Longrightarrow> errs_in (require_seq m key) E"
  "MalformedJson \<in> E \<Longrightarrow> errs_in (require_u32 m key) E"
  unfolding require_string_def require_seq_def require_u32_def
  by (auto intro!: errs_intros split: option.split json.split)

lemma require_u31_errs [errs_intros]: "MalformedJson \<in> E \<Longrightarrow> errs_in (require_u31 m key) E"
  unfolding require_u31_def by (auto intro!: errs_intros)

lemma decode_guyos_wire_v1_json_type:
  "serde_from_str D text = Some (JObject m) \<Longrightarrow> m ''type'' = Some (JString t)
     \<Longrightarrow> decode_guyos_wire_v1_json D text = decode_by_type D m t"
  by (simp add: decode_guyos_wire_v1_json_def)

end
