(* ===== verification/Codec_Correct.thy ===== *)
theory Codec_Correct
  imports Wire_Codec
begin

text \<open>
  Correctness of the wire v1 codec: what encoding accepts and bounds, the round trip of every
  message, which keys decoding looks at, and the closed set of decode errors.
\<close>

section \<open>Message types and the keys they use\<close>

fun message_type :: "'ts guyos_wire_v1_message \<Rightarrow> string" where
  "message_type (MAttach a) = ''attach''"
| "message_type (MAttachAck a) = ''attach_ack''"
| "message_type (MPublish p) = ''publish''"
| "message_type (MPublishAck p) = ''publish_ack''"
| "message_type (MChatMessage c) = ''chat_message''"
| "message_type MDetach = ''detach''"
| "message_type MKeepalive = ''keepalive''"
| "message_type (MError e) = ''error''"

definition known_keys :: "string list" where
  "known_keys = [''type'', ''protocol_major'', ''protocol_minor'', ''ticket'', ''room_id'',
     ''max_frame_bytes'', ''max_message_bytes'', ''server_protocol_minor'',
     ''keepalive_interval_seconds'', ''client_message_id'', ''text'', ''seq'',
     ''server_timestamp'', ''sender_endpoint_id'', ''error'']"

text \<open>Third-party text that parses back: the ids and timestamps a message carries.\<close>

fun message_ok :: "'ts deps \<Rightarrow> 'ts guyos_wire_v1_message \<Rightarrow> bool" where
  "message_ok D (MPublish p) \<longleftrightarrow> uuid_ok D (pub_client_message_id p)"
| "message_ok D (MPublishAck p) \<longleftrightarrow> uuid_ok D (pa_client_message_id p)
     \<and> (case pa_server_timestamp p of None \<Rightarrow> True | Some t \<Rightarrow> timestamp_ok D t)"
| "message_ok D (MChatMessage c) \<longleftrightarrow> uuid_ok D (cm_client_message_id c)
     \<and> (case cm_server_timestamp c of None \<Rightarrow> True | Some t \<Rightarrow> timestamp_ok D t)"
| "message_ok D _ \<longleftrightarrow> True"

text \<open>
  What the decoder promises of a message: numbers in the range the protocol allows, an id whose
  text is canonical.
\<close>

fun message_typed :: "'ts deps \<Rightarrow> 'ts guyos_wire_v1_message \<Rightarrow> bool" where
  "message_typed D (MAttach a) \<longleftrightarrow> attach_in_range a"
| "message_typed D (MAttachAck a) \<longleftrightarrow> ack_protocol_major a \<le> U31_MAX \<and> ack_server_protocol_minor a \<le> U31_MAX
     \<and> (case ack_keepalive_interval_seconds a of None \<Rightarrow> True | Some k \<Rightarrow> k \<le> U31_MAX)"
| "message_typed D (MPublish p) \<longleftrightarrow> uuid_ok D (pub_client_message_id p)"
| "message_typed D (MPublishAck p) \<longleftrightarrow> uuid_ok D (pa_client_message_id p)"
| "message_typed D (MChatMessage c) \<longleftrightarrow> uuid_ok D (cm_client_message_id c)"
| "message_typed D _ \<longleftrightarrow> True"

fun message_timestamp :: "'ts guyos_wire_v1_message \<Rightarrow> 'ts option" where
  "message_timestamp (MPublishAck p) = pa_server_timestamp p"
| "message_timestamp (MChatMessage c) = cm_server_timestamp c"
| "message_timestamp _ = None"

text \<open>The text a message is limited by, if it has one.\<close>

fun message_text :: "'ts guyos_wire_v1_message \<Rightarrow> string option" where
  "message_text (MPublish p) = Some (pub_text p)"
| "message_text (MChatMessage c) = Some (cm_text c)"
| "message_text _ = None"

section \<open>Lemmas\<close>

lemmas encode_simps = validate_attach_preamble_eq validate_u31_generic_eq validate_text_len_eq
  format_rfc3339_ts_def Let_def result_simps

lemmas decode_simps = decode_by_type_def decode_attach_def decode_attach_ack_def decode_publish_def
  decode_publish_ack_def decode_chat_message_def decode_detach_def decode_keepalive_def
  decode_error_message_def Let_def result_simps require_string_Inr_iff require_seq_Inr_iff
  require_u32_Inr_iff require_u31_Inr_iff parse_uuid_canonical_Inr_iff
  attach_from_decoded_map_Inr_iff

lemma parse_optional_rfc3339_simps:
  "m key = None \<Longrightarrow> parse_optional_rfc3339 D m key = Inr None"
  "m key = Some (JString s) \<Longrightarrow> rfc3339_parse D s = Some t \<Longrightarrow> parse_optional_rfc3339 D m key = Inr (Some t)"
  by (simp_all add: parse_optional_rfc3339_def)

lemma encode_decode_attach_ack:
  assumes "encode_to_value_with_limits D (MAttachAck a) lim = Inr v"
  shows "\<exists>m. v = JObject m \<and> m ''type'' = Some (JString ''attach_ack'')
    \<and> decode_by_type D m ''attach_ack'' = Inr (MAttachAck a)"
  using assms
  by (cases a; cases "ack_keepalive_interval_seconds a")
    (auto simp: encode_simps decode_simps split: if_splits)

lemma encode_decode_publish_ack:
  assumes "encode_to_value_with_limits D (MPublishAck p) lim = Inr v" and "message_ok D (MPublishAck p)"
  shows "\<exists>m. v = JObject m \<and> m ''type'' = Some (JString ''publish_ack'')
    \<and> decode_by_type D m ''publish_ack'' = Inr (MPublishAck p)"
  using assms
  by (cases p; cases "pa_server_timestamp p")
    (auto simp: encode_simps decode_simps uuid_wire_string_def parse_optional_rfc3339_simps timestamp_okD)

lemma encode_decode_chat_message:
  assumes "encode_to_value_with_limits D (MChatMessage c) lim = Inr v" and "message_ok D (MChatMessage c)"
  shows "\<exists>m. v = JObject m \<and> m ''type'' = Some (JString ''chat_message'')
    \<and> decode_by_type D m ''chat_message'' = Inr (MChatMessage c)"
  using assms
  by (cases c; cases "cm_server_timestamp c"; cases "cm_sender_endpoint_id c")
    (auto simp: encode_simps decode_simps uuid_wire_string_def parse_optional_rfc3339_simps
      timestamp_okD split: if_splits)

lemma encode_decode_error:
  assumes "encode_to_value_with_limits D (MError e) lim = Inr v"
  shows "\<exists>m. v = JObject m \<and> m ''type'' = Some (JString ''error'')
    \<and> decode_by_type D m ''error'' = Inr (MError e)"
  using assms
  by (cases e; cases "err_details e") (auto simp: encode_simps decode_simps)

lemma encode_decode_value:
  assumes "encode_to_value_with_limits D msg lim = Inr v" and "message_ok D msg"
  shows "\<exists>m. v = JObject m \<and> m ''type'' = Some (JString (message_type msg))
    \<and> decode_by_type D m (message_type msg) = Inr msg"
proof (cases msg)
  case (MAttach a)
  with assms show ?thesis
    by (cases a) (auto simp: encode_simps decode_simps split: if_splits)
next
  case (MPublish p)
  with assms show ?thesis
    by (cases p) (auto simp: encode_simps decode_simps uuid_wire_string_def split: if_splits)
next
  case (MAttachAck a)
  with assms encode_decode_attach_ack [of D a lim v] show ?thesis by simp
next
  case (MPublishAck p)
  with assms have "encode_to_value_with_limits D (MPublishAck p) lim = Inr v"
    "message_ok D (MPublishAck p)" by blast+
  from encode_decode_publish_ack [OF this] MPublishAck show ?thesis by simp
next
  case (MChatMessage c)
  with assms have "encode_to_value_with_limits D (MChatMessage c) lim = Inr v"
    "message_ok D (MChatMessage c)" by blast+
  from encode_decode_chat_message [OF this] MChatMessage show ?thesis by simp
next
  case (MError e)
  with assms have "encode_to_value_with_limits D (MError e) lim = Inr v" by blast
  from encode_decode_error [OF this] MError show ?thesis by simp
qed (use assms in \<open>auto simp: decode_simps\<close>)

lemma encode_within_limits_Inr_iff:
  "encode_guyos_wire_v1_json_within_limits D msg f l = Inr s \<longleftrightarrow>
     (\<exists>v. encode_to_value_with_limits D msg l = Inr v \<and> serde_to_string D v = Some s
        \<and> length s \<le> unat f)"
  by (auto simp: encode_guyos_wire_v1_json_within_limits_def and_then_def ok_or_def Let_def not_less
      split: sum.splits option.splits)

lemma encode_to_value_text:
  "encode_to_value_with_limits D msg l = Inr v \<Longrightarrow> message_text msg = Some t \<Longrightarrow> length t \<le> unat l"
  by (cases msg) (auto simp: encode_simps split: if_splits)

lemma decode_by_type_agree:
  assumes "\<And>k. k \<in> set known_keys \<Longrightarrow> m k = m' k"
  shows "decode_by_type D m t = decode_by_type D m' t"
proof -
  have "attach_from_decoded_map m = attach_from_decoded_map m'"
    by (simp add: attach_from_decoded_map_def require_attach_u31_def require_attach_string_def
        assms known_keys_def)
  then show ?thesis
    by (simp add: decode_by_type_def decode_attach_def decode_attach_ack_def decode_publish_def
        decode_publish_ack_def decode_chat_message_def decode_detach_def decode_keepalive_def
        decode_error_message_def require_string_def require_seq_def require_u31_def require_u32_def
        parse_optional_rfc3339_def assms known_keys_def cong: option.case_cong json.case_cong)
qed

lemma decode_by_type_message_type:
  "decode_by_type D m t = Inr msg \<Longrightarrow> message_type msg = t"
  by (auto simp: decode_simps split: if_splits)

lemma decode_object:
  assumes "decode_guyos_wire_v1_json D t = Inr msg"
  obtains m where "serde_from_str D t = Some (JObject m)"
    "m ''type'' = Some (JString (message_type msg))"
    "decode_by_type D m (message_type msg) = Inr msg"
proof -
  from assms obtain v where v: "serde_from_str D t = Some v"
    by (cases "serde_from_str D t") (auto simp: decode_guyos_wire_v1_json_def)
  with assms obtain m where m: "v = JObject m"
    by (cases v) (auto simp: decode_guyos_wire_v1_json_def)
  with assms v obtain w where w: "m ''type'' = Some w"
    by (cases "m ''type''") (auto simp: decode_guyos_wire_v1_json_def)
  with assms v m obtain s where s: "w = JString s" "decode_by_type D m s = Inr msg"
    by (cases w) (auto simp: decode_guyos_wire_v1_json_def)
  then have "message_type msg = s" by (intro decode_by_type_message_type)
  with that v m w s show ?thesis by blast
qed

text \<open>The errors each decoder can end in.\<close>

lemma decode_attach_ack_errs: "errs_in (decode_attach_ack m) {MalformedJson}"
  unfolding decode_attach_ack_def by (auto intro!: errs_intros split: option.split json.split)

lemma decode_error_message_errs: "errs_in (decode_error_message m) {MalformedJson}"
  unfolding decode_error_message_def by (auto intro!: errs_intros split: option.split json.split)

lemma decode_publish_errs: "errs_in (decode_publish D m) ({MalformedJson} \<union> range InvalidClientMessageId)"
  unfolding decode_publish_def by (auto intro!: errs_intros)

lemma decode_publish_ack_errs:
  "errs_in (decode_publish_ack D m) ({MalformedJson} \<union> range InvalidClientMessageId)"
  unfolding decode_publish_ack_def by (auto intro!: errs_intros)

lemma decode_chat_message_errs:
  "errs_in (decode_chat_message D m) ({MalformedJson} \<union> range InvalidClientMessageId)"
  unfolding decode_chat_message_def by (auto intro!: errs_intros split: option.split json.split)

lemma decode_attach_errs: "errs_in (decode_attach m) {InvalidAttach}"
  unfolding decode_attach_def by (auto intro!: errs_intros)

definition message_types :: "string list" where
  "message_types = [''attach'', ''attach_ack'', ''publish'', ''publish_ack'', ''chat_message'',
     ''detach'', ''keepalive'', ''error'']"

lemma decode_by_type_Inl:
  assumes "decode_by_type D m t = Inl e"
  shows "(e = MalformedJson \<or> (\<exists>raw. e = InvalidClientMessageId raw)) \<and> t \<in> set message_types \<and> t \<noteq> ''attach''
    \<or> e = InvalidAttach \<and> t = ''attach''
    \<or> e = UnknownMessageType (Some t) \<and> t \<notin> set message_types"
  using assms
  by (auto simp: decode_by_type_def message_types_def decode_detach_def decode_keepalive_def
      dest!: errs_inD [OF decode_attach_ack_errs] errs_inD [OF decode_error_message_errs]
        errs_inD [OF decode_publish_errs] errs_inD [OF decode_publish_ack_errs]
        errs_inD [OF decode_chat_message_errs] errs_inD [OF decode_attach_errs]
      split: if_splits)

lemma decode_by_type_unknown:
  "t \<notin> set message_types \<Longrightarrow> decode_by_type D m t = Inl (UnknownMessageType (Some t))"
  by (simp add: decode_by_type_def message_types_def)

lemma encode_then_decode:
  assumes "encode_guyos_wire_v1_json_within_limits D msg f l = Inr s"
    and "message_ok D msg"
    and "\<And>v. serde_to_string D v = Some s \<Longrightarrow> serde_from_str D s = Some v"
  shows "decode_guyos_wire_v1_json D s = Inr msg"
proof -
  from assms(1) obtain v where v: "encode_to_value_with_limits D msg l = Inr v"
      "serde_to_string D v = Some s"
    by (auto simp: encode_within_limits_Inr_iff)
  with assms(2) obtain m where m: "v = JObject m" "m ''type'' = Some (JString (message_type msg))"
      "decode_by_type D m (message_type msg) = Inr msg"
    using encode_decode_value by blast
  have "serde_from_str D s = Some (JObject m)" using assms(3) v(2) m(1) by simp
  then show ?thesis using m decode_guyos_wire_v1_json_type by metis
qed

lemma decode_attach_ack_typed: "decode_attach_ack m = Inr msg \<Longrightarrow> message_typed D msg"
  by (cases "m ''keepalive_interval_seconds''"; cases "the (m ''keepalive_interval_seconds'')")
    (auto simp: decode_attach_ack_def result_simps require_u31_Inr_iff)

lemma decode_attach_typed: "decode_attach m = Inr msg \<Longrightarrow> message_typed D msg"
  by (auto simp: decode_attach_def result_simps attach_from_decoded_map_Inr_iff)

lemma decode_publish_typed: "decode_publish D m = Inr msg \<Longrightarrow> message_typed D msg"
  by (auto simp: decode_publish_def result_simps parse_uuid_canonical_Inr_iff)

lemma decode_publish_ack_typed: "decode_publish_ack D m = Inr msg \<Longrightarrow> message_typed D msg"
  by (auto simp: decode_publish_ack_def result_simps parse_uuid_canonical_Inr_iff)

lemma decode_chat_message_typed: "decode_chat_message D m = Inr msg \<Longrightarrow> message_typed D msg"
  by (auto simp: decode_chat_message_def result_simps parse_uuid_canonical_Inr_iff)

lemma decode_error_message_typed: "decode_error_message m = Inr msg \<Longrightarrow> message_typed D msg"
  by (auto simp: decode_error_message_def result_simps)

lemma decode_by_type_typed: "decode_by_type D m t = Inr msg \<Longrightarrow> message_typed D msg"
  by (auto simp: decode_by_type_def decode_detach_def decode_keepalive_def split: if_splits
      dest: decode_attach_typed decode_attach_ack_typed decode_publish_typed decode_publish_ack_typed
        decode_chat_message_typed decode_error_message_typed)

lemma encode_typed_Inl:
  assumes "message_typed D msg" and "encode_to_value_with_limits D msg lim = Inl e"
  shows "(\<exists>s. message_text msg = Some s \<and> unat lim < length s \<and> e = MessageTooLarge (length s) lim)
    \<or> (\<exists>ts. message_timestamp msg = Some ts \<and> rfc3339_format D ts = None \<and> e = MalformedJson)"
proof (cases msg)
  case (MAttachAck a)
  with assms show ?thesis
    by (cases "ack_keepalive_interval_seconds a") (auto simp: encode_simps split: if_splits)
next
  case (MPublishAck p)
  with assms show ?thesis by (cases "pa_server_timestamp p") (auto simp: encode_simps)
next
  case (MChatMessage c)
  with assms show ?thesis
    by (cases "cm_server_timestamp c") (auto simp: encode_simps not_le split: if_splits)
qed (use assms in \<open>auto simp: encode_simps not_le split: if_splits\<close>)

section \<open>A concrete instance of the third-party operations\<close>

text \<open>
  One JSON document \<open>doc\<close> standing for one value, decimal UUID text and no timestamps: it meets
  the hypotheses of the round trip at that document.
\<close>

definition one_doc_deps :: "string \<Rightarrow> json \<Rightarrow> unit deps" where
  "one_doc_deps doc v = \<lparr>
     serde_from_str = (\<lambda>s. if s = doc then Some v else None),
     serde_to_string = (\<lambda>w. if w = v then Some doc else None),
     uuid_parse_str = (\<lambda>s. if canonical_dec s then Some (word_of_nat (nat_of_dec s)) else None),
     uuid_to_string = (\<lambda>u. dec_of_nat (unat u)),
     rfc3339_format = (\<lambda>_. None),
     rfc3339_parse = (\<lambda>_. None),
     str_debug = id\<rparr>"

lemma one_doc_uuid_ok: "uuid_ok (one_doc_deps doc v) u"
  by (simp add: uuid_ok_def one_doc_deps_def canonical_dec_of_nat)

definition hi_publish :: publish where
  "hi_publish = \<lparr>pub_client_message_id = 5, pub_text = ''hi''\<rparr>"

definition hi_value :: json where
  "hi_value = JObject [''type'' \<mapsto> JString ''publish'', ''client_message_id'' \<mapsto> JString ''5'',
     ''text'' \<mapsto> JString ''hi'']"

abbreviation "hi_deps \<equiv> one_doc_deps ''{publish 5 hi}'' hi_value"

lemma dec_of_nat_5: "dec_of_nat 5 = ''5''"
proof -
  have "digit_char 5 = CHR ''5''"
    by (rule code_inject [THEN iffD1]) simp
  then show ?thesis by (simp add: dec_of_nat.simps)
qed

lemma hi_encodes: "encode_to_value_with_limits hi_deps (MPublish hi_publish) 16 = Inr hi_value"
  by (simp add: hi_publish_def hi_value_def validate_text_len_eq uuid_wire_string_def dec_of_nat_5)
    (simp add: one_doc_deps_def dec_of_nat_5)

lemma hi_encodes_text:
  "encode_guyos_wire_v1_json_within_limits hi_deps (MPublish hi_publish) 64 16 = Inr ''{publish 5 hi}''"
  by (simp only: encode_within_limits_Inr_iff hi_encodes) (simp add: one_doc_deps_def)

section \<open>Properties\<close>

text \<open>
  C8: Round trip: whatever the encoder writes, under any limits, decodes to the message it
  was given, for messages whose ids and timestamps have text that parses back, when the JSON
  library reads back the value it wrote.
\<close>

theorem codec_roundtrip:
  assumes "encode_guyos_wire_v1_json_within_limits D msg f l = Inr s"
    and "message_ok D msg"
    and "\<And>v. serde_to_string D v = Some s \<Longrightarrow> serde_from_str D s = Some v"
  shows "decode_guyos_wire_v1_json D s = Inr msg"
  using assms by (rule encode_then_decode)

theorem codec_roundtrip_witness:
  "decode_guyos_wire_v1_json hi_deps ''{publish 5 hi}'' = Inr (MPublish hi_publish)"
  by (rule codec_roundtrip [OF hi_encodes_text])
    (simp_all add: one_doc_uuid_ok, simp add: one_doc_deps_def split: if_splits)

text \<open>
  Outbound limits: an encoded body is at most \<open>max_frame_bytes\<close> octets, and the text of a
  \<open>publish\<close> or \<open>chat_message\<close> in it at most \<open>max_message_bytes\<close>.
\<close>

lemma encode_respects_limits:
  assumes "encode_guyos_wire_v1_json_within_limits D msg max_frame_bytes max_message_bytes = Inr s"
  shows "length s \<le> unat max_frame_bytes
    \<and> (case message_text msg of None \<Rightarrow> True | Some t \<Rightarrow> length t \<le> unat max_message_bytes)"
  using assms encode_to_value_text
  by (auto simp: encode_within_limits_Inr_iff split: option.splits)

text \<open>
  Why encoding to a value fails, exactly: oversized text, an attach outside the u31 range,
  or an acknowledgement outside it or a timestamp RFC 3339 cannot express.
\<close>

lemma encode_value_errors:
  "encode_to_value_with_limits D msg lim = Inl e \<longleftrightarrow>
     (case msg of
        MAttach a \<Rightarrow> \<not> (att_protocol_major a \<le> U31_MAX \<and> att_protocol_minor a \<le> U31_MAX) \<and> e = InvalidAttach
      | MAttachAck a \<Rightarrow> e = MalformedJson \<and>
          \<not> (ack_protocol_major a \<le> U31_MAX \<and> ack_server_protocol_minor a \<le> U31_MAX
             \<and> (case ack_keepalive_interval_seconds a of None \<Rightarrow> True | Some k \<Rightarrow> k \<le> U31_MAX))
      | MPublish p \<Rightarrow> unat lim < length (pub_text p) \<and> e = MessageTooLarge (length (pub_text p)) lim
      | MPublishAck p \<Rightarrow> e = MalformedJson
          \<and> (\<exists>t. pa_server_timestamp p = Some t \<and> rfc3339_format D t = None)
      | MChatMessage c \<Rightarrow>
          if unat lim < length (cm_text c) then e = MessageTooLarge (length (cm_text c)) lim
          else e = MalformedJson \<and> (\<exists>t. cm_server_timestamp c = Some t \<and> rfc3339_format D t = None)
      | MDetach \<Rightarrow> False
      | MKeepalive \<Rightarrow> False
      | MError err \<Rightarrow> False)"
proof (cases msg)
  case (MAttachAck a)
  then show ?thesis
    by (cases "ack_keepalive_interval_seconds a") (auto simp: encode_simps split: if_splits)
next
  case (MPublishAck p)
  then show ?thesis
    by (cases "pa_server_timestamp p") (auto simp: encode_simps)
next
  case (MChatMessage c)
  then show ?thesis
    by (cases "cm_server_timestamp c") (auto simp: encode_simps split: if_splits)
qed (auto simp: encode_simps attach_in_range_def split: if_splits)

text \<open>
  Unknown keys are ignored: two objects that agree on the keys of the protocol decode to
  the same result, whatever else they carry.
\<close>

lemma decode_ignores_unknown_keys:
  assumes "serde_from_str D t = Some (JObject m)" and "serde_from_str D t' = Some (JObject m')"
    and "\<And>k. k \<in> set known_keys \<Longrightarrow> m k = m' k"
  shows "decode_guyos_wire_v1_json D t = decode_guyos_wire_v1_json D t'"
proof -
  have "m ''type'' = m' ''type''" by (rule assms(3)) (simp add: known_keys_def)
  moreover have "decode_by_type D m = (decode_by_type D m' :: string \<Rightarrow> _)"
    by (rule ext) (rule decode_by_type_agree [OF assms(3)])
  ultimately show ?thesis
    using assms(1,2)
    by (simp add: decode_guyos_wire_v1_json_def cong: option.case_cong json.case_cong)
qed

text \<open>
  Sequence numbers on the wire: exactly the decimal text of a 64-bit number is accepted,
  and it decodes to that number. No sign, leading zero, whitespace or overflow gets through.
\<close>

lemma parse_seq_wire_exactly: "parse_seq_wire raw = Inr n \<longleftrightarrow> raw = dec_of_nat (unat n)"
  by (simp add: parse_seq_wire_Inr_iff seq_to_wire_def u64_to_string_def)

text \<open>
  A \<open>publish\<close> is decoded exactly from an object whose \<open>type\<close> is \<open>publish\<close>, whose
  \<open>client_message_id\<close> is the canonical text of a UUID and whose \<open>text\<close> is a string; no limit
  on the text applies here.
\<close>

lemma decode_publish_exactly:
  "decode_guyos_wire_v1_json D t = Inr (MPublish p) \<longleftrightarrow>
     (\<exists>m. serde_from_str D t = Some (JObject m)
        \<and> m ''type'' = Some (JString ''publish'')
        \<and> m ''client_message_id'' = Some (JString (uuid_to_string D (pub_client_message_id p)))
        \<and> uuid_parse_str D (uuid_to_string D (pub_client_message_id p)) = Some (pub_client_message_id p)
        \<and> m ''text'' = Some (JString (pub_text p)))"
  (is "?decoded = ?object")
proof
  assume ?decoded
  then obtain m where m: "serde_from_str D t = Some (JObject m)"
      "m ''type'' = Some (JString ''publish'')" "decode_by_type D m ''publish'' = Inr (MPublish p)"
    by (rule decode_object) simp
  from m(3) have "decode_publish D m = Inr (MPublish p)" by (simp add: decode_by_type_def)
  then show ?object
    using m(1,2)
    by (auto simp: decode_publish_def result_simps require_string_Inr_iff
        parse_uuid_canonical_Inr_iff uuid_ok_def)
next
  assume ?object
  then obtain m where m: "serde_from_str D t = Some (JObject m)" "m ''type'' = Some (JString ''publish'')"
      "m ''client_message_id'' = Some (JString (uuid_to_string D (pub_client_message_id p)))"
      "uuid_ok D (pub_client_message_id p)" "m ''text'' = Some (JString (pub_text p))"
    by (auto simp: uuid_ok_def)
  then have "decode_publish D m = Inr (MPublish p)"
    by (cases p) (auto simp: decode_publish_def result_simps require_string_Inr_iff
        parse_uuid_canonical_Inr_iff)
  with m(1,2) show ?decoded
    by (simp add: decode_guyos_wire_v1_json_type decode_by_type_def)
qed

text \<open>
  The decoder answers \<open>unknown_message_type\<close> exactly for an object without \<open>type\<close> or with
  a string that is no v1 type. A \<open>type\<close> that is not a string is \<open>malformed_json\<close> instead.
\<close>

lemma decode_unknown_type_exactly:
  "(decode_guyos_wire_v1_json D t = Inl (UnknownMessageType tf) \<longleftrightarrow>
     (\<exists>m. serde_from_str D t = Some (JObject m)
        \<and> (case tf of None \<Rightarrow> m ''type'' = None
           | Some s \<Rightarrow> m ''type'' = Some (JString s) \<and> s \<notin> set message_types)))
 \<and> (\<forall>m v. serde_from_str D t = Some (JObject m) \<and> m ''type'' = Some v \<and> (\<forall>s. v \<noteq> JString s)
       \<longrightarrow> decode_guyos_wire_v1_json D t = Inl MalformedJson)"
proof (cases "\<exists>m. serde_from_str D t = Some (JObject m)")
  case True
  then obtain m where m: "serde_from_str D t = Some (JObject m)" by blast
  then have eq: "decode_guyos_wire_v1_json D t = (case m ''type'' of
      Some (JString s) \<Rightarrow> decode_by_type D m s | Some _ \<Rightarrow> Inl MalformedJson
    | None \<Rightarrow> Inl (UnknownMessageType None))"
    by (simp add: decode_guyos_wire_v1_json_def)
  show ?thesis
  proof (cases "m ''type''")
    case None
    with m eq show ?thesis by (auto split: option.splits)
  next
    case (Some w)
    show ?thesis
    proof (cases w)
      case (JString s)
      with Some eq have "decode_guyos_wire_v1_json D t = decode_by_type D m s" by simp
      with m Some JString show ?thesis
        by (auto dest: decode_by_type_Inl simp: decode_by_type_unknown split: option.splits)
    qed (use m eq Some in \<open>auto split: option.splits\<close>)
  qed
next
  case False
  then have "decode_guyos_wire_v1_json D t = Inl MalformedJson"
    by (auto simp: decode_guyos_wire_v1_json_def and_then_def ok_or_def split: option.splits json.splits)
  with False show ?thesis by (auto split: option.splits)
qed



text \<open>
  C32: Decoding yields typed messages: every version and interval it returns is in the u31 range
  and every id has canonical text, so that a program that passes a decoded message on can encode
  it again unless its text exceeds the limit it then applies, or its timestamp cannot be written.
\<close>

theorem decoded_messages_typed:
  assumes "decode_guyos_wire_v1_json D t = Inr msg"
  shows "message_typed D msg
    \<and> (\<forall>e. encode_to_value_with_limits D msg lim = Inl e \<longrightarrow>
         (\<exists>s. message_text msg = Some s \<and> unat lim < length s \<and> e = MessageTooLarge (length s) lim)
       \<or> (\<exists>ts. message_timestamp msg = Some ts \<and> rfc3339_format D ts = None \<and> e = MalformedJson))"
proof -
  from assms obtain m where "decode_by_type D m (message_type msg) = Inr msg" by (rule decode_object)
  then have typed: "message_typed D msg" by (rule decode_by_type_typed)
  with encode_typed_Inl [OF typed] show ?thesis by blast
qed

theorem decoded_messages_typed_witness:
  "message_typed hi_deps (MPublish hi_publish)
   \<and> encode_to_value_with_limits hi_deps (MPublish hi_publish) 1 = Inl (MessageTooLarge 2 1)"
proof -
  have "decode_guyos_wire_v1_json hi_deps ''{publish 5 hi}'' = Inr (MPublish hi_publish)"
    by (rule encode_then_decode [OF hi_encodes_text])
      (simp_all add: one_doc_uuid_ok, simp add: one_doc_deps_def split: if_splits)
  from decoded_messages_typed [OF this, of 1] show ?thesis
    by (simp add: hi_publish_def encode_simps)
qed

end
