(* ===== verification/Publish_Ledger.thy ===== *)
theory Publish_Ledger
  imports Prelude
begin

text \<open>
  Per-room publish sequencing and deduplication
  (\<^verbatim>\<open>guyos_core/src/domain/guyos_wire_publish.rs\<close>). The ledger interface of the code, the
  trait \<open>RoomPublishLedger\<close>, is the locale \<open>room_publish_ledger\<close>: what dispatch relies on is a
  simulation with an append-only list of accepted ids per room, whose positions are the
  sequence numbers. The in-memory \<open>RoomPublishState\<close> interprets it. The one panic of the code
  (the counter at \<open>u64::MAX\<close>) is the result \<^const>\<open>None\<close>.
\<close>

section \<open>Data and operation\<close>

datatype publish_decision = FirstAcceptance u64 | IdempotentReplay u64

fun decision_seq :: "publish_decision \<Rightarrow> u64" where
  "decision_seq (FirstAcceptance seq) = seq"
| "decision_seq (IdempotentReplay seq) = seq"

record room_shard =
  next_seq :: u64
  by_client_id :: "uuid \<rightharpoonup> u64"

definition room_shard_default :: room_shard where
  "room_shard_default = \<lparr>next_seq = 0, by_client_id = Map.empty\<rparr>"

record room_publish_state =
  rooms :: "string \<rightharpoonup> room_shard"

definition room_publish_state_default :: room_publish_state where
  "room_publish_state_default = \<lparr>rooms = Map.empty\<rparr>"

definition checked_add_u64 :: "u64 \<Rightarrow> u64 \<Rightarrow> u64 option" where
  "checked_add_u64 a b = (if unat a + unat b < 2 ^ 64 then Some (a + b) else None)"

definition accept_or_replay ::
    "room_publish_state \<Rightarrow> string \<Rightarrow> uuid \<Rightarrow> (publish_decision \<times> room_publish_state) option" where
  "accept_or_replay st room_id client_message_id =
     (let shard = (case rooms st room_id of None \<Rightarrow> room_shard_default | Some sh \<Rightarrow> sh);
          st = st\<lparr>rooms := (rooms st)(room_id \<mapsto> shard)\<rparr>
      in case by_client_id shard client_message_id of
           Some seq \<Rightarrow> Some (IdempotentReplay seq, st)
         | None \<Rightarrow>
             let seq = next_seq shard
             in case checked_add_u64 seq 1 of
                  None \<Rightarrow> None
                | Some n \<Rightarrow>
                    let shard = shard\<lparr>next_seq := n,
                          by_client_id := (by_client_id shard)(client_message_id \<mapsto> seq)\<rparr>
                    in Some (FirstAcceptance seq, st\<lparr>rooms := (rooms st)(room_id \<mapsto> shard)\<rparr>))"

section \<open>Abstract specification\<close>

text \<open>
  A room is the list of the ids it accepted, in order; the sequence number of an id is its
  position. A counter of 64 bits can number \<open>2 ^ 64 - 1\<close> of them before the addition overflows.
\<close>

definition spec_accept :: "uuid list \<Rightarrow> uuid \<Rightarrow> (publish_decision \<times> uuid list) option" where
  "spec_accept ids u =
     (if u \<in> set ids then Some (IdempotentReplay (word_of_nat (index_of u ids)), ids)
      else if length ids < 2 ^ 64 - 1
           then Some (FirstAcceptance (word_of_nat (length ids)), ids @ [u])
           else None)"

definition room_ids_ok :: "uuid list \<Rightarrow> bool" where
  "room_ids_ok ids \<longleftrightarrow> distinct ids \<and> length ids < 2 ^ 64"

lemma room_ids_ok_spec_accept:
  "room_ids_ok ids \<Longrightarrow> spec_accept ids u = Some (d, ids') \<Longrightarrow> room_ids_ok ids'"
  by (auto simp: room_ids_ok_def spec_accept_def split: if_splits)

text \<open>Requests in the order the hub handles them, against any ledger operation.\<close>

fun run_publishes ::
    "('l \<Rightarrow> string \<Rightarrow> uuid \<Rightarrow> (publish_decision \<times> 'l) option) \<Rightarrow> 'l \<Rightarrow> (string \<times> uuid) list
     \<Rightarrow> (publish_decision list \<times> 'l) option" where
  "run_publishes accept l [] = Some ([], l)"
| "run_publishes accept l ((r, u) # ps) =
     (case accept l r u of
        None \<Rightarrow> None
      | Some (d, l') \<Rightarrow>
          (case run_publishes accept l' ps of
             None \<Rightarrow> None
           | Some (ds, l'') \<Rightarrow> Some (d # ds, l'')))"

text \<open>The ids a room has accepted after a list of requests.\<close>

fun room_log :: "uuid list \<Rightarrow> string \<Rightarrow> (string \<times> uuid) list \<Rightarrow> uuid list" where
  "room_log ids r [] = ids"
| "room_log ids r ((r', u) # ps) =
     room_log (if r' = r \<and> u \<notin> set ids then ids @ [u] else ids) r ps"

lemma room_log_append: "room_log ids r (ps @ qs) = room_log (room_log ids r ps) r qs"
  by (induction ids r ps rule: room_log.induct) auto

lemma room_log_prefix: "\<exists>zs. room_log ids r ps = ids @ zs"
proof (induction ids r ps rule: room_log.induct)
  case (2 ids r r' u ps)
  then obtain zs where "room_log ids r ((r', u) # ps)
      = (if r' = r \<and> u \<notin> set ids then ids @ [u] else ids) @ zs" by auto
  then show ?case by (cases "r' = r \<and> u \<notin> set ids") auto
qed simp

lemma room_log_mono: "set ids \<subseteq> set (room_log ids r ps)"
  using room_log_prefix [of ids r ps] by auto

lemma room_log_distinct: "distinct ids \<Longrightarrow> distinct (room_log ids r ps)"
  by (induction ids r ps rule: room_log.induct) auto

lemma room_log_member: "(r, u) \<in> set ps \<Longrightarrow> u \<in> set (room_log ids r ps)"
proof (induction ids r ps rule: room_log.induct)
  case (2 ids r r' v ps)
  let ?ids' = "if r' = r \<and> v \<notin> set ids then ids @ [v] else ids"
  show ?case
  proof (cases "(r, u) = (r', v)")
    case True
    then have "u \<in> set ?ids'" by simp
    then show ?thesis using room_log_mono [of ?ids' r ps] by auto
  qed (use 2 in auto)
qed simp

lemma room_log_length: "length (room_log ids r ps) \<le> length ids + length ps"
proof (induction ids r ps rule: room_log.induct)
  case (2 ids r r' u ps)
  then show ?case by (auto split: if_splits)
qed simp

lemma index_of_room_log:
  "u \<in> set ids \<Longrightarrow> index_of u (room_log ids r ps) = index_of u ids"
  using room_log_prefix [of ids r ps] by (auto simp: index_of_append)

text \<open>The sequence numbers a run hands out for the first time in one room, in order.\<close>

fun is_first :: "publish_decision \<Rightarrow> bool" where
  "is_first (FirstAcceptance seq) = True"
| "is_first (IdempotentReplay seq) = False"

definition room_decisions :: "string \<Rightarrow> (string \<times> uuid) list \<Rightarrow> publish_decision list \<Rightarrow> publish_decision list" where
  "room_decisions r ps ds = map snd (filter (\<lambda>(p, d). fst p = r) (zip ps ds))"

definition first_seqs :: "string \<Rightarrow> (string \<times> uuid) list \<Rightarrow> publish_decision list \<Rightarrow> u64 list" where
  "first_seqs r ps ds = map decision_seq (filter is_first (room_decisions r ps ds))"

lemma room_decisions_Cons:
  "room_decisions r (p # ps) (d # ds)
     = (if fst p = r then d # room_decisions r ps ds else room_decisions r ps ds)"
  by (simp add: room_decisions_def)

section \<open>The interface\<close>

locale room_publish_ledger =
  fixes accept :: "'l \<Rightarrow> string \<Rightarrow> uuid \<Rightarrow> (publish_decision \<times> 'l) option"
    and rel :: "'l \<Rightarrow> (string \<Rightarrow> uuid list) \<Rightarrow> bool"
    and empty_ledger :: 'l
  assumes rel_empty: "rel empty_ledger (\<lambda>_. [])"
    and rel_ok: "rel l L \<Longrightarrow> room_ids_ok (L r)"
    and rel_accept: "rel l L \<Longrightarrow> spec_accept (L r) u = Some (d, ids)
          \<Longrightarrow> \<exists>l'. accept l r u = Some (d, l') \<and> rel l' (L(r := ids))"
    and rel_panic: "rel l L \<Longrightarrow> spec_accept (L r) u = None \<Longrightarrow> accept l r u = None"
begin

lemma accept_cases:
  assumes "rel l L" and "accept l r u = Some (d, l')"
  obtains (replay) "u \<in> set (L r)" "d = IdempotentReplay (word_of_nat (index_of u (L r)))" "rel l' L"
  | (first) "u \<notin> set (L r)" "d = FirstAcceptance (word_of_nat (length (L r)))"
      "length (L r) < 2 ^ 64 - 1" "rel l' (L(r := L r @ [u]))"
proof (cases "spec_accept (L r) u")
  case None
  with assms show ?thesis using rel_panic by fastforce
next
  case (Some p)
  obtain d' ids where p: "p = (d', ids)" by (cases p)
  with Some assms have eq: "d = d'" and "rel l' (L(r := ids))"
    using rel_accept [of l L r u d' ids] by auto
  with Some p show ?thesis
    by (auto simp: spec_accept_def intro: that split: if_splits)
qed

text \<open>A run answers each request from the log of the requests before it.\<close>

lemma run_publishes_log:
  assumes "rel l L" and "run_publishes accept l ps = Some (ds, l')"
  shows "rel l' (\<lambda>r. room_log (L r) r ps) \<and> length ds = length ps
    \<and> (\<forall>i < length ps. \<forall>r u. ps ! i = (r, u) \<longrightarrow>
         (let ids = room_log (L r) r (take i ps) in
          length ids < 2 ^ 64 \<and>
          ds ! i = (if u \<in> set ids then IdempotentReplay (word_of_nat (index_of u ids))
                    else FirstAcceptance (word_of_nat (length ids)))))"
  using assms
proof (induction ps arbitrary: l L ds)
  case (Cons p ps)
  obtain r u where p: "p = (r, u)" by (cases p)
  with Cons.prems obtain d m ds' where step: "accept l r u = Some (d, m)"
      "run_publishes accept m ps = Some (ds', l')" "ds = d # ds'"
    by (auto split: option.splits)
  define L' where "L' = L(r := if u \<in> set (L r) then L r else L r @ [u])"
  have m: "rel m L'" and d: "d = (if u \<in> set (L r) then IdempotentReplay (word_of_nat (index_of u (L r)))
      else FirstAcceptance (word_of_nat (length (L r))))"
    using step(1) Cons.prems(1) unfolding L'_def by (auto elim: accept_cases)
  have log: "room_log (L' q) q xs = room_log (L q) q (p # xs)" for q xs
    by (auto simp: L'_def p)
  have len: "length (L r) < 2 ^ 64" using rel_ok [OF Cons.prems(1), of r] by (simp add: room_ids_ok_def)
  note IH = Cons.IH [OF m step(2)]
  show ?case
  proof (intro conjI allI impI)
    show "rel l' (\<lambda>q. room_log (L q) q (p # ps))" using IH by (simp add: log)
    show "length ds = length (p # ps)" using IH step(3) by simp
    fix i q v
    assume i: "i < length (p # ps)" and q: "(p # ps) ! i = (q, v)"
    show "let ids = room_log (L q) q (take i (p # ps)) in length ids < 2 ^ 64 \<and>
        ds ! i = (if v \<in> set ids then IdempotentReplay (word_of_nat (index_of v ids))
          else FirstAcceptance (word_of_nat (length ids)))"
    proof (cases i)
      case 0
      with q p d step(3) len show ?thesis by simp
    next
      case (Suc j)
      with i q step(3) IH show ?thesis by (simp add: log [symmetric])
    qed
  qed
qed simp

text \<open>Fewer requests than the counter can number never panic.\<close>

lemma run_publishes_returns:
  assumes "rel l L" and "\<And>r. length (L r) + length ps < 2 ^ 64"
  shows "\<exists>ds l'. run_publishes accept l ps = Some (ds, l')"
  using assms
proof (induction ps arbitrary: l L)
  case (Cons p ps)
  obtain r u where p: "p = (r, u)" by (cases p)
  have "length (L r) < 2 ^ 64 - 1" using Cons.prems(2) [of r] by simp
  then obtain d ids where d: "spec_accept (L r) u = Some (d, ids)" "length ids \<le> Suc (length (L r))"
    by (cases "u \<in> set (L r)") (auto simp: spec_accept_def)
  then obtain m where m: "accept l r u = Some (d, m)" "rel m (L(r := ids))"
    using rel_accept [OF Cons.prems(1)] by blast
  have "length ((L(r := ids)) q) + length ps < 2 ^ 64" for q
    using Cons.prems(2) [of q] d(2) by auto
  then obtain ds l' where "run_publishes accept m ps = Some (ds, l')"
    using Cons.IH [OF m(2)] by blast
  with m p show ?case by simp
qed simp

text \<open>Retries echo the first sequence number; different ids of a room get different ones.\<close>

lemma run_publishes_seq:
  assumes "rel l L" and "run_publishes accept l ps = Some (ds, l')"
    and "i < length ps" and "ps ! i = (r, u)"
  shows "decision_seq (ds ! i) = word_of_nat (index_of u (room_log (L r) r ps))"
proof -
  let ?ids = "room_log (L r) r (take i ps)"
  note step = run_publishes_log [OF assms(1,2)]
  from step assms(3,4)
  have d: "ds ! i = (if u \<in> set ?ids then IdempotentReplay (word_of_nat (index_of u ?ids))
      else FirstAcceptance (word_of_nat (length ?ids)))"
    by (auto simp: Let_def)
  have ps: "ps = take i ps @ (r, u) # drop (Suc i) ps"
    using assms(3,4) by (metis id_take_nth_drop)
  have "room_log (L r) r ps = room_log (if u \<in> set ?ids then ?ids else ?ids @ [u]) r (drop (Suc i) ps)"
    by (subst ps) (simp add: room_log_append)
  moreover obtain zs where
    "room_log (if u \<in> set ?ids then ?ids else ?ids @ [u]) r (drop (Suc i) ps)
       = (if u \<in> set ?ids then ?ids else ?ids @ [u]) @ zs"
    using room_log_prefix by blast
  ultimately show ?thesis by (simp add: d index_of_append)
qed

text \<open>First acceptances number a room without gaps.\<close>

lemma run_publishes_first_seqs:
  assumes "rel l L" and "run_publishes accept l ps = Some (ds, l')"
  shows "first_seqs r ps ds = map word_of_nat [length (L r) ..< length (room_log (L r) r ps)]"
  using assms
proof (induction ps arbitrary: l L ds)
  case Nil
  then show ?case by (simp add: first_seqs_def room_decisions_def)
next
  case (Cons p ps)
  obtain q u where p: "p = (q, u)" by (cases p)
  with Cons.prems obtain d m ds' where step: "accept l q u = Some (d, m)"
      "run_publishes accept m ps = Some (ds', l')" "ds = d # ds'"
    by (auto split: option.splits)
  from Cons.prems(1) step(1) show ?case
  proof (cases rule: accept_cases)
    case replay
    then show ?thesis
      using Cons.IH [OF replay(3) step(2)] step(3) p
      by (auto simp: first_seqs_def room_decisions_Cons)
  next
    case first
    have "length (L q @ [u]) \<le> length (room_log (L q @ [u]) q ps)"
      using room_log_prefix [of "L q @ [u]" q ps] by auto
    then show ?thesis
      using Cons.IH [OF first(4) step(2)] step(3) p first(1,2)
      by (auto simp: first_seqs_def room_decisions_Cons upt_conv_Cons)
  qed
qed

text \<open>What happens in one room does not depend on the requests for the others.\<close>

lemma run_publishes_room:
  assumes "rel l L" and "rel m M" and "M r = L r" and "run_publishes accept l ps = Some (ds, l')"
  shows "\<exists>m'. run_publishes accept m (filter (\<lambda>p. fst p = r) ps) = Some (room_decisions r ps ds, m')"
  using assms
proof (induction ps arbitrary: l L m M ds)
  case Nil
  then show ?case by (simp add: room_decisions_def)
next
  case (Cons p ps)
  obtain q u where p: "p = (q, u)" by (cases p)
  with Cons.prems obtain d l1 ds' where step: "accept l q u = Some (d, l1)"
      "run_publishes accept l1 ps = Some (ds', l')" "ds = d # ds'"
    by (auto split: option.splits)
  obtain d' ids where spec: "spec_accept (L q) u = Some (d', ids)"
    using rel_panic [OF Cons.prems(1)] step(1) by (cases "spec_accept (L q) u") auto
  obtain l2 where l2: "accept l q u = Some (d', l2)" "rel l2 (L(q := ids))"
    using rel_accept [OF Cons.prems(1) spec] by blast
  show ?case
  proof (cases "q = r")
    case True
    then obtain m2 where m2: "accept m q u = Some (d', m2)" "rel m2 (M(q := ids))"
      using rel_accept [OF Cons.prems(2)] spec Cons.prems(3) by metis
    with l2 step True Cons.IH [OF l2(2) m2(2)] p show ?thesis
      by (auto simp: room_decisions_Cons)
  next
    case False
    with Cons.IH [OF l2(2) Cons.prems(2)] l2 step Cons.prems(3) p show ?thesis
      by (auto simp: room_decisions_Cons)
  qed
qed

end

section \<open>The in-memory ledger\<close>

definition shard_of :: "room_publish_state \<Rightarrow> string \<Rightarrow> room_shard" where
  "shard_of st r = (case rooms st r of None \<Rightarrow> room_shard_default | Some sh \<Rightarrow> sh)"

definition shard_rel :: "room_shard \<Rightarrow> uuid list \<Rightarrow> bool" where
  "shard_rel sh ids \<longleftrightarrow> room_ids_ok ids \<and> unat (next_seq sh) = length ids
     \<and> (\<forall>u. by_client_id sh u = (if u \<in> set ids then Some (word_of_nat (index_of u ids)) else None))"

definition ledger_rel :: "room_publish_state \<Rightarrow> (string \<Rightarrow> uuid list) \<Rightarrow> bool" where
  "ledger_rel st L \<longleftrightarrow> (\<forall>r. shard_rel (shard_of st r) (L r))"

lemma shard_rel_default: "shard_rel room_shard_default []"
  by (simp add: shard_rel_def room_shard_default_def room_ids_ok_def)

lemma ledger_rel_default: "ledger_rel room_publish_state_default (\<lambda>_. [])"
  by (simp add: ledger_rel_def shard_of_def room_publish_state_default_def shard_rel_default)

lemma shard_of_update: "shard_of (st\<lparr>rooms := (rooms st)(r \<mapsto> sh)\<rparr>) q = (if q = r then sh else shard_of st q)"
  by (simp add: shard_of_def)

lemma ledger_rel_update:
  "ledger_rel st L \<Longrightarrow> shard_rel sh ids \<Longrightarrow> ledger_rel (st\<lparr>rooms := (rooms st)(r \<mapsto> sh)\<rparr>) (L(r := ids))"
  by (simp add: ledger_rel_def shard_of_update)

lemma accept_or_replay_eq:
  "accept_or_replay st r u =
     (case by_client_id (shard_of st r) u of
        Some seq \<Rightarrow> Some (IdempotentReplay seq, st\<lparr>rooms := (rooms st)(r \<mapsto> shard_of st r)\<rparr>)
      | None \<Rightarrow>
          (case checked_add_u64 (next_seq (shard_of st r)) 1 of
             None \<Rightarrow> None
           | Some n \<Rightarrow> Some (FirstAcceptance (next_seq (shard_of st r)),
               st\<lparr>rooms := (rooms st)(r \<mapsto> (shard_of st r)\<lparr>next_seq := n,
                 by_client_id := (by_client_id (shard_of st r))(u \<mapsto> next_seq (shard_of st r))\<rparr>)\<rparr>)))"
  by (simp add: accept_or_replay_def shard_of_def Let_def split: option.splits)

lemma unat_add_one: "unat (a :: u64) < 2 ^ 64 - 1 \<Longrightarrow> unat (a + 1) = Suc (unat a)"
  by (subst unat_add_lem [THEN iffD1]) simp_all

lemma checked_add_one:
  "checked_add_u64 a 1 = (if unat a < 2 ^ 64 - 1 then Some (a + 1) else None)"
  by (auto simp: checked_add_u64_def)

lemma shard_rel_accept:
  assumes "shard_rel sh ids" and "u \<notin> set ids" and "length ids < 2 ^ 64 - 1"
  shows "shard_rel (sh\<lparr>next_seq := next_seq sh + 1, by_client_id := (by_client_id sh)(u \<mapsto> next_seq sh)\<rparr>)
           (ids @ [u])"
proof -
  have n: "unat (next_seq sh) = length ids" using assms(1) by (simp add: shard_rel_def)
  then have "next_seq sh = word_of_nat (length ids)" by (simp flip: n)
  moreover have "unat (next_seq sh + 1) = Suc (length ids)"
    using unat_add_one [of "next_seq sh"] n assms(3) by simp
  ultimately show ?thesis
    using assms by (auto simp: shard_rel_def room_ids_ok_def index_of_append)
qed

lemma accept_or_replay_simulates:
  assumes "ledger_rel st L"
  shows "case spec_accept (L r) u of
      None \<Rightarrow> accept_or_replay st r u = None
    | Some (d, ids) \<Rightarrow> \<exists>st'. accept_or_replay st r u = Some (d, st') \<and> ledger_rel st' (L(r := ids))"
proof -
  have sh: "shard_rel (shard_of st r) (L r)" using assms by (simp add: ledger_rel_def)
  then have n: "unat (next_seq (shard_of st r)) = length (L r)" and ok: "room_ids_ok (L r)"
    by (simp_all add: shard_rel_def)
  have nw: "next_seq (shard_of st r) = word_of_nat (length (L r))" by (simp flip: n)
  consider "u \<in> set (L r)" | "u \<notin> set (L r)" "length (L r) < 2 ^ 64 - 1"
    | "u \<notin> set (L r)" "\<not> length (L r) < 2 ^ 64 - 1" by blast
  then show ?thesis
  proof cases
    case 1
    then show ?thesis
      using sh ledger_rel_update [OF assms sh, of r]
      by (simp add: spec_accept_def accept_or_replay_eq shard_rel_def)
  next
    case 2
    then show ?thesis
      using sh ledger_rel_update [OF assms shard_rel_accept [OF sh 2], of r]
      by (simp add: spec_accept_def accept_or_replay_eq checked_add_one n nw shard_rel_def)
  next
    case 3
    then show ?thesis
      using sh by (simp add: spec_accept_def accept_or_replay_eq checked_add_one n shard_rel_def)
  qed
qed

interpretation in_memory: room_publish_ledger accept_or_replay ledger_rel room_publish_state_default
proof (unfold_locales, goal_cases)
  case 1
  show ?case by (rule ledger_rel_default)
next
  case (2 l L r)
  then show ?case by (simp add: ledger_rel_def shard_rel_def)
next
  case (3 l L r u d ids)
  then show ?case using accept_or_replay_simulates [of l L r u] by simp
next
  case (4 l L r u)
  then show ?case using accept_or_replay_simulates [of l L r u] by simp
qed

section \<open>Properties\<close>

text \<open>
  C6: The in-memory ledger implements the per-room list of accepted ids: a known id is
  replayed with its position, a new one is appended and gets the next position, other rooms
  are untouched, and the only panic is a room that already numbered \<open>2 ^ 64 - 1\<close> ids.
\<close>

theorem ledger_refines_room_logs:
  assumes "ledger_rel st L"
  shows "case spec_accept (L r) u of
      None \<Rightarrow> accept_or_replay st r u = None
    | Some (d, ids) \<Rightarrow> \<exists>st'. accept_or_replay st r u = Some (d, st') \<and> ledger_rel st' (L(r := ids))"
  by (rule accept_or_replay_simulates [OF assms])

theorem ledger_refines_room_logs_witness:
  "\<exists>st'. accept_or_replay room_publish_state_default ''lobby'' 7 = Some (FirstAcceptance 0, st')
     \<and> ledger_rel st' ((\<lambda>_. [])(''lobby'' := [7]))"
  using ledger_refines_room_logs [OF ledger_rel_default, of "''lobby''" 7]
  by (simp add: spec_accept_def)

text \<open>
  In every run from the empty ledger, two publishes of one id in one room are answered
  with the same sequence number, and the later one is an idempotent replay.
\<close>

lemma publish_retry_same_seq:
  assumes "run_publishes accept_or_replay room_publish_state_default ps = Some (ds, st)"
    and "i < j" and "j < length ps" and "ps ! i = ps ! j"
  shows "decision_seq (ds ! i) = decision_seq (ds ! j) \<and> \<not> is_first (ds ! j)"
proof -
  obtain r u where ru: "ps ! j = (r, u)" by (cases "ps ! j")
  have "(r, u) \<in> set (take j ps)" using assms(2-4) ru by (auto simp: in_set_conv_nth)
  then have "u \<in> set (room_log [] r (take j ps))" by (rule room_log_member)
  then have "\<not> is_first (ds ! j)"
    using in_memory.run_publishes_log [OF ledger_rel_default assms(1)] assms(3) ru
    by (auto simp: Let_def)
  moreover have "decision_seq (ds ! i) = decision_seq (ds ! j)"
    using in_memory.run_publishes_seq [OF ledger_rel_default assms(1), of _ r u] assms(2-4) ru
    by simp
  ultimately show ?thesis by simp
qed

text \<open>
  In every run, two different ids published to one room have different sequence numbers.
\<close>

lemma publish_seq_injective:
  assumes "run_publishes accept_or_replay room_publish_state_default ps = Some (ds, st)"
    and "i < length ps" and "j < length ps"
    and "ps ! i = (r, u)" and "ps ! j = (r, v)" and "u \<noteq> v"
  shows "decision_seq (ds ! i) \<noteq> decision_seq (ds ! j)"
proof -
  let ?ids = "room_log [] r ps"
  have mem: "u \<in> set ?ids" "v \<in> set ?ids"
    using assms(2-5) by (metis nth_mem room_log_member)+
  have "ledger_rel st (\<lambda>r. room_log [] r ps)"
    using in_memory.run_publishes_log [OF ledger_rel_default assms(1)] by simp
  then have len: "length ?ids < 2 ^ 64" using in_memory.rel_ok [of st _ r] unfolding room_ids_ok_def by blast
  have "index_of u ?ids \<noteq> index_of v ?ids" using mem assms(6) by (simp add: index_of_inject)
  moreover have "index_of u ?ids < 2 ^ 64" "index_of v ?ids < 2 ^ 64"
    using mem len index_of_less_iff less_trans by metis+
  ultimately have "(word_of_nat (index_of u ?ids) :: u64) \<noteq> word_of_nat (index_of v ?ids)"
    by (simp add: word_of_nat_eq_iff take_bit_nat_eq_self)
  then show ?thesis
    using in_memory.run_publishes_seq [OF ledger_rel_default assms(1)] assms(2-5) by simp
qed

text \<open>
  The sequence numbers handed out for the first time in a room are \<open>0, 1, 2, \<dots>\<close> in the
  order of the requests, without gaps, whatever happens in other rooms or is retried between.
\<close>

lemma publish_first_seqs_dense:
  assumes "run_publishes accept_or_replay room_publish_state_default ps = Some (ds, st)"
  shows "first_seqs r ps ds = map word_of_nat [0 ..< length (room_log [] r ps)]"
  using in_memory.run_publishes_first_seqs [OF ledger_rel_default assms] by simp

text \<open>
  Room isolation: the answers a room gets in any run are the answers it would get if its
  own requests were the only ones.
\<close>

lemma publish_rooms_independent:
  assumes "run_publishes accept_or_replay room_publish_state_default ps = Some (ds, st)"
  shows "\<exists>st'. run_publishes accept_or_replay room_publish_state_default (filter (\<lambda>p. fst p = r) ps)
      = Some (room_decisions r ps ds, st')"
  using in_memory.run_publishes_room [OF ledger_rel_default ledger_rel_default refl assms] .

text \<open>
  No panic in practice: every run of fewer than \<open>2 ^ 64\<close> requests is answered.
\<close>

lemma publish_run_returns:
  assumes "length ps < 2 ^ 64"
  shows "\<exists>ds st. run_publishes accept_or_replay room_publish_state_default ps = Some (ds, st)"
  using in_memory.run_publishes_returns [OF ledger_rel_default] assms by simp

end
