(* ===== verification/Wire_Dispatch.thy ===== *)
theory Wire_Dispatch
  imports Codec_Correct Publish_Ledger
begin

text \<open>
  Session dispatch of wire v1 (\<^verbatim>\<open>guyos_core/src/domain/guyos_wire_v1.rs\<close>, from
  \<open>outbound_wire_error\<close> to \<open>handle_client_message\<close>): the hub's side of one application stream,
  as a function from the session, one decoded client message and the shared ledger to the next
  session, the outcome and the next ledger. \<^const>\<open>None\<close> is the ledger's panic.
\<close>

section \<open>Outbound errors\<close>

definition outbound_wire_error :: "string \<Rightarrow> string \<Rightarrow> 'ts guyos_wire_v1_message" where
  "outbound_wire_error code message =
     MError \<lparr>err_code = code, err_message = message, err_details = None\<rparr>"

definition outbound_message_too_large :: "nat \<Rightarrow> u32 \<Rightarrow> 'ts guyos_wire_v1_message" where
  "outbound_message_too_large bytes limit =
     MError \<lparr>err_code = ''message_too_large'',
       err_message = ''text is '' @ dec_of_nat bytes @ '' bytes (limit '' @ dec_of_nat (unat limit) @ '')'',
       err_details = None\<rparr>"

fun outbound_error_from_message_error ::
    "'ts deps \<Rightarrow> guyos_wire_v1_message_error \<Rightarrow> 'ts guyos_wire_v1_message" where
  "outbound_error_from_message_error D MalformedJson =
     outbound_wire_error ''malformed_json''
       ''Bytes are not valid UTF-8 or do not parse as a JSON object for this protocol.''"
| "outbound_error_from_message_error D (UnknownMessageType type_field) =
     (let message = (case type_field of
            Some t \<Rightarrow> ''Unknown message type '' @ str_debug D t @ ''.''
          | None \<Rightarrow> ''Missing or invalid `type` field.'')
      in MError \<lparr>err_code = ''unknown_message_type'', err_message = message, err_details = None\<rparr>)"
| "outbound_error_from_message_error D InvalidAttach =
     outbound_wire_error ''invalid_attach'' ''Attach payload failed semantic validation.''"
| "outbound_error_from_message_error D (MessageTooLarge bytes limit) =
     outbound_message_too_large bytes limit"
| "outbound_error_from_message_error D (InvalidClientMessageId raw) =
     MError \<lparr>err_code = ''invalid_client_message_id'',
       err_message = ''client_message_id '' @ str_debug D raw @ '' is not a canonical UUID string.'',
       err_details = None\<rparr>"
| "outbound_error_from_message_error D (JsonBodyTooLarge bytes limit) =
     outbound_wire_error ''malformed_json'' ''Internal encode error: JSON body exceeds max_frame_bytes.''"

section \<open>Session state and outcomes\<close>

datatype guyos_wire_session =
    AwaitingAttach
  | Attached (session_room: string) (session_max_frame_bytes: u32) (session_max_message_bytes: u32)

datatype 'ts guyos_wire_inbound_outcome =
    NoReply
  | Reply "'ts guyos_wire_v1_message"
  | PublishHandled "'ts publish_ack" "'ts wire_chat_message option"

type_synonym 'l ledger_op = "'l \<Rightarrow> string \<Rightarrow> uuid \<Rightarrow> (publish_decision \<times> 'l) option"

definition dispatch_publish_for_room ::
    "string \<Rightarrow> publish \<Rightarrow> u32 \<Rightarrow> 'l ledger_op \<Rightarrow> 'l \<Rightarrow> ('ts guyos_wire_inbound_outcome \<times> 'l) option" where
  "dispatch_publish_for_room room_id publish max_message_bytes accept ledger =
     (case validate_text_len (pub_text publish) max_message_bytes of
        Inl (MessageTooLarge bytes limit) \<Rightarrow>
          Some (Reply (outbound_message_too_large bytes limit), ledger)
      | _ \<Rightarrow>
          (case accept ledger room_id (pub_client_message_id publish) of
             None \<Rightarrow> None
           | Some (decision, ledger') \<Rightarrow>
               let seq = decision_seq decision;
                   publisher_ack =
                     \<lparr>pa_seq = seq,
                      pa_client_message_id = pub_client_message_id publish,
                      pa_server_timestamp = None\<rparr>;
                   observer_chat = (case decision of
                       FirstAcceptance _ \<Rightarrow> Some
                         \<lparr>cm_seq = pa_seq publisher_ack,
                          cm_client_message_id = pub_client_message_id publish,
                          cm_text = pub_text publish,
                          cm_sender_endpoint_id = None,
                          cm_server_timestamp = None\<rparr>
                     | IdempotentReplay _ \<Rightarrow> None)
               in Some (PublishHandled publisher_ack observer_chat, ledger')))"

fun handle_client_message ::
    "guyos_wire_session \<Rightarrow> 'ts guyos_wire_v1_message \<Rightarrow> attach_policy \<Rightarrow> ticket_verifier
     \<Rightarrow> 'l ledger_op \<Rightarrow> 'l \<Rightarrow> (guyos_wire_session \<times> 'ts guyos_wire_inbound_outcome \<times> 'l) option" where
  "handle_client_message AwaitingAttach msg policy verifier accept ledger =
     (case msg of
        MDetach \<Rightarrow> Some (AwaitingAttach, NoReply, ledger)
      | MKeepalive \<Rightarrow> Some (AwaitingAttach, NoReply, ledger)
      | MAttach attach \<Rightarrow>
          (case accept_attach attach policy verifier of
             Inr ack \<Rightarrow>
               Some (Attached (ack_room_id ack) (ack_max_frame_bytes ack) (ack_max_message_bytes ack),
                     Reply (MAttachAck ack), ledger)
           | Inl e \<Rightarrow>
               let (code, message) = attach_handshake_portable e
               in Some (AwaitingAttach, Reply (outbound_wire_error code message), ledger))
      | _ \<Rightarrow> Some (AwaitingAttach,
               Reply (outbound_wire_error ''attach_required'' error_message_attach_required), ledger))"
| "handle_client_message (Attached room_id max_frame_bytes max_message_bytes) msg policy verifier accept ledger =
     (let session = Attached room_id max_frame_bytes max_message_bytes
      in case msg of
           MAttach _ \<Rightarrow> Some (session,
             Reply (outbound_wire_error ''invalid_attach'' error_message_invalid_attach_duplicate), ledger)
         | MPublish publish \<Rightarrow>
             (case dispatch_publish_for_room room_id publish max_message_bytes accept ledger of
                None \<Rightarrow> None
              | Some (out, ledger') \<Rightarrow> Some (session, out, ledger'))
         | MDetach \<Rightarrow> Some (session, NoReply, ledger)
         | MKeepalive \<Rightarrow> Some (session, NoReply, ledger)
         | _ \<Rightarrow> Some (session, NoReply, ledger))"

section \<open>Lemmas\<close>

lemma dispatch_publish_cases:
  "dispatch_publish_for_room room p l accept ledger =
     (if unat l < length (pub_text p)
      then Some (Reply (outbound_message_too_large (length (pub_text p)) l), ledger)
      else case accept ledger room (pub_client_message_id p) of
             None \<Rightarrow> None
           | Some (d, ledger') \<Rightarrow>
               Some (PublishHandled
                  \<lparr>pa_seq = decision_seq d, pa_client_message_id = pub_client_message_id p,
                   pa_server_timestamp = None\<rparr>
                  (if is_first d then Some
                     \<lparr>cm_seq = decision_seq d, cm_client_message_id = pub_client_message_id p,
                      cm_text = pub_text p, cm_sender_endpoint_id = None, cm_server_timestamp = None\<rparr>
                   else None), ledger'))"
  by (auto simp: dispatch_publish_for_room_def validate_text_len_eq Let_def
      split: option.splits publish_decision.splits)

lemma handle_attached:
  assumes "handle_client_message (Attached r f l) msg pol v accept ledger = Some (s', out, ledger')"
  shows "s' = Attached r f l"
  using assms
  by (auto simp: Let_def split: guyos_wire_v1_message.splits option.splits)

text \<open>
  Sessions are ordered by what they know: an unattached one is below every other, and attached
  ones are comparable only to themselves. A stream only moves up.
\<close>

instantiation guyos_wire_session :: order_bot
begin

definition less_eq_guyos_wire_session :: "guyos_wire_session \<Rightarrow> guyos_wire_session \<Rightarrow> bool" where
  "s \<le> s' \<longleftrightarrow> s = AwaitingAttach \<or> s' = s"

definition less_guyos_wire_session :: "guyos_wire_session \<Rightarrow> guyos_wire_session \<Rightarrow> bool" where
  "s < s' \<longleftrightarrow> s = AwaitingAttach \<and> s' \<noteq> AwaitingAttach"

definition bot_guyos_wire_session :: guyos_wire_session where
  "bot = AwaitingAttach"

instance
  by standard (auto simp: less_eq_guyos_wire_session_def less_guyos_wire_session_def bot_guyos_wire_session_def)

end

lemma session_le_Attached [simp]: "Attached r f l \<le> s \<longleftrightarrow> s = Attached r f l"
  by (simp add: less_eq_guyos_wire_session_def)

lemma handle_moves_up:
  "handle_client_message s msg pol v accept ledger = Some (s', out, ledger') \<Longrightarrow> s \<le> s'"
  using handle_attached by (cases s) (auto simp: less_eq_guyos_wire_session_def)

text \<open>When a message is handled as a publish, and what the ledger was asked.\<close>

lemma handle_publish_handled:
  assumes "handle_client_message s msg pol v accept ledger = Some (s', PublishHandled ack chat, ledger')"
  obtains r f l p d where "s = Attached r f l" "s' = s" "msg = MPublish p"
    "length (pub_text p) \<le> unat l"
    "accept ledger r (pub_client_message_id p) = Some (d, ledger')"
    "ack = \<lparr>pa_seq = decision_seq d, pa_client_message_id = pub_client_message_id p,
            pa_server_timestamp = None\<rparr>"
    "chat = (if is_first d then Some
       \<lparr>cm_seq = decision_seq d, cm_client_message_id = pub_client_message_id p,
        cm_text = pub_text p, cm_sender_endpoint_id = None, cm_server_timestamp = None\<rparr> else None)"
proof (cases s)
  case AwaitingAttach
  with assms show ?thesis
    by (auto split: guyos_wire_v1_message.splits sum.splits prod.splits)
next
  case (Attached r f l)
  with assms obtain p where p: "msg = MPublish p" "s' = s"
    by (cases msg) (auto simp: Let_def split: option.splits)
  with assms Attached have "dispatch_publish_for_room r p l accept ledger = Some (PublishHandled ack chat, ledger')"
    by (auto simp: Let_def split: option.splits)
  then show ?thesis
    using that [OF Attached p(2,1)]
    by (auto simp: dispatch_publish_cases not_less split: if_splits option.splits)
qed

lemma handle_not_publish_handled:
  assumes "handle_client_message s msg pol v accept ledger = Some (s', out, ledger')"
    and "\<And>ack chat. out \<noteq> PublishHandled ack chat"
  shows "ledger' = ledger"
proof (cases s)
  case AwaitingAttach
  with assms show ?thesis
    by (auto simp: Let_def split: guyos_wire_v1_message.splits sum.splits prod.splits)
next
  case (Attached r f l)
  with assms show ?thesis
    by (cases msg) (auto simp: Let_def dispatch_publish_cases split: if_splits option.splits)
qed

lemma handle_awaiting_attach:
  assumes "handle_client_message AwaitingAttach msg pol v accept ledger = Some (s', out, ledger')"
    and "s' \<noteq> AwaitingAttach"
  obtains a ack where "msg = MAttach a" "accept_attach a pol v = Inr ack" "out = Reply (MAttachAck ack)"
    "s' = Attached (ack_room_id ack) (ack_max_frame_bytes ack) (ack_max_message_bytes ack)"
  using assms
  by (cases msg) (auto simp: Let_def split: sum.splits prod.splits)

lemma handle_returns:
  assumes "\<And>r u. accept ledger r u \<noteq> None"
  shows "handle_client_message s msg pol v accept ledger \<noteq> None"
proof (cases s)
  case AwaitingAttach
  then show ?thesis
    by (auto simp: Let_def split: guyos_wire_v1_message.splits sum.splits prod.splits)
next
  case (Attached r f l)
  show ?thesis
  proof (cases msg)
    case (MPublish p)
    with Attached assms [of r "pub_client_message_id p"] show ?thesis
      by (auto simp: Let_def dispatch_publish_cases split: option.splits)
  qed (use Attached in \<open>auto simp: Let_def\<close>)
qed

section \<open>Properties\<close>

text \<open>
  C13: An attached stream stays attached to its room with its limits whatever message comes,
  and a stream that is not attached becomes so only through an accepted attach, whose
  acknowledgement carries exactly the room and limits of the new state.
\<close>

theorem session_transitions:
  assumes "handle_client_message s msg pol v accept ledger = Some (s', out, ledger')"
  shows "(s \<noteq> AwaitingAttach \<longrightarrow> s' = s)
    \<and> (s = AwaitingAttach \<and> s' \<noteq> AwaitingAttach \<longrightarrow>
        (\<exists>a ack. msg = MAttach a \<and> accept_attach a pol v = Inr ack \<and> out = Reply (MAttachAck ack)
          \<and> s' = Attached (ack_room_id ack) (ack_max_frame_bytes ack) (ack_max_message_bytes ack)))"
proof (cases s)
  case AwaitingAttach
  show ?thesis
  proof (cases "s' = AwaitingAttach")
    case False
    with handle_awaiting_attach [OF assms [unfolded AwaitingAttach]] AwaitingAttach
    show ?thesis by blast
  qed (simp add: AwaitingAttach)
next
  case (Attached r f l)
  with assms handle_attached [of r f l] show ?thesis by auto
qed

theorem session_transitions_witness:
  "\<exists>ack. accept_attach \<lparr>att_protocol_major = 1, att_protocol_minor = 0, att_ticket = ''t''\<rparr>
       (single_major 1 7 1048576 65536 None) (\<lambda>_. Inr ''room'') = Inr ack
     \<and> handle_client_message AwaitingAttach (MAttach \<lparr>att_protocol_major = 1, att_protocol_minor = 0, att_ticket = ''t''\<rparr>)
         (single_major 1 7 1048576 65536 None) (\<lambda>_. Inr ''room'') accept_or_replay room_publish_state_default
       = Some (Attached (ack_room_id ack) (ack_max_frame_bytes ack) (ack_max_message_bytes ack),
           Reply (MAttachAck ack) :: unit guyos_wire_inbound_outcome, room_publish_state_default)"
proof -
  have ok: "attach_in_range \<lparr>att_protocol_major = 1, att_protocol_minor = 0, att_ticket = ''t''\<rparr>"
    by (simp add: attach_in_range_def U31_MAX_def)
  then obtain ack where ack: "accept_attach \<lparr>att_protocol_major = 1, att_protocol_minor = 0, att_ticket = ''t''\<rparr>
       (single_major 1 7 1048576 65536 None) (\<lambda>_. Inr ''room'') = Inr ack"
    by (auto simp: accept_attach_Inr_iff single_major_def)
  then have h: "handle_client_message AwaitingAttach (MAttach \<lparr>att_protocol_major = 1, att_protocol_minor = 0, att_ticket = ''t''\<rparr>)
         (single_major 1 7 1048576 65536 None) (\<lambda>_. Inr ''room'') accept_or_replay room_publish_state_default
       = Some (Attached (ack_room_id ack) (ack_max_frame_bytes ack) (ack_max_message_bytes ack),
           Reply (MAttachAck ack) :: unit guyos_wire_inbound_outcome, room_publish_state_default)"
    by simp
  from session_transitions [OF h] h show ?thesis by auto
qed

text \<open>
  No publish without attach, and no other effect on the ledger: the ledger moves only when
  an attached stream sends a publish whose text fits its negotiated limit; every other message,
  every oversized text and every message before attach leaves it as it was.
\<close>

lemma ledger_moves_only_on_publish:
  assumes "handle_client_message s msg pol v accept ledger = Some (s', out, ledger')"
    and "ledger' \<noteq> ledger"
  shows "\<exists>r f l p d. s = Attached r f l \<and> msg = MPublish p \<and> length (pub_text p) \<le> unat l
    \<and> accept ledger r (pub_client_message_id p) = Some (d, ledger')
    \<and> (\<exists>ack chat. out = PublishHandled ack chat)"
proof -
  from handle_not_publish_handled [OF assms(1)] assms(2)
  obtain ack chat where out: "out = PublishHandled ack chat" by blast
  with assms(1) show ?thesis by (auto elim!: handle_publish_handled)
qed

text \<open>
  What a handled publish answers: the acknowledgement and the observer message carry the
  ledger's sequence number and the publish's id, the observer message carries the text of the
  publish and is produced exactly for a first acceptance, and neither has a timestamp.
\<close>

lemma publish_handled_contents:
  assumes "handle_client_message s (MPublish p) pol v accept ledger = Some (s', PublishHandled ack chat, ledger')"
  shows "\<exists>r d. session_room s = r \<and> accept ledger r (pub_client_message_id p) = Some (d, ledger')
    \<and> pa_seq ack = decision_seq d \<and> pa_client_message_id ack = pub_client_message_id p
    \<and> pa_server_timestamp ack = None
    \<and> (case chat of
         None \<Rightarrow> \<not> is_first d
       | Some c \<Rightarrow> is_first d \<and> cm_seq c = pa_seq ack \<and> cm_client_message_id c = pub_client_message_id p
           \<and> cm_text c = pub_text p \<and> cm_sender_endpoint_id c = None \<and> cm_server_timestamp c = None)"
  using assms by (rule handle_publish_handled) (auto split: if_splits)

text \<open>
  The acknowledgement of an accepted attach can be encoded exactly when the hub's configured
  keepalive interval is absent or within u31: the negotiated versions always are, but the
  policy does not check the interval, and the stream is attached either way.
\<close>

lemma attach_ack_encodable:
  assumes "handle_client_message AwaitingAttach (MAttach a) pol v accept ledger
      = Some (s', Reply (MAttachAck ack), ledger')"
  shows "s' \<noteq> AwaitingAttach
    \<and> ((\<exists>w. encode_to_value_with_limits D (MAttachAck ack) lim = Inr w) \<longleftrightarrow>
        (case pol_keepalive_interval_seconds pol of None \<Rightarrow> True | Some k \<Rightarrow> k \<le> U31_MAX))"
proof -
  from assms have ack: "accept_attach a pol v = Inr ack" "s' \<noteq> AwaitingAttach"
    by (auto simp: Let_def outbound_wire_error_def split: sum.splits prod.splits)
  then have "ack_protocol_major ack \<le> U31_MAX" "ack_server_protocol_minor ack \<le> U31_MAX"
      "ack_keepalive_interval_seconds ack = pol_keepalive_interval_seconds pol"
    by (auto simp: accept_attach_Inr_iff attach_in_range_def min_le_iff_disj)
  with ack(2) show ?thesis
    by (cases "pol_keepalive_interval_seconds pol") (auto simp: encode_simps)
qed

text \<open>
  The code of an outbound error is the portable code its decode or dispatch error displays
  first; only the hub's own encode overflow is reported under another code.
\<close>

lemma outbound_error_code_is_displayed:
  assumes "\<And>bytes limit. e \<noteq> JsonBodyTooLarge bytes limit"
  shows "\<exists>env rest. outbound_error_from_message_error D e = MError env
    \<and> message_error_fmt D e = err_code env @ '': '' @ rest"
proof (cases e)
  case (UnknownMessageType tf)
  then show ?thesis by (cases tf) simp_all
qed (use assms in \<open>simp_all add: outbound_wire_error_def outbound_message_too_large_def\<close>)

end
