(* ===== verification/Hub_Rooms.thy ===== *)
theory Hub_Rooms
  imports Wire_Dispatch
begin

text \<open>
  The hub as a whole: any number of client streams, each with its own \<open>GuyosWireSession\<close>, that
  share one publish ledger behind a lock (the \<open>Arc\<close> and mutex \<open>handle_client_message\<close> of
  \<^verbatim>\<open>guyos_core/src/domain/guyos_wire_v1.rs\<close> is given). One step is one call of that function for
  one stream; runs are all interleavings of such calls. The lemmas hold for every ledger that
  meets the interface \<open>room_publish_ledger\<close> and are used at the in-memory one.
\<close>

section \<open>Steps and runs\<close>

record 'l hub =
  hub_sessions :: "nat \<Rightarrow> guyos_wire_session"
  hub_ledger :: 'l

record 'ts hub_event =
  ev_conn :: nat
  ev_clock :: u64
  ev_session :: guyos_wire_session
  ev_msg :: "'ts guyos_wire_v1_message"
  ev_out :: "'ts guyos_wire_inbound_outcome"

definition hub_start :: "'l \<Rightarrow> 'l hub" where
  "hub_start empty_ledger = \<lparr>hub_sessions = (\<lambda>_. AwaitingAttach), hub_ledger = empty_ledger\<rparr>"

inductive hub_step ::
    "'l ledger_op \<Rightarrow> attach_policy \<Rightarrow> (u64 \<Rightarrow> ticket_verifier) \<Rightarrow> 'l hub \<Rightarrow> 'ts hub_event \<Rightarrow> 'l hub \<Rightarrow> bool"
  for accept pol v where
  message: "handle_client_message (hub_sessions h i) msg pol (v now) accept (hub_ledger h) = Some (s', out, l') \<Longrightarrow>
     hub_step accept pol v h
       \<lparr>ev_conn = i, ev_clock = now, ev_session = hub_sessions h i, ev_msg = msg, ev_out = out\<rparr>
       \<lparr>hub_sessions = (hub_sessions h)(i := s'), hub_ledger = l'\<rparr>"

inductive hub_run ::
    "'l ledger_op \<Rightarrow> attach_policy \<Rightarrow> (u64 \<Rightarrow> ticket_verifier) \<Rightarrow> 'l hub \<Rightarrow> 'ts hub_event list \<Rightarrow> 'l hub \<Rightarrow> bool"
  for accept pol v h where
  start: "hub_run accept pol v h [] h"
| step: "hub_run accept pol v h tr h' \<Longrightarrow> hub_step accept pol v h' ev h'' \<Longrightarrow>
     hub_run accept pol v h (tr @ [ev]) h''"

inductive_simps hub_run_Nil: "hub_run accept pol v h [] h'"
inductive_cases hub_run_snocE: "hub_run accept pol v h (tr @ [ev]) h''"
inductive_cases hub_stepE: "hub_step accept pol v h ev h'"

text \<open>Every stream only moves up, whatever the others do.\<close>

lemma hub_step_moves_up: "hub_step accept pol v h ev h' \<Longrightarrow> hub_sessions h \<le> hub_sessions h'"
  by (auto simp: le_fun_def elim!: hub_stepE intro: handle_moves_up)

lemma hub_run_splits:
  "hub_run accept pol v h (xs @ ys) h' \<Longrightarrow>
     \<exists>h1. hub_run accept pol v h xs h1 \<and> hub_sessions h1 \<le> hub_sessions h'"
proof (induction ys arbitrary: h' rule: rev_induct)
  case (snoc y ys)
  then have "hub_run accept pol v h ((xs @ ys) @ [y]) h'" by simp
  then obtain h2 where "hub_run accept pol v h (xs @ ys) h2" "hub_step accept pol v h2 y h'"
    by (rule hub_run_snocE) auto
  with snoc.IH hub_step_moves_up show ?case by (blast intro: order_trans)
qed auto

text \<open>The session an event saw is below the one the stream has later in the run.\<close>

lemma hub_run_session_of:
  assumes "hub_run accept pol v h tr h'" and "ev \<in> set tr"
  shows "ev_session ev \<le> hub_sessions h' (ev_conn ev)"
proof -
  from split_list [OF assms(2)] obtain xs ys where "tr = (xs @ [ev]) @ ys" by auto
  with assms(1) obtain h1 where h1: "hub_run accept pol v h (xs @ [ev]) h1" "hub_sessions h1 \<le> hub_sessions h'"
    using hub_run_splits by blast
  then obtain h0 where "hub_step accept pol v h0 ev h1" by (blast elim: hub_run_snocE)
  then have "hub_sessions h0 \<le> hub_sessions h1" and "ev_session ev = hub_sessions h0 (ev_conn ev)"
    by - (erule hub_step_moves_up, auto elim!: hub_stepE)
  with h1(2) show ?thesis by (simp add: le_fun_def) (blast intro: order_trans)
qed

section \<open>What the members of a room see\<close>

text \<open>The handled publishes of a run: the room, the publisher's answer, the observers' message.\<close>

type_synonym 'ts handled_publish = "string \<times> 'ts publish_ack \<times> 'ts wire_chat_message option"

definition handled_of :: "'ts hub_event \<Rightarrow> 'ts handled_publish list" where
  "handled_of ev = (case ev_out ev of
     PublishHandled ack chat \<Rightarrow> [(session_room (ev_session ev), ack, chat)] | _ \<Rightarrow> [])"

definition handled :: "'ts hub_event list \<Rightarrow> 'ts handled_publish list" where
  "handled tr = concat (map handled_of tr)"

definition requests :: "'ts handled_publish list \<Rightarrow> (string \<times> uuid) list" where
  "requests hs = map (\<lambda>(r, ack, chat). (r, pa_client_message_id ack)) hs"

fun chats :: "string \<Rightarrow> 'ts handled_publish list \<Rightarrow> 'ts wire_chat_message list" where
  "chats r [] = []"
| "chats r ((r', ack, None) # hs) = chats r hs"
| "chats r ((r', ack, Some c) # hs) = (if r' = r then c # chats r hs else chats r hs)"

definition room_chats :: "string \<Rightarrow> 'ts hub_event list \<Rightarrow> 'ts wire_chat_message list" where
  "room_chats r tr = chats r (handled tr)"

lemma handled_append: "handled (xs @ ys) = handled xs @ handled ys"
  by (simp add: handled_def)

lemma handled_single: "handled [ev] = handled_of ev"
  by (simp add: handled_def)

lemma length_handled: "length (handled tr) \<le> length tr"
proof (induction tr)
  case (Cons ev tr)
  have "length (handled_of ev) \<le> 1"
    by (auto simp: handled_of_def split: guyos_wire_inbound_outcome.split)
  with Cons show ?case by (simp add: handled_def)
qed (simp add: handled_def)

text \<open>An answer of the hub, compared with the ledger's decision behind it.\<close>

fun answer_ok :: "'ts handled_publish \<Rightarrow> publish_decision \<Rightarrow> bool" where
  "answer_ok (r, ack, None) d \<longleftrightarrow> pa_seq ack = decision_seq d \<and> \<not> is_first d"
| "answer_ok (r, ack, Some c) d \<longleftrightarrow> pa_seq ack = decision_seq d \<and> is_first d
     \<and> cm_seq c = decision_seq d \<and> cm_client_message_id c = pa_client_message_id ack"

lemma run_publishes_snoc:
  "run_publishes accept l ps = Some (ds, l') \<Longrightarrow> accept l' r u = Some (d, l'') \<Longrightarrow>
     run_publishes accept l (ps @ [(r, u)]) = Some (ds @ [d], l'')"
proof (induction ps arbitrary: l ds)
  case (Cons p ps)
  obtain q w where p: "p = (q, w)" by (cases p)
  with Cons.prems obtain d1 l1 ds1 where "accept l q w = Some (d1, l1)"
      "run_publishes accept l1 ps = Some (ds1, l')" "ds = d1 # ds1"
    by (auto split: option.splits)
  with Cons.IH [of l1 ds1] Cons.prems(2) p show ?case by simp
qed simp

text \<open>A run of the hub is a run of the ledger on the publishes it handled, answered from it.\<close>

lemma hub_run_publishes:
  assumes "hub_run accept pol v (hub_start l0) tr h"
  shows "\<exists>ds. run_publishes accept l0 (requests (handled tr)) = Some (ds, hub_ledger h)
    \<and> list_all2 answer_ok (handled tr) ds"
  using assms
proof (induction rule: hub_run.induct)
  case start
  then show ?case by (simp add: handled_def requests_def hub_start_def)
next
  case (step tr h' ev h'')
  then obtain ds where ds: "run_publishes accept l0 (requests (handled tr)) = Some (ds, hub_ledger h')"
      "list_all2 answer_ok (handled tr) ds" by blast
  from step(2) obtain msg s' where h: "handle_client_message (ev_session ev) msg pol (v (ev_clock ev)) accept (hub_ledger h')
      = Some (s', ev_out ev, hub_ledger h'')"
    by (cases rule: hub_stepE) auto
  show ?case
  proof (cases "ev_out ev")
    case (PublishHandled ack chat)
    from h [unfolded PublishHandled] show ?thesis
    proof (rule handle_publish_handled)
      fix r f l p d
      assume p: "ev_session ev = Attached r f l"
        "accept (hub_ledger h') r (pub_client_message_id p) = Some (d, hub_ledger h'')"
        "ack = \<lparr>pa_seq = decision_seq d, pa_client_message_id = pub_client_message_id p,
            pa_server_timestamp = None\<rparr>"
        "chat = (if is_first d then Some
           \<lparr>cm_seq = decision_seq d, cm_client_message_id = pub_client_message_id p,
            cm_text = pub_text p, cm_sender_endpoint_id = None, cm_server_timestamp = None\<rparr> else None)"
      then have "handled_of ev = [(r, ack, chat)]" by (simp add: handled_of_def PublishHandled)
      moreover have "answer_ok (r, ack, chat) d" using p(3,4) by auto
      ultimately show ?thesis
        using run_publishes_snoc [OF ds(1) p(2)] ds(2) p(3)
        by (auto simp: handled_append handled_single requests_def intro: list_all2_appendI)
    qed
  next
    case NoReply
    with h have "hub_ledger h'' = hub_ledger h'" by (auto dest: handle_not_publish_handled)
    with ds NoReply show ?thesis by (auto simp: handled_append handled_single handled_of_def)
  next
    case (Reply m)
    with h have "hub_ledger h'' = hub_ledger h'" by (auto dest: handle_not_publish_handled)
    with ds Reply show ?thesis by (auto simp: handled_append handled_single handled_of_def)
  qed
qed

lemma chats_seqs:
  "list_all2 answer_ok hs ds \<Longrightarrow> map cm_seq (chats r hs) = first_seqs r (requests hs) ds"
proof (induction hs ds rule: list_all2_induct)
  case (Cons hd hs d ds)
  obtain r' ack chat where "hd = (r', ack, chat)" by (cases hd)
  with Cons show ?case
    by (cases chat) (auto simp: first_seqs_def requests_def room_decisions_Cons)
qed (simp add: first_seqs_def room_decisions_def requests_def)

context room_publish_ledger
begin

text \<open>The ids the observers of a room see are the log of the room.\<close>

lemma chats_ids:
  "rel l L \<Longrightarrow> run_publishes accept l (requests hs) = Some (ds, l') \<Longrightarrow> list_all2 answer_ok hs ds \<Longrightarrow>
     L r @ map cm_client_message_id (chats r hs) = room_log (L r) r (requests hs)"
proof (induction hs arbitrary: l L ds)
  case (Cons hd hs)
  obtain q ack chat where hd: "hd = (q, ack, chat)" by (cases hd)
  with Cons.prems obtain d m ds' where step: "accept l q (pa_client_message_id ack) = Some (d, m)"
      "run_publishes accept m (requests hs) = Some (ds', l')" "ds = d # ds'"
    by (auto simp: requests_def split: option.splits)
  with Cons.prems(3) hd have ok: "answer_ok (q, ack, chat) d" "list_all2 answer_ok hs ds'" by auto
  from Cons.prems(1) step(1) show ?case
  proof (cases rule: accept_cases)
    case replay
    with ok(1) have "chat = None" by (cases chat) auto
    with Cons.IH [OF replay(3) step(2) ok(2)] replay(1) hd show ?thesis by (auto simp: requests_def)
  next
    case first
    with ok(1) obtain c where "chat = Some c" "cm_client_message_id c = pa_client_message_id ack"
      by (cases chat) auto
    with Cons.IH [OF first(4) step(2) ok(2)] first(1) hd show ?thesis by (auto simp: requests_def)
  qed
qed (simp add: requests_def)

lemma hub_run_log:
  assumes "hub_run accept pol v (hub_start empty_ledger) tr h"
  shows "map cm_client_message_id (room_chats r tr) = room_log [] r (requests (handled tr))"
    and "map cm_seq (room_chats r tr) = map word_of_nat [0 ..< length (room_chats r tr)]"
    and "room_ids_ok (map cm_client_message_id (room_chats r tr))"
    and "rel (hub_ledger h) (\<lambda>r. room_log [] r (requests (handled tr)))"
proof -
  from hub_run_publishes [OF assms] obtain ds where
    ds: "run_publishes accept empty_ledger (requests (handled tr)) = Some (ds, hub_ledger h)"
      "list_all2 answer_ok (handled tr) ds" by blast
  show ids: "map cm_client_message_id (room_chats r tr) = room_log [] r (requests (handled tr))"
    using chats_ids [OF rel_empty ds, of r] by (simp add: room_chats_def)
  show "map cm_seq (room_chats r tr) = map word_of_nat [0 ..< length (room_chats r tr)]"
    using run_publishes_first_seqs [OF rel_empty ds(1), of r] chats_seqs [OF ds(2), of r]
      arg_cong [OF ids, of length]
    by (simp add: room_chats_def)
  show l: "rel (hub_ledger h) (\<lambda>r. room_log [] r (requests (handled tr)))"
    using run_publishes_log [OF rel_empty ds(1)] by simp
  show "room_ids_ok (map cm_client_message_id (room_chats r tr))"
    unfolding ids using rel_ok [OF l] by simp
qed

lemma hub_run_ack:
  assumes "hub_run accept pol v (hub_start empty_ledger) tr h" and "(r, ack, chat) \<in> set (handled tr)"
  shows "pa_client_message_id ack \<in> set (room_log [] r (requests (handled tr)))
    \<and> pa_seq ack = word_of_nat (index_of (pa_client_message_id ack) (room_log [] r (requests (handled tr))))"
proof -
  from hub_run_publishes [OF assms(1)] obtain ds where
    ds: "run_publishes accept empty_ledger (requests (handled tr)) = Some (ds, hub_ledger h)"
      "list_all2 answer_ok (handled tr) ds" by blast
  from assms(2) obtain i where i: "i < length (handled tr)" "handled tr ! i = (r, ack, chat)"
    by (auto simp: in_set_conv_nth)
  then have req: "i < length (requests (handled tr))"
      "requests (handled tr) ! i = (r, pa_client_message_id ack)"
    by (simp_all add: requests_def)
  have "answer_ok (r, ack, chat) (ds ! i)" using ds(2) i by (metis list_all2_nthD)
  then have "pa_seq ack = decision_seq (ds ! i)" by (cases chat) auto
  moreover have "(r, pa_client_message_id ack) \<in> set (requests (handled tr))"
    using req by (metis nth_mem)
  ultimately show ?thesis
    using run_publishes_seq [OF rel_empty ds(1) req] by (simp add: room_log_member)
qed

text \<open>A hub that handled fewer events than the counter can number answers every message.\<close>

lemma hub_step_exists:
  assumes "hub_run accept pol v (hub_start empty_ledger) tr h" and "length tr < 2 ^ 64 - 1"
  shows "\<exists>out h'. hub_step accept pol v h
      \<lparr>ev_conn = i, ev_clock = now, ev_session = hub_sessions h i, ev_msg = msg, ev_out = out\<rparr> h'"
proof -
  have "accept (hub_ledger h) r u \<noteq> None" for r u
  proof -
    let ?log = "room_log [] r (requests (handled tr))"
    have "length ?log \<le> length tr"
      using room_log_length [of "[]" r "requests (handled tr)"] length_handled [of tr]
      by (simp add: requests_def)
    with assms(2) have "spec_accept ?log u \<noteq> None" by (simp add: spec_accept_def)
    then show ?thesis using rel_accept [OF hub_run_log(4) [OF assms(1)]] by fastforce
  qed
  then have "handle_client_message (hub_sessions h i) msg pol (v now) accept (hub_ledger h) \<noteq> None"
    by (rule handle_returns)
  then show ?thesis by (auto intro: hub_step.message)
qed

end

section \<open>Who may publish\<close>

definition attached_by :: "attach_policy \<Rightarrow> (u64 \<Rightarrow> ticket_verifier) \<Rightarrow> nat \<Rightarrow> string \<Rightarrow> 'ts hub_event \<Rightarrow> bool" where
  "attached_by pol v i r ev \<longleftrightarrow> ev_conn ev = i \<and>
     (\<exists>a. ev_msg ev = MAttach a \<and> attach_in_range a \<and> att_protocol_major a = pol_supported_major pol
        \<and> v (ev_clock ev) (att_ticket a) = Inr r)"

lemma hub_run_attached:
  assumes "hub_run accept pol v (hub_start l0) tr h" and "hub_sessions h i = Attached r f l"
  shows "f = pol_max_frame_bytes pol \<and> l = pol_max_message_bytes pol
    \<and> (\<exists>ev \<in> set tr. attached_by pol v i r ev)"
  using assms
proof (induction arbitrary: i r f l rule: hub_run.induct)
  case start
  then show ?case by (simp add: hub_start_def)
next
  case (step tr h' ev h'')
  from step(2) obtain j now msg s' out l' where ev: "ev = \<lparr>ev_conn = j, ev_clock = now, ev_session = hub_sessions h' j,
        ev_msg = msg, ev_out = out\<rparr>" "h'' = \<lparr>hub_sessions = (hub_sessions h')(j := s'), hub_ledger = l'\<rparr>"
      "handle_client_message (hub_sessions h' j) msg pol (v now) accept (hub_ledger h') = Some (s', out, l')"
    by (cases rule: hub_stepE) auto
  show ?case
  proof (cases "hub_sessions h' i = Attached r f l")
    case True
    with step(3) show ?thesis by auto
  next
    case False
    with step(4) ev(2) have ij: "i = j" "s' = Attached r f l" by (auto split: if_splits)
    show ?thesis
    proof (cases "hub_sessions h' j")
      case AwaitingAttach
      with ev(3) ij(2) have "handle_client_message AwaitingAttach msg pol (v now) accept (hub_ledger h')
          = Some (Attached r f l, out, l')" by simp
      then obtain a ack where "msg = MAttach a" "accept_attach a pol (v now) = Inr ack"
          "Attached r f l = Attached (ack_room_id ack) (ack_max_frame_bytes ack) (ack_max_message_bytes ack)"
        by (rule handle_awaiting_attach) simp_all
      then have "f = pol_max_frame_bytes pol \<and> l = pol_max_message_bytes pol \<and> attached_by pol v i r ev"
        using ij(1) ev(1) by (auto simp: accept_attach_Inr_iff attached_by_def)
      then show ?thesis by auto
    next
      case (Attached r' f' k)
      have "s' = Attached r' f' k" by (rule handle_attached [OF ev(3) [unfolded Attached]])
      with ij Attached False show ?thesis by simp
    qed
  qed
qed

lemma hub_publish_session:
  assumes "hub_run accept pol v (hub_start l0) tr h" and "ev \<in> set tr" and "ev_out ev = PublishHandled ack chat"
  shows "\<exists>r. ev_session ev = Attached r (pol_max_frame_bytes pol) (pol_max_message_bytes pol)
    \<and> hub_sessions h (ev_conn ev) = ev_session ev"
proof -
  from split_list [OF assms(2)] obtain xs ys where "tr = (xs @ [ev]) @ ys" by auto
  with assms(1) obtain h1 where "hub_run accept pol v (hub_start l0) (xs @ [ev]) h1"
    using hub_run_splits by blast
  then obtain h0 where h0: "hub_run accept pol v (hub_start l0) xs h0" "hub_step accept pol v h0 ev h1"
    by (blast elim: hub_run_snocE)
  from h0(2) assms(3) obtain msg now s' l' where "ev_session ev = hub_sessions h0 (ev_conn ev)"
      "handle_client_message (hub_sessions h0 (ev_conn ev)) msg pol (v now) accept (hub_ledger h0)
        = Some (s', PublishHandled ack chat, l')"
    by (cases rule: hub_stepE) auto
  note seen = this
  then obtain r f l where s: "ev_session ev = Attached r f l" by (metis handle_publish_handled)
  then have "hub_sessions h0 (ev_conn ev) = Attached r f l" using seen(1) by simp
  from hub_run_attached [OF h0(1) this] s hub_run_session_of [OF assms(1,2)] show ?thesis by simp
qed

text \<open>
  Admission: a publish is only ever handled for a room after an earlier attach on the same
  stream whose ticket the verifier accepted for exactly that room, with the supported major.
\<close>

lemma hub_publish_needs_ticket:
  assumes "hub_run accept pol v (hub_start l0) (xs @ ev # ys) h"
    and "ev_out ev = PublishHandled ack chat"
  shows "\<exists>e \<in> set xs. attached_by pol v (ev_conn ev) (session_room (ev_session ev)) e"
proof -
  from hub_run_splits [where xs = "xs @ [ev]" and ys = ys] assms(1)
  obtain h1 where "hub_run accept pol v (hub_start l0) (xs @ [ev]) h1" by fastforce
  then obtain h0 where h0: "hub_run accept pol v (hub_start l0) xs h0" "hub_step accept pol v h0 ev h1"
    by (rule hub_run_snocE) auto
  from h0(2) assms(2) obtain i now msg s' l' where
    ev: "ev_conn ev = i" "ev_session ev = hub_sessions h0 i"
      "handle_client_message (hub_sessions h0 i) msg pol (v now) accept (hub_ledger h0)
        = Some (s', PublishHandled ack chat, l')"
    by (cases rule: hub_stepE) auto
  from ev(3) obtain r f l where "hub_sessions h0 i = Attached r f l" by (rule handle_publish_handled)
  with hub_run_attached [OF h0(1)] ev(1,2) show ?thesis by auto
qed

section \<open>A concrete run\<close>

text \<open>One client attaches to room \<open>r\<close>, publishes \<open>hi\<close> and retries.\<close>

definition demo_policy :: attach_policy where
  "demo_policy = single_major 1 7 1048576 65536 None"

definition demo_verifier :: "u64 \<Rightarrow> ticket_verifier" where
  "demo_verifier now t = Inr ''r''"

definition demo_ledger :: room_publish_state where
  "demo_ledger = \<lparr>rooms = [''r'' \<mapsto> \<lparr>next_seq = 1, by_client_id = [5 \<mapsto> 0]\<rparr>]\<rparr>"

definition demo_hub :: "room_publish_state \<Rightarrow> room_publish_state hub" where
  "demo_hub l = \<lparr>hub_sessions = (\<lambda>_. AwaitingAttach)(0 := Attached ''r'' 1048576 65536), hub_ledger = l\<rparr>"

definition demo_attach :: "unit hub_event" where
  "demo_attach = \<lparr>ev_conn = 0, ev_clock = 0, ev_session = AwaitingAttach,
     ev_msg = MAttach \<lparr>att_protocol_major = 1, att_protocol_minor = 0, att_ticket = ''t''\<rparr>,
     ev_out = Reply (MAttachAck \<lparr>ack_room_id = ''r'', ack_max_frame_bytes = 1048576,
       ack_max_message_bytes = 65536, ack_protocol_major = 1, ack_server_protocol_minor = 0,
       ack_keepalive_interval_seconds = None\<rparr>)\<rparr>"

definition demo_ack :: "unit publish_ack" where
  "demo_ack = \<lparr>pa_seq = 0, pa_client_message_id = 5, pa_server_timestamp = None\<rparr>"

definition demo_chat :: "unit wire_chat_message" where
  "demo_chat = \<lparr>cm_seq = 0, cm_client_message_id = 5, cm_text = ''hi'',
     cm_sender_endpoint_id = None, cm_server_timestamp = None\<rparr>"

definition demo_publish :: "unit wire_chat_message option \<Rightarrow> unit hub_event" where
  "demo_publish chat = \<lparr>ev_conn = 0, ev_clock = 0, ev_session = Attached ''r'' 1048576 65536,
     ev_msg = MPublish hi_publish, ev_out = PublishHandled demo_ack chat\<rparr>"

lemma demo_accept:
  "accept_or_replay room_publish_state_default ''r'' 5 = Some (FirstAcceptance 0, demo_ledger)"
  "accept_or_replay demo_ledger ''r'' 5 = Some (IdempotentReplay 0, demo_ledger)"
  by (simp_all add: accept_or_replay_def room_publish_state_default_def room_shard_default_def
      checked_add_one demo_ledger_def)

lemma demo_handles:
  "handle_client_message AwaitingAttach (ev_msg demo_attach) demo_policy (demo_verifier 0) accept l
     = Some (Attached ''r'' 1048576 65536, ev_out demo_attach, l)"
  "accept l ''r'' 5 = Some (d, l') \<Longrightarrow> decision_seq d = 0 \<Longrightarrow> chat = (if is_first d then Some demo_chat else None) \<Longrightarrow>
     handle_client_message (Attached ''r'' 1048576 65536) (MPublish hi_publish) demo_policy (demo_verifier 0) accept l
       = Some (Attached ''r'' 1048576 65536, PublishHandled demo_ack chat, l')"
  by (simp_all add: demo_attach_def demo_policy_def demo_verifier_def accept_attach_def
      validate_attach_preamble_eq attach_in_range_def U31_MAX_def hub_protocol_minor_ceiling_def
      single_major_def dispatch_publish_cases demo_ack_def demo_chat_def hi_publish_def)

lemma demo_step:
  "handle_client_message (hub_sessions h 0) msg demo_policy (demo_verifier 0) accept (hub_ledger h) = Some (s', out, l')
   \<Longrightarrow> ev = \<lparr>ev_conn = 0, ev_clock = 0, ev_session = hub_sessions h 0, ev_msg = msg, ev_out = out\<rparr>
   \<Longrightarrow> h' = \<lparr>hub_sessions = (hub_sessions h)(0 := s'), hub_ledger = l'\<rparr>
   \<Longrightarrow> hub_step accept demo_policy demo_verifier h ev h'"
  by (simp only: hub_step.message)

lemma demo_steps:
  "hub_step accept_or_replay demo_policy demo_verifier (hub_start room_publish_state_default)
     demo_attach (demo_hub room_publish_state_default)"
  "hub_step accept_or_replay demo_policy demo_verifier (demo_hub room_publish_state_default)
     (demo_publish (Some demo_chat)) (demo_hub demo_ledger)"
  "hub_step accept_or_replay demo_policy demo_verifier (demo_hub demo_ledger)
     (demo_publish None) (demo_hub demo_ledger)"
  using demo_handles(1) [of accept_or_replay room_publish_state_default]
    demo_handles(2) [of accept_or_replay, OF demo_accept(1)]
    demo_handles(2) [of accept_or_replay, OF demo_accept(2)]
  by (auto intro!: demo_step simp del: handle_client_message.simps
      simp: hub_start_def demo_hub_def demo_publish_def demo_attach_def)

lemma demo_run:
  "hub_run accept_or_replay demo_policy demo_verifier (hub_start room_publish_state_default)
     [demo_attach, demo_publish (Some demo_chat), demo_publish None] (demo_hub demo_ledger)"
  using hub_run.step [OF hub_run.step [OF hub_run.step [OF hub_run.start demo_steps(1)] demo_steps(2)]
      demo_steps(3)] by simp

lemma demo_handled:
  "handled [demo_attach, demo_publish (Some demo_chat), demo_publish None]
     = [(''r'', demo_ack, Some demo_chat), (''r'', demo_ack, None)]"
  "room_chats ''r'' [demo_attach, demo_publish (Some demo_chat), demo_publish None] = [demo_chat]"
  by (simp_all add: handled_def handled_of_def demo_attach_def demo_publish_def room_chats_def)

section \<open>Properties\<close>

text \<open>
  C3: Whatever streams and messages interleave, the chat messages fanned out in a room are
  numbered \<open>0, 1, 2, \<dots>\<close> without a gap, in that order, and no client message id twice; the
  numbers never wrap.
\<close>

theorem hub_room_order:
  assumes "hub_run accept_or_replay pol v (hub_start room_publish_state_default) tr h"
  shows "map cm_seq (room_chats r tr) = map word_of_nat [0 ..< length (room_chats r tr)]
    \<and> distinct (map cm_client_message_id (room_chats r tr))
    \<and> length (room_chats r tr) < 2 ^ 64"
  using in_memory.hub_run_log(2,3) [OF assms, of r] by (simp add: room_ids_ok_def)

theorem hub_room_order_witness:
  "map cm_seq [demo_chat] = map word_of_nat [0 ..< length [demo_chat]]
    \<and> distinct (map cm_client_message_id [demo_chat]) \<and> length [demo_chat] < 2 ^ 64"
  using hub_room_order [OF demo_run, of "''r''"] unfolding demo_handled .

text \<open>
  C2: Exactly once: for every acknowledged publish, a retry or not, exactly one chat message with
  its id is fanned out to the observers of its room, and the acknowledgement carries the sequence
  number of that message.
\<close>

theorem hub_exactly_once:
  assumes "hub_run accept_or_replay pol v (hub_start room_publish_state_default) tr h"
    and "(r, ack, chat) \<in> set (handled tr)"
  shows "\<exists>c. filter (\<lambda>c. cm_client_message_id c = pa_client_message_id ack) (room_chats r tr) = [c]
    \<and> cm_seq c = pa_seq ack"
proof -
  let ?cs = "room_chats r tr" and ?u = "pa_client_message_id ack"
  note log = in_memory.hub_run_log(1-3) [OF assms(1), of r]
  define k where "k = index_of ?u (map cm_client_message_id ?cs)"
  from in_memory.hub_run_ack [OF assms]
  have mem: "?u \<in> set (map cm_client_message_id ?cs)" and seq: "pa_seq ack = word_of_nat k"
    by (simp_all only: log(1) k_def)
  from mem have less: "k < length ?cs"
    using index_of_less_iff [of ?u "map cm_client_message_id ?cs"] by (simp add: k_def)
  moreover have "map cm_client_message_id ?cs ! k = ?u" unfolding k_def by (rule nth_index_of [OF mem])
  ultimately have k: "k < length ?cs" "cm_client_message_id (?cs ! k) = ?u" by simp_all
  have "map cm_seq ?cs ! k = map word_of_nat [0 ..< length ?cs] ! k" by (simp only: log(2))
  with k have "cm_seq (?cs ! k) = pa_seq ack" by (simp add: seq)
  moreover have "filter (\<lambda>c. cm_client_message_id c = ?u) ?cs = [?cs ! k]"
  proof (rule filter_unique)
    show "distinct (map cm_client_message_id ?cs)" using log(3) by (simp add: room_ids_ok_def)
  qed (use k in auto)
  ultimately show ?thesis by blast
qed

theorem hub_exactly_once_witness:
  "\<exists>c. filter (\<lambda>c. cm_client_message_id c = pa_client_message_id demo_ack) [demo_chat] = [c]
    \<and> cm_seq c = pa_seq demo_ack"
  using hub_exactly_once [OF demo_run, of "''r''" demo_ack None] unfolding demo_handled by simp

text \<open>
  One room per stream: in every interleaving all publishes handled on one stream go to the
  same room, under the hub's limits, and the stream is still attached there at the end.
\<close>

lemma hub_stream_has_one_room:
  assumes "hub_run accept pol v (hub_start l0) tr h"
    and "ev \<in> set tr" and "ev_out ev = PublishHandled ack chat"
    and "ev' \<in> set tr" and "ev_out ev' = PublishHandled ack' chat'" and "ev_conn ev' = ev_conn ev"
  shows "ev_session ev' = ev_session ev
    \<and> ev_session ev = Attached (session_room (ev_session ev)) (pol_max_frame_bytes pol) (pol_max_message_bytes pol)
    \<and> hub_sessions h (ev_conn ev) = ev_session ev"
  using hub_publish_session [OF assms(1,2,3)] hub_publish_session [OF assms(1,4,5)] assms(6) by auto

text \<open>
  C27: Progress: a hub that took fewer than \<open>2 ^ 64 - 1\<close> steps can handle every message on every
  stream; no interleaving leads to the ledger's panic before that.
\<close>

theorem hub_progress:
  assumes "hub_run accept_or_replay pol v (hub_start room_publish_state_default) tr h"
    and "length tr < 2 ^ 64 - 1"
  shows "\<exists>out h'. hub_step accept_or_replay pol v h
      \<lparr>ev_conn = i, ev_clock = now, ev_session = hub_sessions h i, ev_msg = msg, ev_out = out\<rparr> h'"
  using assms by (rule in_memory.hub_step_exists)

theorem hub_progress_witness:
  "\<exists>out h'. hub_step accept_or_replay demo_policy demo_verifier (demo_hub demo_ledger)
      \<lparr>ev_conn = 3, ev_clock = 5, ev_session = hub_sessions (demo_hub demo_ledger) 3, ev_msg = MDetach, ev_out = out\<rparr> h'"
  by (rule hub_progress [OF demo_run]) simp

end
