(* ===== verification/Standard_Json.thy ===== *)
theory Standard_Json
  imports Json_Value "HOL-Library.Char_ord" "HOL-Library.List_Lexorder"
begin

text \<open>
  An instance of the JSON part of the record \<open>deps\<close>: the compact printer and the parser of RFC 8259,
  with the choices \<^verbatim>\<open>serde_json\<close> documents (object keys in ascending order, the last of several
  equal keys counts, integers of 64 bits, lower-case hexadecimal in escapes). It models no file of
  the repository: it shows that the laws the codec relies on hold of the standard, and it lets the
  documents of the crate's tests run. Numbers with a fraction or an exponent and nesting limits are
  left out: such values are not printed and such documents not read.
\<close>

section \<open>Printing\<close>

abbreviation QUOTE :: char where "QUOTE \<equiv> CHR 0x22"
abbreviation BACKSLASH :: char where "BACKSLASH \<equiv> CHR 0x5C"

definition hex_char :: "nat \<Rightarrow> char" where
  "hex_char n = (if n < 10 then char_of (48 + n) else char_of (87 + n))"

definition escape_char :: "char \<Rightarrow> string" where
  "escape_char c =
     (if c = QUOTE then [BACKSLASH, QUOTE]
      else if c = BACKSLASH then [BACKSLASH, BACKSLASH]
      else if c = CHR 0x08 then [BACKSLASH, CHR ''b'']
      else if c = CHR 0x09 then [BACKSLASH, CHR ''t'']
      else if c = CHR 0x0A then [BACKSLASH, CHR ''n'']
      else if c = CHR 0x0C then [BACKSLASH, CHR ''f'']
      else if c = CHR 0x0D then [BACKSLASH, CHR ''r'']
      else if char_code c < 32
        then [BACKSLASH, CHR ''u'', CHR ''0'', CHR ''0'', hex_char (char_code c div 16), hex_char (char_code c mod 16)]
      else [c])"

definition json_escape :: "string \<Rightarrow> string" where
  "json_escape s = concat (map escape_char s)"

definition json_quote :: "string \<Rightarrow> string" where
  "json_quote s = QUOTE # json_escape s @ [QUOTE]"

fun commas :: "string list \<Rightarrow> string" where
  "commas [] = []"
| "commas [x] = x"
| "commas (x # y # xs) = x @ '','' @ commas (y # xs)"

fun print_number :: "json_number \<Rightarrow> string option" where
  "print_number (PosInt n) = Some (dec_of_nat (unat n))"
| "print_number (NegInt i) = (if i < 0 \<and> - (2 ^ 63) \<le> i then Some (''-'' @ dec_of_nat (nat (- i))) else None)"
| "print_number (Float f) = None"

definition print_elements :: "string option list \<Rightarrow> string option" where
  "print_elements ts = map_option (\<lambda>ts. ''['' @ commas ts @ '']'') (those ts)"

definition print_members :: "(string \<Rightarrow> string option option) \<Rightarrow> string option" where
  "print_members m =
     (if finite (dom m) \<and> (\<forall>k \<in> dom m. utf8_string k \<and> m k \<noteq> Some None)
      then Some (''{'' @ commas (map (\<lambda>k. json_quote k @ '':'' @ the (the (m k))) (sorted_list_of_set (dom m))) @ ''}'')
      else None)"

primrec json_print :: "json \<Rightarrow> string option" where
  "json_print JNull = Some ''null''"
| "json_print (JBool b) = Some (if b then ''true'' else ''false'')"
| "json_print (JNumber n) = print_number n"
| "json_print (JString s) = (if utf8_string s then Some (json_quote s) else None)"
| "json_print (JArray vs) = print_elements (map json_print vs)"
| "json_print (JObject m) = print_members (\<lambda>k. map_option json_print (m k))"

section \<open>Parsing\<close>

definition json_space :: "char \<Rightarrow> bool" where
  "json_space c \<longleftrightarrow> char_code c \<in> {9, 10, 13, 32}"

definition skip_space :: "string \<Rightarrow> string" where
  "skip_space s = dropWhile json_space s"

definition hex_digit_value :: "char \<Rightarrow> nat option" where
  "hex_digit_value c = (let n = char_code c in
     if 48 \<le> n \<and> n \<le> 57 then Some (n - 48)
     else if 97 \<le> n \<and> n \<le> 102 then Some (n - 87)
     else if 65 \<le> n \<and> n \<le> 70 then Some (n - 55) else None)"

fun hex_quad :: "string \<Rightarrow> (nat \<times> string) option" where
  "hex_quad (a # b # c # d # s) =
     (case (hex_digit_value a, hex_digit_value b, hex_digit_value c, hex_digit_value d) of
        (Some p, Some q, Some r, Some t) \<Rightarrow> Some (((p * 16 + q) * 16 + r) * 16 + t, s)
      | _ \<Rightarrow> None)"
| "hex_quad _ = None"

definition utf8_encode :: "nat \<Rightarrow> string" where
  "utf8_encode n = map char_of
     (if n < 0x80 then [n]
      else if n < 0x800 then [0xC0 + n div 0x40, 0x80 + n mod 0x40]
      else if n < 0x10000 then [0xE0 + n div 0x1000, 0x80 + n div 0x40 mod 0x40, 0x80 + n mod 0x40]
      else [0xF0 + n div 0x40000, 0x80 + n div 0x1000 mod 0x40, 0x80 + n div 0x40 mod 0x40, 0x80 + n mod 0x40])"

text \<open>A \<open>\u\<close> escape after its letter: one code point, or the two halves of a surrogate pair.\<close>

definition unicode_escape :: "string \<Rightarrow> (string \<times> string) option" where
  "unicode_escape s = (case hex_quad s of
     None \<Rightarrow> None
   | Some (n, r) \<Rightarrow>
       if 0xDC00 \<le> n \<and> n < 0xE000 then None
       else if 0xD800 \<le> n \<and> n < 0xDC00 then
         (case r of
            b # u # r' \<Rightarrow>
              if b = BACKSLASH \<and> u = CHR ''u'' then
                (case hex_quad r' of
                   Some (m, r'') \<Rightarrow>
                     if 0xDC00 \<le> m \<and> m < 0xE000
                     then Some (utf8_encode (0x10000 + (n - 0xD800) * 0x400 + (m - 0xDC00)), r'') else None
                 | None \<Rightarrow> None)
              else None
          | _ \<Rightarrow> None)
       else Some (utf8_encode n, r))"

definition simple_escape :: "char \<Rightarrow> char option" where
  "simple_escape c =
     (if c = QUOTE \<or> c = BACKSLASH \<or> c = CHR ''/'' then Some c
      else if c = CHR ''b'' then Some (CHR 0x08)
      else if c = CHR ''t'' then Some (CHR 0x09)
      else if c = CHR ''n'' then Some (CHR 0x0A)
      else if c = CHR ''f'' then Some (CHR 0x0C)
      else if c = CHR ''r'' then Some (CHR 0x0D)
      else None)"

text \<open>The rest of a string literal after its opening quote, with fuel for its characters.\<close>

fun string_body :: "nat \<Rightarrow> string \<Rightarrow> (string \<times> string) option" where
  "string_body (Suc n) (c # s) =
     (if c = QUOTE then Some ([], s)
      else if c = BACKSLASH then
        (case s of
           [] \<Rightarrow> None
         | e # s' \<Rightarrow>
             (case simple_escape e of
                Some d \<Rightarrow> map_option (apfst ((#) d)) (string_body n s')
              | None \<Rightarrow>
                  if e = CHR ''u'' then
                    (case unicode_escape s' of
                       Some (t, s'') \<Rightarrow> map_option (apfst ((@) t)) (string_body n s'')
                     | None \<Rightarrow> None)
                  else None))
      else if char_code c < 32 then None
      else map_option (apfst ((#) c)) (string_body n s))"
| "string_body _ _ = None"

definition string_literal :: "string \<Rightarrow> (string \<times> string) option" where
  "string_literal s = string_body (length s) s"

definition number_goes_on :: "string \<Rightarrow> bool" where
  "number_goes_on s \<longleftrightarrow> (case s of [] \<Rightarrow> False
     | c # _ \<Rightarrow> is_ascii_digit c \<or> c = CHR ''.'' \<or> c = CHR ''e'' \<or> c = CHR ''E'')"

definition parse_digits :: "string \<Rightarrow> (nat \<times> string) option" where
  "parse_digits s =
     (let d = takeWhile is_ascii_digit s; r = dropWhile is_ascii_digit s
      in if d = [] \<or> (hd d = CHR ''0'' \<and> tl d \<noteq> []) \<or> number_goes_on r then None else Some (nat_of_dec d, r))"

definition parse_number :: "string \<Rightarrow> (json \<times> string) option" where
  "parse_number s =
     (if s \<noteq> [] \<and> hd s = CHR ''-'' then
        (case parse_digits (tl s) of
           None \<Rightarrow> None
         | Some (n, r) \<Rightarrow> if 0 < n \<and> n \<le> 2 ^ 63 then Some (JNumber (NegInt (- int n)), r) else None)
      else
        (case parse_digits s of
           None \<Rightarrow> None
         | Some (n, r) \<Rightarrow> if n < 2 ^ 64 then Some (JNumber (PosInt (word_of_nat n)), r) else None))"

fun json_value :: "nat \<Rightarrow> string \<Rightarrow> (json \<times> string) option"
and json_elements :: "nat \<Rightarrow> string \<Rightarrow> (json list \<times> string) option"
and json_members :: "nat \<Rightarrow> string \<Rightarrow> ((string \<times> json) list \<times> string) option" where
  "json_value 0 s = None"
| "json_value (Suc n) s =
     (case skip_space s of
        [] \<Rightarrow> None
      | c # r \<Rightarrow>
          if c = QUOTE then map_option (apfst JString) (string_literal r)
          else if c = CHR ''['' then
            (case skip_space r of
               [] \<Rightarrow> None
             | d # r' \<Rightarrow> if d = CHR '']'' then Some (JArray [], r') else map_option (apfst JArray) (json_elements n r))
          else if c = CHR ''{'' then
            (case skip_space r of
               [] \<Rightarrow> None
             | d # r' \<Rightarrow> if d = CHR ''}'' then Some (JObject Map.empty, r')
                 else map_option (apfst (\<lambda>kvs. JObject (map_of (rev kvs)))) (json_members n r))
          else if take 4 (c # r) = ''null'' then Some (JNull, drop 3 r)
          else if take 4 (c # r) = ''true'' then Some (JBool True, drop 3 r)
          else if take 5 (c # r) = ''false'' then Some (JBool False, drop 4 r)
          else parse_number (c # r))"
| "json_elements 0 s = None"
| "json_elements (Suc n) s =
     (case json_value n s of
        None \<Rightarrow> None
      | Some (v, r) \<Rightarrow>
          (case skip_space r of
             [] \<Rightarrow> None
           | c # r' \<Rightarrow>
               if c = CHR '']'' then Some ([v], r')
               else if c = CHR '','' then map_option (apfst ((#) v)) (json_elements n r')
               else None))"
| "json_members 0 s = None"
| "json_members (Suc n) s =
     (case skip_space s of
        [] \<Rightarrow> None
      | q # r \<Rightarrow>
          if q = QUOTE then
            (case string_literal r of
               None \<Rightarrow> None
             | Some (k, r) \<Rightarrow>
                 (case skip_space r of
                    [] \<Rightarrow> None
                  | c # r \<Rightarrow>
                      if c = CHR '':'' then
                        (case json_value n r of
                           None \<Rightarrow> None
                         | Some (v, r) \<Rightarrow>
                             (case skip_space r of
                                [] \<Rightarrow> None
                              | c # r \<Rightarrow>
                                  if c = CHR ''}'' then Some ([(k, v)], r)
                                  else if c = CHR '','' then map_option (apfst ((#) (k, v))) (json_members n r)
                                  else None))
                      else None))
          else None)"

definition json_parse :: "string \<Rightarrow> json option" where
  "json_parse s =
     (case json_value (Suc (length s)) s of
        Some (v, r) \<Rightarrow> if skip_space r = [] then Some v else None
      | None \<Rightarrow> None)"

section \<open>What is printed is read back\<close>

lemma hex_digit_value_char: "n < 16 \<Longrightarrow> hex_digit_value (hex_char n) = Some n"
  by (auto simp: hex_digit_value_def hex_char_def Let_def)

lemma char_cases_below_32:
  assumes "char_code c < 32"
  shows "unicode_escape (CHR ''0'' # CHR ''0'' # hex_char (char_code c div 16) # hex_char (char_code c mod 16) # r) = Some ([c], r)"
  using assms
  by (simp add: unicode_escape_def hex_digit_value_char) (simp add: hex_digit_value_def utf8_encode_def)

lemma string_body_char:
  "string_body (Suc n) (escape_char c @ s) = map_option (apfst ((#) c)) (string_body n s)"
proof (cases "c \<in> {QUOTE, BACKSLASH, CHR 0x08, CHR 0x09, CHR 0x0A, CHR 0x0C, CHR 0x0D}")
  case True
  then show ?thesis by (auto simp: escape_char_def simple_escape_def)
next
  case plain: False
  show ?thesis
  proof (cases "char_code c < 32")
    case True
    with plain have "escape_char c = [BACKSLASH, CHR ''u'', CHR ''0'', CHR ''0'',
        hex_char (char_code c div 16), hex_char (char_code c mod 16)]"
      by (simp add: escape_char_def)
    with char_cases_below_32 [OF True] show ?thesis
      by (simp add: simple_escape_def apfst_def map_prod_def)
  next
    case False
    with plain show ?thesis by (simp add: escape_char_def)
  qed
qed

lemma string_body_escape: "length s < n \<Longrightarrow> string_body n (json_escape s @ QUOTE # r) = Some (s, r)"
proof (induction s arbitrary: n)
  case Nil
  then show ?case by (cases n) (simp_all add: json_escape_def)
next
  case (Cons c s)
  then obtain m where "n = Suc m" "length s < m" by (cases n) auto
  with Cons.IH [of m] string_body_char [of m c "json_escape s @ QUOTE # r"] show ?case
    by (simp add: json_escape_def)
qed

lemma length_escape_char: "1 \<le> length (escape_char c)" "length (escape_char c) \<le> 6"
  by (auto simp: escape_char_def)

lemma length_json_escape: "length s \<le> length (json_escape s)" "length (json_escape s) \<le> 6 * length s"
proof (induction s)
  case (Cons c s)
  with length_escape_char [of c]
  show "length (c # s) \<le> length (json_escape (c # s))" "length (json_escape (c # s)) \<le> 6 * length (c # s)"
    by (simp_all add: json_escape_def)
qed (simp_all add: json_escape_def)

lemma string_literal_quote: "string_literal (json_escape s @ QUOTE # r) = Some (s, r)"
  using length_json_escape(1) [of s] by (simp add: string_literal_def string_body_escape)

lemma parse_digits_dec:
  assumes "\<not> number_goes_on r"
  shows "parse_digits (dec_of_nat n @ r) = Some (n, r)"
proof -
  have stop: "takeWhile is_ascii_digit r = []" "dropWhile is_ascii_digit r = r"
    using assms by (cases r; simp add: number_goes_on_def)+
  have "takeWhile is_ascii_digit (dec_of_nat n @ r) = dec_of_nat n" "dropWhile is_ascii_digit (dec_of_nat n @ r) = r"
    using dec_of_nat_digits [of _ n] stop by (simp_all add: takeWhile_append dropWhile_append)
  moreover have "hd (dec_of_nat n) \<noteq> CHR ''0'' \<or> tl (dec_of_nat n) = []"
    using canonical_dec_of_nat [of n] by (auto simp: canonical_dec_def)
  ultimately show ?thesis using assms by (auto simp: parse_digits_def)
qed

lemma parse_print_number:
  assumes "print_number x = Some t" and "\<not> number_goes_on r"
  shows "parse_number (t @ r) = Some (JNumber x, r)"
proof (cases x)
  case (PosInt n)
  have "hd (dec_of_nat (unat n) @ r) \<noteq> CHR ''-''"
    using dec_of_nat_digits [of "hd (dec_of_nat (unat n))" "unat n"]
    by (simp add: is_ascii_digit_def) auto
  with assms PosInt parse_digits_dec [of r "unat n"] unsigned_less [of n, where 'a = nat] show ?thesis
    by (auto simp: parse_number_def)
next
  case (NegInt i)
  with assms parse_digits_dec [of r "nat (- i)"] show ?thesis
    by (auto simp: parse_number_def split: if_splits)
qed (use assms in auto)


lemma skip_space_stop: "\<not> json_space c \<Longrightarrow> skip_space (c # s) = c # s"
  by (simp add: skip_space_def)

lemma json_space_codes: "json_space c \<longleftrightarrow> c \<in> {CHR 0x09, CHR 0x0A, CHR 0x0D, CHR '' ''}"
  by (auto simp: json_space_def code_inject [symmetric])

lemma print_number_start:
  assumes "print_number x = Some t"
  shows "\<exists>c u. t = c # u \<and> (is_ascii_digit c \<or> c = CHR ''-'')"
proof -
  have "\<exists>c u. dec_of_nat n = c # u \<and> is_ascii_digit c" for n
    using dec_of_nat_digits [of "hd (dec_of_nat n)" n] by (cases "dec_of_nat n") auto
  with assms show ?thesis by (cases x) (fastforce split: if_splits)+
qed

lemma digit_starts_number:
  "is_ascii_digit c \<or> c = CHR ''-'' \<Longrightarrow> \<not> json_space c \<and> c \<notin> {QUOTE, CHR ''['', CHR '']'', CHR ''{'', CHR ''}'',
     CHR ''n'', CHR ''t'', CHR ''f''}"
  by (auto simp: json_space_def is_ascii_digit_def)

text \<open>The first character of a printed value tells it from the ends of arrays and objects.\<close>

lemma json_print_start:
  assumes "json_print v = Some t"
  shows "t \<noteq> [] \<and> \<not> json_space (hd t) \<and> hd t \<noteq> CHR '']'' \<and> hd t \<noteq> CHR ''}''"
proof (cases v)
  case (JNumber x)
  with assms obtain c u where "t = c # u" "is_ascii_digit c \<or> c = CHR ''-''"
    using print_number_start [of x t] by auto
  with digit_starts_number [of c] show ?thesis by simp
next
  case JNull
  with assms have "t = ''null''" by simp
  then show ?thesis by (simp add: json_space_codes)
next
  case (JBool b)
  with assms have "t = ''true'' \<or> t = ''false''" by (auto split: if_splits)
  then show ?thesis by (auto simp: json_space_codes)
next
  case (JString s)
  with assms have "t = json_quote s" by (simp split: if_splits)
  then show ?thesis by (simp add: json_quote_def json_space_codes)
next
  case (JArray vs)
  with assms obtain u where "t = CHR ''['' # u" by (auto simp: print_elements_def)
  then show ?thesis by (simp add: json_space_codes)
next
  case (JObject m)
  with assms obtain u where "t = CHR ''{'' # u" by (auto simp: print_members_def split: if_splits)
  then show ?thesis by (simp add: json_space_codes)
qed

lemma json_value_number:
  assumes "print_number x = Some t" and "\<not> number_goes_on r"
  shows "json_value (Suc n) (t @ r) = Some (JNumber x, r)"
proof -
  from assms(1) obtain c u where c: "t = c # u" "is_ascii_digit c \<or> c = CHR ''-''"
    using print_number_start by blast
  then have "skip_space (t @ r) = t @ r"
    using digit_starts_number [of c] by (simp add: skip_space_stop)
  moreover note digit_starts_number [OF c(2)]
  ultimately show ?thesis
    using parse_print_number [OF assms] c(1) by simp
qed

text \<open>A value's text is read back in front of any text that does not continue a number.\<close>

abbreviation reads :: "json \<Rightarrow> string \<Rightarrow> bool" where
  "reads v t \<equiv> \<forall>n r. length t < n \<longrightarrow> \<not> number_goes_on r \<longrightarrow> json_value n (t @ r) = Some (v, r)"

lemma json_elements_commas:
  assumes "list_all2 reads vs ts" and "vs \<noteq> []" and "length (commas ts) + 1 < n"
  shows "json_elements n (commas ts @ CHR '']'' # r) = Some (vs, r)"
  using assms
proof (induction vs ts arbitrary: n rule: list_all2_induct)
  case (Cons v vs t ts)
  then obtain m where n: "n = Suc m" "0 < m" by (cases n) auto
  show ?case
  proof (cases ts)
    case Nil
    with Cons n have "json_value m (t @ CHR '']'' # r) = Some (v, CHR '']'' # r)"
      by (simp add: number_goes_on_def is_ascii_digit_def)
    with Cons.hyps n Nil show ?thesis by (simp add: skip_space_stop json_space_def)
  next
    case (Cons u us)
    let ?r = "commas ts @ CHR '']'' # r"
    from Cons Cons.prems n have len: "length t < m" "length (commas ts) + 1 < m" by simp_all
    then have "json_value m (t @ CHR '','' # ?r) = Some (v, CHR '','' # ?r)"
      using Cons.hyps by (simp add: number_goes_on_def is_ascii_digit_def)
    moreover have "json_elements m ?r = Some (vs, r)"
      using Cons.IH [OF _ len(2)] Cons.hyps Cons by auto
    ultimately show ?thesis using Cons n by (simp add: skip_space_stop json_space_def)
  qed
qed simp

lemma json_members_commas:
  assumes "list_all (\<lambda>k. reads (f k) (g k)) ks" and "ks \<noteq> []"
    and "length (commas (map (\<lambda>k. json_quote k @ '':'' @ g k) ks)) + 1 < n"
  shows "json_members n (commas (map (\<lambda>k. json_quote k @ '':'' @ g k) ks) @ CHR ''}'' # r)
    = Some (map (\<lambda>k. (k, f k)) ks, r)"
  using assms
proof (induction ks arbitrary: n)
  case (Cons k ks)
  then obtain m where n: "n = Suc m" "0 < m" by (cases n) auto
  have quote: "json_quote k @ CHR '':'' # s = QUOTE # json_escape k @ QUOTE # CHR '':'' # s" for s
    by (simp add: json_quote_def)
  have colon: "skip_space (CHR '':'' # s) = CHR '':'' # s" "skip_space (QUOTE # s) = QUOTE # s"
    "skip_space (CHR '','' # s) = CHR '','' # s" "skip_space (CHR ''}'' # s) = CHR ''}'' # s" for s
    by (simp_all add: skip_space_stop json_space_def)
  show ?case
  proof (cases ks)
    case Nil
    with Cons n have "json_value m (g k @ CHR ''}'' # r) = Some (f k, CHR ''}'' # r)"
      by (simp add: number_goes_on_def is_ascii_digit_def json_quote_def)
    with n Nil show ?thesis by (simp add: quote colon string_literal_quote)
  next
    case (Cons k' ks')
    let ?cs = "commas (map (\<lambda>k. json_quote k @ '':'' @ g k) ks)"
    let ?r = "?cs @ CHR ''}'' # r"
    from Cons Cons.prems n have len: "length (g k) < m" "length ?cs + 1 < m" by (simp_all add: json_quote_def)
    then have "json_value m (g k @ CHR '','' # ?r) = Some (f k, CHR '','' # ?r)"
      using Cons.prems(1) by (simp add: number_goes_on_def is_ascii_digit_def)
    moreover have "json_members m ?r = Some (map (\<lambda>k. (k, f k)) ks, r)"
      using Cons.IH [OF _ _ len(2)] Cons.prems Cons by auto
    ultimately show ?thesis using Cons n by (simp add: quote colon string_literal_quote)
  qed
qed simp

lemma those_list_all2: "those xs = Some ys \<longleftrightarrow> list_all2 (\<lambda>x y. x = Some y) xs ys"
proof (induction xs arbitrary: ys)
  case (Cons x xs)
  then show ?case by (cases ys; cases x) (auto split: option.splits)
qed auto

lemma print_members_Some:
  assumes "print_members (\<lambda>k. map_option json_print (m k)) = Some t"
  obtains (members) "finite (dom m)" "\<And>k. k \<in> dom m \<Longrightarrow> utf8_string k \<and> json_print (the (m k)) = Some (the (json_print (the (m k))))"
    "t = ''{'' @ commas (map (\<lambda>k. json_quote k @ '':'' @ the (json_print (the (m k)))) (sorted_list_of_set (dom m))) @ ''}''"
proof -
  have dom: "dom (\<lambda>k. map_option json_print (m k)) = dom m" by (auto simp: dom_def)
  with assms have fin: "finite (dom m)"
    and vals: "\<And>k. k \<in> dom m \<Longrightarrow> utf8_string k \<and> map_option json_print (m k) \<noteq> Some None"
    and t: "t = ''{'' @ commas (map (\<lambda>k. json_quote k @ '':'' @ the (the (map_option json_print (m k))))
      (sorted_list_of_set (dom m))) @ ''}''"
    by (simp_all add: print_members_def split: if_splits)
  have vals': "utf8_string k \<and> json_print (the (m k)) = Some (the (json_print (the (m k))))" if "k \<in> dom m" for k
    using vals [OF that] that by auto
  have eq: "map (\<lambda>k. json_quote k @ '':'' @ the (the (map_option json_print (m k)))) (sorted_list_of_set (dom m))
      = map (\<lambda>k. json_quote k @ '':'' @ the (json_print (the (m k)))) (sorted_list_of_set (dom m))"
    using fin by (auto simp: dom_def)
  show thesis by (rule members [OF fin vals' t [unfolded eq]])
qed

lemma map_of_members: "finite (dom m) \<Longrightarrow> map_of (rev (map (\<lambda>k. (k, the (m k))) (sorted_list_of_set (dom m)))) = m"
  by (auto simp: rev_map map_of_map_restrict restrict_map_def intro!: ext) (metis option.collapse domIff)

lemma reads_SucI: "(\<And>n r. \<not> number_goes_on r \<Longrightarrow> json_value (Suc n) (t @ r) = Some (v, r)) \<Longrightarrow> reads v t"
  by (metis Suc_pred gr_zeroI less_nat_zero_code)

lemma json_value_print: "json_print v = Some t \<Longrightarrow> reads v t"
proof (induction v arbitrary: t)
  case (JNumber x)
  then show ?case by (intro reads_SucI) (simp add: json_value_number del: json_value.simps)
next
  case (JString s)
  then have "t = json_quote s" by (simp split: if_splits)
  then show ?case
    by (intro reads_SucI) (simp add: json_quote_def skip_space_stop json_space_def string_literal_quote)
next
  case (JArray vs)
  then obtain ts where ts: "those (map json_print vs) = Some ts" "t = ''['' @ commas ts @ '']''"
    by (auto simp: print_elements_def)
  then have all: "list_all2 (\<lambda>v t. json_print v = Some t) vs ts" by (simp add: those_list_all2 list.rel_map)
  then have "list_all2 reads vs ts" using JArray.IH by (auto intro: list.rel_mono_strong)
  show ?case
  proof (intro allI impI)
    fix n r assume n: "length t < n"
    then obtain k where k: "n = Suc k" "length (commas ts) + 1 < k" using ts(2) by (cases n) auto
    show "json_value n (t @ r) = Some (JArray vs, r)"
    proof (cases vs)
      case Nil
      with all ts k show ?thesis by (simp add: skip_space_stop json_space_def)
    next
      case (Cons v vs')
      with all obtain u us where u: "ts = u # us" "json_print v = Some u" by (auto simp: list_all2_Cons1)
      from json_print_start [OF u(2)] obtain c w where c: "u = c # w" "\<not> json_space c" "c \<noteq> CHR '']''"
        by (cases u) auto
      have "\<exists>w'. commas ts = c # w'" using u(1) c(1) by (cases us) auto
      with c obtain w' where "skip_space (commas ts @ CHR '']'' # r) = c # w'" by (auto simp: skip_space_stop)
      with c json_elements_commas [OF \<open>list_all2 reads vs ts\<close> _ k(2), of r] Cons k(1) ts(2) show ?thesis
        by (simp add: skip_space_stop json_space_def)
    qed
  qed
next
  case (JObject m)
  then have "print_members (\<lambda>k. map_option json_print (m k)) = Some t" by simp
  then show ?case
  proof (rule print_members_Some)
    let ?f = "\<lambda>k. the (m k)" and ?g = "\<lambda>k. the (json_print (the (m k)))"
    let ?ks = "sorted_list_of_set (dom m)"
    let ?cs = "commas (map (\<lambda>k. json_quote k @ '':'' @ ?g k) ?ks)"
    assume fin: "finite (dom m)"
      and vals: "\<And>k. k \<in> dom m \<Longrightarrow> utf8_string k \<and> json_print (?f k) = Some (?g k)"
      and t: "t = ''{'' @ ?cs @ ''}''"
    have all: "list_all (\<lambda>k. reads (?f k) (?g k)) ?ks"
      unfolding list_all_iff set_sorted_list_of_set [OF fin]
    proof
      fix k assume "k \<in> dom m"
      with vals [OF this] show "reads (?f k) (?g k)" by (intro JObject.IH [of "m k"]) auto
    qed
    show "reads (JObject m) t"
    proof (intro allI impI)
      fix n r assume n: "length t < n"
      then obtain k where k: "n = Suc k" "length ?cs + 1 < k" using t by (cases n) auto
      show "json_value n (t @ r) = Some (JObject m, r)"
      proof (cases ?ks)
        case Nil
        then have "m = Map.empty" using fin by (simp add: sorted_list_of_set_eq_Nil_iff)
        with k t show ?thesis by (simp add: skip_space_stop json_space_def)
      next
        case (Cons x xs)
        have "\<exists>w. ?cs = QUOTE # w" unfolding Cons by (cases xs) (simp_all add: json_quote_def)
        then obtain w where "skip_space (?cs @ CHR ''}'' # r) = QUOTE # w" "skip_space (CHR ''{'' # ?cs @ CHR ''}'' # r) = CHR ''{'' # ?cs @ CHR ''}'' # r"
          by (auto simp: skip_space_stop json_space_def)
        with json_members_commas [OF all _ k(2), of r] Cons map_of_members [OF fin] k(1) t show ?thesis
          by simp
      qed
    qed
  qed
next
  case JNull
  then show ?case by (intro reads_SucI) (auto simp: skip_space_stop json_space_def)
next
  case (JBool b)
  then show ?case by (intro reads_SucI) (auto simp: skip_space_stop json_space_def)
qed

lemma json_parse_print: "json_print v = Some t \<Longrightarrow> json_parse t = Some v"
  using json_value_print [of v t, rule_format, of "Suc (length t)" "[]"]
  by (simp add: json_parse_def number_goes_on_def skip_space_def)


section \<open>The text is one line of UTF-8\<close>

lemma utf8_step_cases:
  assumes "utf8_step bs = Some n"
  obtains (one) b r where "bs = b # r" "n = 1" "b < 0x80"
    | (two) b c r where "bs = b # c # r" "n = 2" "\<not> b < 0x80" "0xC2 \<le> b \<and> b \<le> 0xDF" "utf8_cont c"
    | (three) b c d r where "bs = b # c # d # r" "n = 3" "\<not> b < 0x80" "\<not> (0xC2 \<le> b \<and> b \<le> 0xDF)"
        "0xE0 \<le> b \<and> b \<le> 0xEF" "utf8_second b c" "utf8_cont d"
    | (four) b c d e r where "bs = b # c # d # e # r" "n = 4" "\<not> b < 0x80" "\<not> (0xC2 \<le> b \<and> b \<le> 0xDF)"
        "\<not> (0xE0 \<le> b \<and> b \<le> 0xEF)" "0xF0 \<le> b \<and> b \<le> 0xF4" "utf8_second b c" "utf8_cont d" "utf8_cont e"
  using assms by (auto simp: utf8_step_def split: list.splits if_splits)

lemma utf8_step_take: "utf8_step bs = Some n \<Longrightarrow> utf8_step (take n bs) = Some n"
  by (elim utf8_step_cases) (auto simp: utf8_step_def)

lemma utf8_second_high: "utf8_second b c \<Longrightarrow> 0x80 \<le> c"
  by (auto simp: utf8_second_def utf8_cont_def word_le_nat_alt split: if_splits)

lemma utf8_step_octets: "utf8_step bs = Some n \<Longrightarrow> n = 1 \<and> hd bs < 0x80 \<or> (\<forall>b \<in> set (take n bs). 0x80 \<le> b)"
proof (erule utf8_step_cases)
  fix b c r assume "bs = b # c # r" "n = 2" "\<not> b < 0x80" "utf8_cont c"
  then show ?thesis by (simp add: utf8_cont_def leI)
next
  fix b c d r assume "bs = b # c # d # r" "n = 3" "\<not> b < 0x80" "utf8_second b c" "utf8_cont d"
  then show ?thesis by (simp add: utf8_cont_def leI utf8_second_high)
next
  fix b c d e r assume "bs = b # c # d # e # r" "n = 4" "\<not> b < 0x80" "utf8_second b c" "utf8_cont d" "utf8_cont e"
  then show ?thesis by (simp add: utf8_cont_def leI utf8_second_high)
qed simp

lemma escape_char_high:
  assumes "128 \<le> char_code c"
  shows "escape_char c = [c]"
proof -
  have "\<not> char_code c < 32" "c \<notin> {QUOTE, BACKSLASH, CHR 0x08, CHR 0x09, CHR 0x0A, CHR 0x0C, CHR 0x0D}"
    using assms by auto
  then show ?thesis by (simp add: escape_char_def)
qed

lemma hex_char_code: "n < 16 \<Longrightarrow> char_code (hex_char n) \<in> {48..57} \<union> {97..102}"
  by (auto simp: hex_char_def)

lemma escape_char_ascii: "char_code c < 128 \<Longrightarrow> d \<in> set (escape_char c) \<Longrightarrow> 32 \<le> char_code d \<and> char_code d < 128"
proof -
  assume c: "char_code c < 128" and d: "d \<in> set (escape_char c)"
  then have "char_code c div 16 < 16" "char_code c mod 16 < 16" by auto
  from hex_char_code [OF this(1)] hex_char_code [OF this(2)]
  have "char_code (hex_char (char_code c div 16)) \<in> {32..<128}" "char_code (hex_char (char_code c mod 16)) \<in> {32..<128}"
    by auto
  with c d show ?thesis by (auto simp: escape_char_def split: if_splits)
qed

lemma utf8_escape_bytes: "utf8_valid bs \<Longrightarrow> utf8_string (json_escape (string_of_bytes bs))"
proof (induction bs rule: utf8_valid.induct)
  case (1 bs)
  show ?case
  proof (cases "bs = []")
    case False
    with "1.prems" obtain n where n: "utf8_step bs = Some n" "utf8_valid (drop n bs)"
      by (subst (asm) utf8_valid.simps) (auto split: option.splits)
    let ?p = "string_of_bytes (take n bs)"
    have "utf8_string (json_escape ?p)"
      using utf8_step_octets [OF n(1)]
    proof
      assume h: "n = 1 \<and> hd bs < 0x80"
      with False have "take n bs = [hd bs]" by (cases bs) auto
      with h show ?thesis
        by (intro utf8_string_ascii)
          (auto simp: json_escape_def string_of_bytes_def char_of_byte_def word_less_nat_alt dest: escape_char_ascii [rotated])
    next
      assume h: "\<forall>b \<in> set (take n bs). 0x80 \<le> b"
      have "concat (map escape_char s) = s" if "\<forall>c \<in> set s. 128 \<le> char_code c" for s
        using that by (induction s) (simp_all add: escape_char_high)
      moreover have "\<forall>c \<in> set ?p. 128 \<le> char_code c"
        using h by (auto simp: string_of_bytes_def char_of_byte_def word_le_nat_alt)
      ultimately have "json_escape ?p = ?p" by (simp add: json_escape_def)
      moreover have "utf8_valid (take n bs)"
        using utf8_valid_step [OF utf8_step_take [OF n(1)]] by simp
      ultimately show ?thesis by (simp add: utf8_string_def)
    qed
    moreover have "json_escape (string_of_bytes bs) = json_escape ?p @ json_escape (string_of_bytes (drop n bs))"
      by (subst append_take_drop_id [symmetric, of bs n])
        (simp add: json_escape_def string_of_bytes_def del: append_take_drop_id)
    ultimately show ?thesis using "1.IH" [OF False n] by (simp add: utf8_string_append)
  qed (simp add: json_escape_def)
qed

definition text_line :: "string \<Rightarrow> bool" where
  "text_line t \<longleftrightarrow> utf8_string t \<and> (\<forall>c \<in> set t. 32 \<le> char_code c)"

lemma text_line_append: "text_line s \<Longrightarrow> text_line t \<Longrightarrow> text_line (s @ t)"
  by (auto simp: text_line_def utf8_string_append)

lemma text_line_ascii: "\<forall>c \<in> set t. 32 \<le> char_code c \<and> char_code c < 128 \<Longrightarrow> text_line t"
  by (simp add: text_line_def utf8_string_ascii)

lemma text_line_escape: "utf8_string s \<Longrightarrow> text_line (json_escape s)"
proof -
  assume "utf8_string s"
  then have "utf8_string (json_escape s)"
    using utf8_escape_bytes [of "as_bytes s"] by (simp add: utf8_string_def)
  moreover have "32 \<le> char_code d" if "d \<in> set (escape_char c)" for c d
    using that escape_char_ascii [of c d] escape_char_high [of c] by (cases "char_code c < 128") auto
  ultimately show ?thesis by (auto simp: text_line_def json_escape_def)
qed

lemma text_line_quote: "utf8_string s \<Longrightarrow> text_line (json_quote s)"
  using text_line_append [OF text_line_append [OF text_line_ascii [of "[QUOTE]"] text_line_escape] text_line_ascii [of "[QUOTE]"]]
  by (simp add: json_quote_def)

lemma text_line_commas: "list_all text_line ts \<Longrightarrow> text_line (commas ts)"
proof (induction ts rule: commas.induct)
  case (3 x y xs)
  then show ?case
    using text_line_append [of x "'','' @ commas (y # xs)"] text_line_append [of "'',''" "commas (y # xs)"]
      text_line_ascii [of "'',''"] by simp
qed (simp_all add: text_line_ascii)

lemma json_print_line: "json_print v = Some t \<Longrightarrow> text_line t"
proof (induction v arbitrary: t)
  case (JNumber x)
  have "text_line (dec_of_nat n)" for n
    by (rule text_line_ascii) (auto simp: is_ascii_digit_def dest: dec_of_nat_digits)
  moreover have "text_line ''-''" by (rule text_line_ascii) simp
  ultimately show ?case
    using JNumber text_line_append [of "''-''"] by (cases x) (auto split: if_splits)
next
  case (JString s)
  then show ?case by (auto simp: text_line_quote split: if_splits)
next
  case (JArray vs)
  then obtain ts where ts: "list_all2 (\<lambda>v t. json_print v = Some t) vs ts" "t = ''['' @ commas ts @ '']''"
    by (auto simp: print_elements_def those_list_all2 list.rel_map)
  have "list_all text_line ts"
    using ts(1) JArray.IH by (auto simp: list_all2_conv_all_nth list_all_length) (metis nth_mem)
  from text_line_append [OF text_line_append [OF text_line_ascii text_line_commas [OF this]] text_line_ascii, of "''[''" "'']''"]
  show ?case by (simp add: ts(2))
next
  case (JObject m)
  then have "print_members (\<lambda>k. map_option json_print (m k)) = Some t" by simp
  then show ?case
  proof (rule print_members_Some)
    let ?g = "\<lambda>k. the (json_print (the (m k)))"
    assume fin: "finite (dom m)"
      and vals: "\<And>k. k \<in> dom m \<Longrightarrow> utf8_string k \<and> json_print (the (m k)) = Some (?g k)"
      and t: "t = ''{'' @ commas (map (\<lambda>k. json_quote k @ '':'' @ ?g k) (sorted_list_of_set (dom m))) @ ''}''"
    have "text_line (json_quote k @ '':'' @ ?g k)" if k: "k \<in> dom m" for k
    proof -
      have "text_line (?g k)" using vals [OF k] k by (intro JObject.IH [of "m k" "the (m k)"]) auto
      then show ?thesis
        using vals [OF k] by (intro text_line_append text_line_quote text_line_ascii [of "'':''"]) auto
    qed
    with fin have "list_all text_line (map (\<lambda>k. json_quote k @ '':'' @ ?g k) (sorted_list_of_set (dom m)))"
      by (auto simp: list_all_iff)
    from text_line_append [OF text_line_append [OF text_line_ascii text_line_commas [OF this]] text_line_ascii, of "''{''" "''}''"]
    show ?thesis by (simp add: t)
  qed
qed (auto intro!: text_line_ascii split: if_splits)


section \<open>Evaluation on given keys\<close>

lemma utf8_string_ascii_Cons: "char_code c < 128 \<Longrightarrow> utf8_string (c # s) \<longleftrightarrow> utf8_string s"
  by (simp add: utf8_string_def as_bytes_def utf8_valid_ascii_Cons word_less_nat_alt)

lemma json_print_object:
  assumes "sorted_wrt (<) ks" and "dom m = set ks" and "list_all utf8_string ks"
    and "list_all2 (\<lambda>k t. map_option json_print (m k) = Some (Some t)) ks ts"
  shows "json_print (JObject m) = Some (''{'' @ commas (map2 (\<lambda>k t. json_quote k @ '':'' @ t) ks ts) @ ''}'')"
proof -
  let ?pm = "\<lambda>k. map_option json_print (m k)"
  have dom: "dom ?pm = set ks" using assms(2) by (auto simp: dom_def)
  have "sorted_list_of_set (set ks) = ks"
    using assms(1) by (simp add: sorted_list_of_set.idem_if_sorted_distinct strict_sorted_iff)
  moreover have "map (\<lambda>k. json_quote k @ '':'' @ the (the (?pm k))) ks = map2 (\<lambda>k t. json_quote k @ '':'' @ t) ks ts"
    using assms(4) by induction (simp_all del: map_option_eq_Some)
  moreover have "utf8_string k \<and> ?pm k \<noteq> Some None" if "k \<in> set ks" for k
    using that assms(3,4) by (auto simp: list_all_iff list_all2_conv_all_nth in_set_conv_nth)
  ultimately show ?thesis by (simp add: print_members_def dom)
qed

end
