(* ===== verification/Standard_Crypto.thy ===== *)
theory Standard_Crypto
  imports Reference_Ticket
begin

text \<open>
  An instance of the record \<open>crypto\<close> by the published algorithms the ticket code names: base64url
  without padding (RFC 4648), HMAC (RFC 2104) with SHA-256 (FIPS 180-4) and the hyphenated text of
  a UUID (RFC 4122). It models no file of the repository: it shows that \<open>crypto_ok\<close>, the
  hypothesis of the ticket properties, holds of the real algorithms, and it lets the ticket
  vectors run. Words are natural numbers below \<open>2 ^ 32\<close>, octets in the codec below 256.
\<close>

unbundle bit_operations_syntax

section \<open>SHA-256\<close>

definition add32 :: "nat \<Rightarrow> nat \<Rightarrow> nat" where
  "add32 x y = take_bit 32 (x + y)"

definition rot_right :: "nat \<Rightarrow> nat \<Rightarrow> nat" where
  "rot_right n x = drop_bit n x OR push_bit (32 - n) (take_bit n x)"

definition big_sigma0 :: "nat \<Rightarrow> nat" where
  "big_sigma0 x = rot_right 2 x XOR rot_right 13 x XOR rot_right 22 x"

definition big_sigma1 :: "nat \<Rightarrow> nat" where
  "big_sigma1 x = rot_right 6 x XOR rot_right 11 x XOR rot_right 25 x"

definition small_sigma0 :: "nat \<Rightarrow> nat" where
  "small_sigma0 x = rot_right 7 x XOR rot_right 18 x XOR drop_bit 3 x"

definition small_sigma1 :: "nat \<Rightarrow> nat" where
  "small_sigma1 x = rot_right 17 x XOR rot_right 19 x XOR drop_bit 10 x"

definition sha_choose :: "nat \<Rightarrow> nat \<Rightarrow> nat \<Rightarrow> nat" where
  "sha_choose x y z = (x AND y) XOR ((4294967295 - x) AND z)"

definition sha_majority :: "nat \<Rightarrow> nat \<Rightarrow> nat \<Rightarrow> nat" where
  "sha_majority x y z = (x AND y) XOR (x AND z) XOR (y AND z)"

datatype sha_state = Sha nat nat nat nat nat nat nat nat

definition round_constants :: "nat list" where
  "round_constants = [
     1116352408, 1899447441, 3049323471, 3921009573, 961987163, 1508970993, 2453635748,
     2870763221, 3624381080, 310598401, 607225278, 1426881987, 1925078388, 2162078206,
     2614888103, 3248222580, 3835390401, 4022224774, 264347078, 604807628, 770255983,
     1249150122, 1555081692, 1996064986, 2554220882, 2821834349, 2952996808, 3210313671,
     3336571891, 3584528711, 113926993, 338241895, 666307205, 773529912, 1294757372,
     1396182291, 1695183700, 1986661051, 2177026350, 2456956037, 2730485921, 2820302411,
     3259730800, 3345764771, 3516065817, 3600352804, 4094571909, 275423344, 430227734,
     506948616, 659060556, 883997877, 958139571, 1322822218, 1537002063, 1747873779,
     1955562222, 2024104815, 2227730452, 2361852424, 2428436474, 2756734187, 3204031479,
     3329325298]"

definition initial_state :: sha_state where
  "initial_state = Sha 1779033703 3144134277 1013904242 2773480762 1359893119 2600822924 528734635 1541459225"

fun shift_in :: "nat \<Rightarrow> nat \<Rightarrow> sha_state \<Rightarrow> sha_state" where
  "shift_in t1 t2 (Sha a b c d e f g h) = Sha (add32 t1 t2) a b c (add32 d t1) e f g"

fun sha_round :: "nat \<Rightarrow> sha_state \<Rightarrow> sha_state" where
  "sha_round kw (Sha a b c d e f g h) =
     shift_in (add32 (add32 h (big_sigma1 e)) (add32 (sha_choose e f g) kw)) (add32 (big_sigma0 a) (sha_majority a b c))
       (Sha a b c d e f g h)"

text \<open>The message schedule as a window of sixteen words.\<close>

definition next_word :: "nat list \<Rightarrow> nat" where
  "next_word w = add32 (add32 (small_sigma1 (w ! 14)) (w ! 9)) (add32 (small_sigma0 (w ! 1)) (w ! 0))"

fun sha_rounds :: "nat list \<Rightarrow> nat list \<Rightarrow> sha_state \<Rightarrow> sha_state" where
  "sha_rounds [] w s = s"
| "sha_rounds (k # ks) w s = sha_rounds ks (tl w @ [next_word w]) (sha_round (add32 k (hd w)) s)"

fun add_state :: "sha_state \<Rightarrow> sha_state \<Rightarrow> sha_state" where
  "add_state (Sha a b c d e f g h) (Sha a' b' c' d' e' f' g' h') =
     Sha (add32 a a') (add32 b b') (add32 c c') (add32 d d') (add32 e e') (add32 f f') (add32 g g') (add32 h h')"

definition sha_block :: "nat list \<Rightarrow> sha_state \<Rightarrow> sha_state" where
  "sha_block w s = add_state s (sha_rounds round_constants w s)"

fun words_of :: "bytes \<Rightarrow> nat list" where
  "words_of (a # b # c # d # bs) = (((unat a * 256 + unat b) * 256 + unat c) * 256 + unat d) # words_of bs"
| "words_of _ = []"

function sha_blocks :: "nat list \<Rightarrow> sha_state \<Rightarrow> sha_state" where
  "sha_blocks ws s = (if ws = [] then s else sha_blocks (drop 16 ws) (sha_block (take 16 ws) s))"
  by pat_completeness auto
termination
  by (relation "measure (length \<circ> fst)") auto

declare sha_blocks.simps [simp del]

definition sha_pad :: "bytes \<Rightarrow> bytes" where
  "sha_pad m = m @ [0x80] @ replicate ((119 - length m mod 64) mod 64) 0 @ be_of_nat 8 (8 * length m)"

fun digest :: "sha_state \<Rightarrow> bytes" where
  "digest (Sha a b c d e f g h) = concat (map (be_of_nat 4) [a, b, c, d, e, f, g, h])"

definition sha256 :: "bytes \<Rightarrow> bytes" where
  "sha256 m = digest (sha_blocks (words_of (sha_pad m)) initial_state)"

lemma length_sha256 [simp]: "length (sha256 m) = 32"
  by (cases "sha_blocks (words_of (sha_pad m)) initial_state") (simp add: sha256_def)

section \<open>HMAC\<close>

definition hmac_key :: "bytes \<Rightarrow> bytes" where
  "hmac_key k = (let k = (if 64 < length k then sha256 k else k) in k @ replicate (64 - length k) 0)"

definition hmac :: "bytes \<Rightarrow> bytes \<Rightarrow> bytes" where
  "hmac k m = sha256 (map (\<lambda>b. b XOR 0x5C) (hmac_key k) @ sha256 (map (\<lambda>b. b XOR 0x36) (hmac_key k) @ m))"

lemma length_hmac [simp]: "length (hmac k m) = 32"
  by (simp add: hmac_def)

section \<open>Base64url\<close>

definition sextet_char :: "nat \<Rightarrow> char" where
  "sextet_char n = (if n < 26 then char_of (65 + n) else if n < 52 then char_of (71 + n)
     else if n < 62 then char_of (n - 4) else if n = 62 then CHR ''-'' else CHR ''_'')"

definition char_sextet :: "nat \<Rightarrow> nat option" where
  "char_sextet c = (if 65 \<le> c \<and> c \<le> 90 then Some (c - 65) else if 97 \<le> c \<and> c \<le> 122 then Some (c - 71)
     else if 48 \<le> c \<and> c \<le> 57 then Some (c + 4) else if c = 45 then Some 62 else if c = 95 then Some 63
     else None)"

fun to_sextets :: "nat list \<Rightarrow> nat list" where
  "to_sextets [] = []"
| "to_sextets [a] = [a div 4, (a mod 4) * 16]"
| "to_sextets [a, b] = [a div 4, (a mod 4) * 16 + b div 16, (b mod 16) * 4]"
| "to_sextets (a # b # c # r) =
     [a div 4, (a mod 4) * 16 + b div 16, (b mod 16) * 4 + c div 64, c mod 64] @ to_sextets r"

fun of_sextets :: "nat list \<Rightarrow> nat list option" where
  "of_sextets [] = Some []"
| "of_sextets [p] = None"
| "of_sextets [p, q] = (if q mod 16 = 0 then Some [p * 4 + q div 16] else None)"
| "of_sextets [p, q, r] = (if r mod 4 = 0 then Some [p * 4 + q div 16, (q mod 16) * 16 + r div 4] else None)"
| "of_sextets (p # q # r # s # t) =
     map_option (\<lambda>bs. [p * 4 + q div 16, (q mod 16) * 16 + r div 4, (r mod 4) * 64 + s] @ bs) (of_sextets t)"

definition base64url_encode :: "bytes \<Rightarrow> string" where
  "base64url_encode bs = map sextet_char (to_sextets (map unat bs))"

definition base64url_decode :: "bytes \<Rightarrow> bytes option" where
  "base64url_decode s =
     (case those (map (\<lambda>b. char_sextet (unat b)) s) of
        None \<Rightarrow> None
      | Some ss \<Rightarrow> map_option (map word_of_nat) (of_sextets ss))"

section \<open>UUID text\<close>

definition hex_digit :: "nat \<Rightarrow> char" where
  "hex_digit n = (if n < 10 then char_of (48 + n) else char_of (87 + n))"

definition hex :: "bytes \<Rightarrow> string" where
  "hex bs = concat (map (\<lambda>b. [hex_digit (unat b div 16), hex_digit (unat b mod 16)]) bs)"

definition hex_value :: "char \<Rightarrow> nat option" where
  "hex_value c = (let n = of_char c in if 48 \<le> n \<and> n \<le> 57 then Some (n - 48)
     else if 97 \<le> n \<and> n \<le> 102 then Some (n - 87) else None)"

fun unhex :: "string \<Rightarrow> bytes option" where
  "unhex [] = Some []"
| "unhex [c] = None"
| "unhex (c # d # s) =
     (case (hex_value c, hex_value d, unhex s) of
        (Some h, Some l, Some bs) \<Rightarrow> Some (word_of_nat (16 * h + l) # bs)
      | _ \<Rightarrow> None)"

definition hyphenated :: "uuid \<Rightarrow> string" where
  "hyphenated u = (let h = hex (be_of_nat 16 (unat u))
     in take 8 h @ ''-'' @ take 4 (drop 8 h) @ ''-'' @ take 4 (drop 12 h) @ ''-'' @ take 4 (drop 16 h)
        @ ''-'' @ drop 20 h)"

section \<open>The instance\<close>

definition standard_crypto :: crypto where
  "standard_crypto = \<lparr>b64url_encode = base64url_encode, b64url_decode = base64url_decode,
     hmac_sha256_mac = hmac, ct_eq = (=), uuid_text = hyphenated\<rparr>"

lemma char_sextet_char: "n < 64 \<Longrightarrow> char_sextet (of_char (sextet_char n)) = Some n"
  by (auto simp: char_sextet_def sextet_char_def of_char_of)

lemma sextet_char_sextet: "char_sextet m = Some n \<Longrightarrow> n < 64 \<and> sextet_char n = char_of m"
  by (auto simp: char_sextet_def sextet_char_def char_of_def bit_Suc_0_iff split: if_splits)

lemma to_sextets_less: "\<forall>b \<in> set bs. b < 256 \<Longrightarrow> \<forall>n \<in> set (to_sextets bs). n < 64"
  by (induction bs rule: to_sextets.induct) auto

lemma of_to_sextets: "\<forall>b \<in> set bs. b < 256 \<Longrightarrow> of_sextets (to_sextets bs) = Some bs"
  by (induction bs rule: to_sextets.induct) auto

lemma of_sextets_less: "of_sextets ns = Some bs \<Longrightarrow> \<forall>n \<in> set ns. n < 64 \<Longrightarrow> \<forall>b \<in> set bs. b < 256"
  by (induction ns arbitrary: bs rule: of_sextets.induct) (auto split: if_splits)

lemma to_of_sextets: "of_sextets ns = Some bs \<Longrightarrow> \<forall>n \<in> set ns. n < 64 \<Longrightarrow> to_sextets bs = ns"
  by (induction ns arbitrary: bs rule: of_sextets.induct) (auto split: if_splits)

lemma char_sextets_map:
  assumes "\<forall>n \<in> set ns. n < 64"
  shows "those (map (\<lambda>b. char_sextet (unat b)) (as_bytes (map sextet_char ns))) = Some ns"
  using assms by (induction ns) (auto simp: as_bytes_def char_sextet_char)

lemma sextets_char_map:
  "those (map (\<lambda>b. char_sextet (unat b)) (as_bytes s)) = Some ns \<Longrightarrow>
     (\<forall>n \<in> set ns. n < 64) \<and> map sextet_char ns = s"
proof (induction s arbitrary: ns)
  case (Cons c s)
  then obtain n ns' where "char_sextet (of_char c) = Some n" "ns = n # ns'"
    "those (map (\<lambda>b. char_sextet (unat b)) (as_bytes s)) = Some ns'"
    by (auto simp: as_bytes_def split: option.splits)
  with Cons.IH [of ns'] sextet_char_sextet [of "of_char c" n] show ?case by simp
qed (simp add: as_bytes_def)

lemma base64url_alphabet: "n < 64 \<Longrightarrow> is_base64url_byte (byte_of_char (sextet_char n))"
proof -
  assume "n < 64"
  then have "\<forall>n \<in> set [0..<64]. is_base64url_byte (byte_of_char (sextet_char n)) \<Longrightarrow> ?thesis" by simp
  moreover have "\<forall>n \<in> set [0..<64]. is_base64url_byte (byte_of_char (sextet_char n))"
    by (simp add: upt_rec sextet_char_def is_base64url_byte_def byte_of_char_def)
  ultimately show ?thesis by blast
qed

lemma word_of_nat_unats: "map (word_of_nat :: nat \<Rightarrow> u8) (map unat bs) = bs"
  by (simp add: comp_def)

lemma unat_words_of_nat: "\<forall>b \<in> set bs. b < 256 \<Longrightarrow> map unat (map (word_of_nat :: nat \<Rightarrow> u8) bs) = bs"
  by (induction bs) (auto simp: unat_of_nat)

lemma standard_crypto_ok: "crypto_ok standard_crypto"
proof -
  have small: "\<forall>b \<in> set (map unat bs). b < 256" for bs :: bytes by simp
  note six = to_sextets_less [OF small]
  have "base64url_decode (as_bytes (base64url_encode bs)) = Some bs" for bs
    using char_sextets_map [OF six [of bs]] of_to_sextets [OF small [of bs]]
    by (simp add: base64url_decode_def base64url_encode_def word_of_nat_unats del: map_map)
  moreover have "base64url_encode bs = s" if "base64url_decode (as_bytes s) = Some bs" for s bs
  proof -
    from that obtain ns ds where ns: "those (map (\<lambda>b. char_sextet (unat b)) (as_bytes s)) = Some ns"
      "of_sextets ns = Some ds" "bs = map word_of_nat ds"
      by (auto simp: base64url_decode_def split: option.splits)
    from sextets_char_map [OF ns(1)] have less: "\<forall>n \<in> set ns. n < 64" and s: "map sextet_char ns = s" by auto
    from unat_words_of_nat [OF of_sextets_less [OF ns(2) less]] to_of_sextets [OF ns(2) less] s show ?thesis
      by (simp add: base64url_encode_def ns(3) del: map_map)
  qed
  moreover have "is_base64url_byte b" if "b \<in> set (as_bytes (base64url_encode bs))" for b bs
    using that six [of bs] by (auto simp: base64url_encode_def as_bytes_def intro: base64url_alphabet)
  ultimately show ?thesis by (simp add: crypto_ok_def standard_crypto_def)
qed

end
