(* ===== verification/Standard_Text.thy ===== *)
theory Standard_Text
  imports Standard_Crypto Json_Value "HOL-Library.Monad_Syntax"
begin

text \<open>
  The other fields of the record \<open>deps\<close> by their standards: the text of a UUID (RFC 4122, parsed in
  either case, printed in lower case), timestamps (RFC 3339 with nanoseconds and an offset in
  minutes) and \<open>{:?}\<close> of an ASCII string. Each text that is printed is read back.
\<close>

section \<open>UUID\<close>

definition parse_hyphenated :: "string \<Rightarrow> uuid option" where
  "parse_hyphenated s =
     (if length s = 36 \<and> (\<forall>i \<in> {8, 13, 18, 23}. s ! i = CHR ''-'') then
        map_option (\<lambda>bs. word_of_nat (nat_of_be bs))
          (unhex (to_ascii_lowercase (take 8 s @ take 4 (drop 9 s) @ take 4 (drop 14 s) @ take 4 (drop 19 s) @ drop 24 s)))
      else None)"

lemma hex_value_digit: "n < 16 \<Longrightarrow> hex_value (hex_digit n) = Some n"
  by (auto simp: hex_value_def hex_digit_def Let_def)

lemma lower_hex_digit: "n < 16 \<Longrightarrow> ascii_lower (hex_digit n) = hex_digit n"
  by (auto simp: ascii_lower_def hex_digit_def)

lemma length_hex [simp]: "length (hex bs) = 2 * length bs"
  by (induction bs) (simp_all add: hex_def)

lemma octet_halves: "unat (b :: u8) div 16 < 16" "unat (b :: u8) mod 16 < 16"
  by (simp_all add: less_mult_imp_div_less)

lemma lower_hex: "to_ascii_lowercase (hex bs) = hex bs"
  by (induction bs) (simp_all add: hex_def to_ascii_lowercase_def lower_hex_digit octet_halves)

lemma unhex_hex: "unhex (hex bs) = Some bs"
  by (induction bs) (simp_all add: hex_def hex_value_digit octet_halves)

lemma parse_hyphenated_text: "parse_hyphenated (hyphenated u) = Some u"
proof -
  define h where "h = hex (be_of_nat 16 (unat u))"
  have len: "length h = 32" by (simp add: h_def)
  let ?t = "take 8 h @ ''-'' @ take 4 (drop 8 h) @ ''-'' @ take 4 (drop 12 h) @ ''-'' @ take 4 (drop 16 h) @ ''-'' @ drop 20 h"
  have t: "hyphenated u = ?t" by (simp add: hyphenated_def h_def Let_def)
  have cat: "take 8 h @ take 4 (drop 8 h) @ take 4 (drop 12 h) @ take 4 (drop 16 h) @ drop 20 h = h"
    by (simp add: take_add [symmetric] flip: append_assoc)
  have parts: "length ?t = 36" "\<forall>i \<in> {8, 13, 18, 23}. ?t ! i = CHR ''-''"
    "take 8 ?t = take 8 h" "take 4 (drop 9 ?t) = take 4 (drop 8 h)" "take 4 (drop 14 ?t) = take 4 (drop 12 h)"
    "take 4 (drop 19 ?t) = take 4 (drop 16 h)" "drop 24 ?t = drop 20 h"
    using len by (simp_all add: nth_append)
  have "nat_of_be (be_of_nat 16 (unat u)) = unat u"
    using unsigned_less [of u, where 'a = nat] by (simp add: nat_of_be_of_nat)
  with parts cat show ?thesis
    unfolding t by (simp add: parse_hyphenated_def cat h_def lower_hex unhex_hex)
qed


lemma length_hyphenated: "length (hyphenated u) = 36"
  by (simp add: hyphenated_def Let_def)

lemma hex_digit_code: "n < 16 \<Longrightarrow> char_code (hex_digit n) < 128"
  by (simp add: hex_digit_def)

lemma utf8_hyphenated: "utf8_string (hyphenated u)"
proof (rule utf8_string_ascii, rule ballI)
  fix c assume c: "c \<in> set (hyphenated u)"
  have "char_code d < 128" if "d \<in> set (hex bs)" for d bs
    using that by (induction bs) (auto simp: hex_def hex_digit_code octet_halves)
  with c show "char_code c < 128"
    by (auto simp: hyphenated_def Let_def dest!: in_set_takeD in_set_dropD)
qed

section \<open>Timestamps\<close>

record timestamp =
  ts_year :: nat
  ts_month :: nat
  ts_day :: nat
  ts_hour :: nat
  ts_minute :: nat
  ts_second :: nat
  ts_nano :: nat
  ts_offset :: int

definition leap_year :: "nat \<Rightarrow> bool" where
  "leap_year y \<longleftrightarrow> y mod 4 = 0 \<and> (y mod 100 \<noteq> 0 \<or> y mod 400 = 0)"

definition days_in_month :: "nat \<Rightarrow> nat \<Rightarrow> nat" where
  "days_in_month y m = (if m = 2 then (if leap_year y then 29 else 28) else if m \<in> {4, 6, 9, 11} then 30 else 31)"

definition timestamp_valid :: "timestamp \<Rightarrow> bool" where
  "timestamp_valid t \<longleftrightarrow> ts_year t \<le> 9999 \<and> 1 \<le> ts_month t \<and> ts_month t \<le> 12
     \<and> 1 \<le> ts_day t \<and> ts_day t \<le> days_in_month (ts_year t) (ts_month t)
     \<and> ts_hour t < 24 \<and> ts_minute t < 60 \<and> ts_second t < 60 \<and> ts_nano t < 10 ^ 9 \<and> \<bar>ts_offset t\<bar> < 1440"

fun dec_fixed :: "nat \<Rightarrow> nat \<Rightarrow> string" where
  "dec_fixed 0 n = []"
| "dec_fixed (Suc w) n = dec_fixed w (n div 10) @ [digit_char (n mod 10)]"

definition format_fraction :: "nat \<Rightarrow> string" where
  "format_fraction n = (if n = 0 then [] else CHR ''.'' # rev (dropWhile ((=) CHR ''0'') (rev (dec_fixed 9 n))))"

definition format_offset :: "int \<Rightarrow> string" where
  "format_offset off = (if off = 0 then ''Z'' else
     (if off < 0 then CHR ''-'' else CHR ''+'') # dec_fixed 2 (nat \<bar>off\<bar> div 60) @ '':'' @ dec_fixed 2 (nat \<bar>off\<bar> mod 60))"

definition format_timestamp :: "timestamp \<Rightarrow> string option" where
  "format_timestamp t = (if timestamp_valid t then Some
     (dec_fixed 4 (ts_year t) @ ''-'' @ dec_fixed 2 (ts_month t) @ ''-'' @ dec_fixed 2 (ts_day t) @ ''T''
      @ dec_fixed 2 (ts_hour t) @ '':'' @ dec_fixed 2 (ts_minute t) @ '':'' @ dec_fixed 2 (ts_second t)
      @ format_fraction (ts_nano t) @ format_offset (ts_offset t)) else None)"

definition parse_fixed :: "nat \<Rightarrow> string \<Rightarrow> (nat \<times> string) option" where
  "parse_fixed w s = (if w \<le> length s \<and> list_all is_ascii_digit (take w s)
     then Some (nat_of_dec (take w s), drop w s) else None)"

fun expect :: "char \<Rightarrow> string \<Rightarrow> string option" where
  "expect c [] = None"
| "expect c (d # s) = (if c = d then Some s else None)"

definition parse_fraction :: "string \<Rightarrow> (nat \<times> string) option" where
  "parse_fraction s = (if s \<noteq> [] \<and> hd s = CHR ''.'' then
       (let d = takeWhile is_ascii_digit (tl s); r = dropWhile is_ascii_digit (tl s)
        in if d = [] then None else Some (nat_of_dec (take 9 (d @ replicate 9 CHR ''0'')), r))
     else Some (0, s))"

definition parse_offset :: "string \<Rightarrow> int option" where
  "parse_offset s = (if s = ''Z'' then Some 0 else case s of
       [] \<Rightarrow> None
     | c # r \<Rightarrow> do {
         (h, r) \<leftarrow> parse_fixed 2 r;
         r \<leftarrow> expect CHR '':'' r;
         (m, r) \<leftarrow> parse_fixed 2 r;
         if r = [] \<and> m < 60 then
           (if c = CHR ''+'' then Some (int (h * 60 + m)) else if c = CHR ''-'' then Some (- int (h * 60 + m)) else None)
         else None })"

definition parse_timestamp :: "string \<Rightarrow> timestamp option" where
  "parse_timestamp s = do {
     (y, s) \<leftarrow> parse_fixed 4 s;
     s \<leftarrow> expect CHR ''-'' s;
     (m, s) \<leftarrow> parse_fixed 2 s;
     s \<leftarrow> expect CHR ''-'' s;
     (d, s) \<leftarrow> parse_fixed 2 s;
     s \<leftarrow> expect CHR ''T'' s;
     (h, s) \<leftarrow> parse_fixed 2 s;
     s \<leftarrow> expect CHR '':'' s;
     (mi, s) \<leftarrow> parse_fixed 2 s;
     s \<leftarrow> expect CHR '':'' s;
     (sec, s) \<leftarrow> parse_fixed 2 s;
     (nano, s) \<leftarrow> parse_fraction s;
     off \<leftarrow> parse_offset s;
     let t = \<lparr>ts_year = y, ts_month = m, ts_day = d, ts_hour = h, ts_minute = mi, ts_second = sec,
       ts_nano = nano, ts_offset = off\<rparr>;
     if timestamp_valid t then Some t else None }"

lemma length_dec_fixed [simp]: "length (dec_fixed w n) = w"
  by (induction w arbitrary: n) simp_all

lemma dec_fixed_numeral: "dec_fixed (numeral k) n = dec_fixed (pred_numeral k) (n div 10) @ [digit_char (n mod 10)]"
  by (subst numeral_eq_Suc) (rule dec_fixed.simps(2))

lemma dec_fixed_digits: "list_all is_ascii_digit (dec_fixed w n)"
  by (induction w arbitrary: n) simp_all

lemma nat_of_dec_fixed: "n < 10 ^ w \<Longrightarrow> nat_of_dec (dec_fixed w n) = n"
proof (induction w arbitrary: n)
  case (Suc w)
  then have "n div 10 < 10 ^ w" by (simp add: less_mult_imp_div_less mult.commute)
  with Suc.IH [of "n div 10"] show ?case by simp
qed simp

lemma parse_dec_fixed: "n < 10 ^ w \<Longrightarrow> parse_fixed w (dec_fixed w n @ r) = Some (n, r)"
  by (simp add: parse_fixed_def dec_fixed_digits nat_of_dec_fixed)

lemma strip_zeros:
  obtains k where "k \<le> length s" "s = rev (dropWhile ((=) CHR ''0'') (rev s)) @ replicate k CHR ''0''"
proof -
  let ?z = "takeWhile ((=) CHR ''0'') (rev s)"
  have z: "?z = replicate (length ?z) CHR ''0''"
    by (metis (mono_tags, lifting) replicate_eqI set_takeWhileD)
  have "rev s = ?z @ dropWhile ((=) CHR ''0'') (rev s)" by simp
  then have "s = rev (dropWhile ((=) CHR ''0'') (rev s)) @ rev ?z" by (metis rev_append rev_rev_ident)
  moreover have "rev ?z = replicate (length ?z) CHR ''0''" using z by (metis rev_replicate)
  ultimately show thesis using that [of "length ?z"] length_takeWhile_le [of _ "rev s"] by simp
qed

lemma parse_format_fraction:
  assumes "n < 10 ^ 9" and "\<not> (r \<noteq> [] \<and> is_ascii_digit (hd r))" and "\<not> (r \<noteq> [] \<and> hd r = CHR ''.'')"
  shows "parse_fraction (format_fraction n @ r) = Some (n, r)"
proof (cases "n = 0")
  case False
  define d where "d = rev (dropWhile ((=) CHR ''0'') (rev (dec_fixed 9 n)))"
  obtain k where k: "k \<le> 9" "dec_fixed 9 n = d @ replicate k CHR ''0''"
    using strip_zeros [of "dec_fixed 9 n"] by (auto simp: d_def)
  have dig: "list_all is_ascii_digit d" using dec_fixed_digits [of 9 n] by (simp add: k(2))
  have "length d + k = 9" using arg_cong [OF k(2), of length] by simp
  then have pad: "take 9 (d @ replicate 9 CHR ''0'') = dec_fixed 9 n" by (auto simp: k(2) min_def)
  have "d \<noteq> []"
  proof
    assume "d = []"
    then have "nat_of_dec (dec_fixed 9 n) = nat_of_dec (replicate k CHR ''0'')" by (simp add: k(2))
    moreover have "nat_of_dec (replicate k CHR ''0'') = 0"
      by (induction k) (simp, unfold replicate_Suc replicate_append_same [symmetric], simp add: digit_val_def)
    ultimately show False using False nat_of_dec_fixed [OF assms(1)] by simp
  qed
  have "takeWhile is_ascii_digit (d @ r) = d" "dropWhile is_ascii_digit (d @ r) = r"
    using dig assms(2) by (cases r; simp add: list_all_iff takeWhile_append dropWhile_append)+
  with \<open>d \<noteq> []\<close> False pad show ?thesis
    by (simp add: parse_fraction_def format_fraction_def d_def [symmetric] nat_of_dec_fixed [OF assms(1)])
qed (use assms in \<open>auto simp: parse_fraction_def format_fraction_def\<close>)

lemma parse_format_offset:
  assumes "\<bar>off\<bar> < 1440"
  shows "parse_offset (format_offset off) = Some off"
proof (cases "off = 0")
  case False
  define n where "n = nat \<bar>off\<bar>"
  have n: "n div 60 < 10 ^ 2" "n mod 60 < 10 ^ 2" "n div 60 * 60 + n mod 60 = n" using assms by (auto simp: n_def)
  have "int n = \<bar>off\<bar>" by (simp add: n_def)
  then show ?thesis
    using False parse_dec_fixed [OF n(1), of "'':'' @ dec_fixed 2 (n mod 60)"] parse_dec_fixed [OF n(2), of "[]"] n(3)
    by (auto simp: parse_offset_def format_offset_def n_def [symmetric])
qed (simp add: parse_offset_def format_offset_def)

lemma format_offset_start: "hd (format_offset off) \<in> {CHR ''Z'', CHR ''-'', CHR ''+''}"
  by (simp add: format_offset_def)

theorem parse_format_timestamp: "format_timestamp t = Some s \<Longrightarrow> parse_timestamp s = Some t"
proof -
  assume "format_timestamp t = Some s"
  then have t: "timestamp_valid t"
    and s: "s = dec_fixed 4 (ts_year t) @ ''-'' @ dec_fixed 2 (ts_month t) @ ''-'' @ dec_fixed 2 (ts_day t) @ ''T''
      @ dec_fixed 2 (ts_hour t) @ '':'' @ dec_fixed 2 (ts_minute t) @ '':'' @ dec_fixed 2 (ts_second t)
      @ format_fraction (ts_nano t) @ format_offset (ts_offset t)"
    by (simp_all add: format_timestamp_def split: if_splits)
  have "days_in_month (ts_year t) (ts_month t) \<le> 31" by (simp add: days_in_month_def)
  with t have lim: "ts_year t < 10 ^ 4" "ts_month t < 10 ^ 2" "ts_day t < 10 ^ 2" "ts_hour t < 10 ^ 2"
    "ts_minute t < 10 ^ 2" "ts_second t < 10 ^ 2" "ts_nano t < 10 ^ 9" "\<bar>ts_offset t\<bar> < 1440"
    by (simp_all add: timestamp_valid_def)
  have "parse_fraction (format_fraction (ts_nano t) @ format_offset (ts_offset t)) = Some (ts_nano t, format_offset (ts_offset t))"
    using format_offset_start [of "ts_offset t"] by (intro parse_format_fraction [OF lim(7)]) (auto simp: is_ascii_digit_def)
  moreover have "timestamp_valid \<lparr>ts_year = ts_year t, ts_month = ts_month t, ts_day = ts_day t, ts_hour = ts_hour t,
      ts_minute = ts_minute t, ts_second = ts_second t, ts_nano = ts_nano t, ts_offset = ts_offset t\<rparr>"
    using t by (cases t) simp
  ultimately show ?thesis
    unfolding s
    by (simp add: Let_def parse_timestamp_def parse_dec_fixed [OF lim(1)] parse_dec_fixed [OF lim(2)] parse_dec_fixed [OF lim(3)]
        parse_dec_fixed [OF lim(4)] parse_dec_fixed [OF lim(5)] parse_dec_fixed [OF lim(6)] parse_format_offset [OF lim(8)])
qed

section \<open>Debug text\<close>

text \<open>\<open>{:?}\<close> of a string whose characters outside ASCII are printable.\<close>

definition debug_char :: "char \<Rightarrow> string" where
  "debug_char c =
     (if c = CHR 0x22 \<or> c = CHR 0x5C then [CHR 0x5C, c]
      else if c = CHR 0x09 then [CHR 0x5C, CHR ''t'']
      else if c = CHR 0x0A then [CHR 0x5C, CHR ''n'']
      else if c = CHR 0x0D then [CHR 0x5C, CHR ''r'']
      else if c = CHR 0x00 then [CHR 0x5C, CHR ''0'']
      else if char_code c < 32 \<or> char_code c = 127
        then [CHR 0x5C, CHR ''u'', CHR ''{''] @ (if char_code c < 16 then [] else [hex_digit (char_code c div 16)])
          @ [hex_digit (char_code c mod 16), CHR ''}'']
      else [c])"

definition debug_text :: "string \<Rightarrow> string" where
  "debug_text s = CHR 0x22 # concat (map debug_char s) @ [CHR 0x22]"

end
