(* ===== verification/F1_Framing.thy ===== *)
theory F1_Framing
  imports Json_Value
begin

text \<open>
  F1 framing (\<^verbatim>\<open>guyos_core/src/ports/outbound/f1_framing.rs\<close>): a 32-bit big-endian length, then
  that many octets of UTF-8, and the incremental decoder that buffers chunks. The error type
  is the one of the session port (\<^verbatim>\<open>guyos_wire_v1_session.rs\<close>). The lemmas show that what the
  decoder yields depends only on the octets received, not on how they were cut into chunks.
\<close>

section \<open>Errors\<close>

datatype guyos_wire_v1_session_error =
    FrameTooLarge u32 u32
  | UnexpectedEof
  | InvalidUtf8
  | Io string

fun session_error_fmt :: "guyos_wire_v1_session_error \<Rightarrow> string" where
  "session_error_fmt (FrameTooLarge d l) =
     ''F1 frame payload length '' @ dec_of_nat (unat d) @ '' exceeds session limit '' @ dec_of_nat (unat l)"
| "session_error_fmt UnexpectedEof = ''unexpected end of stream while reading an F1 frame''"
| "session_error_fmt InvalidUtf8 = ''F1 frame payload is not valid UTF-8''"
| "session_error_fmt (Io err) = err"

text \<open>\<open>Error::source\<close>; an I/O error is represented by its display text.\<close>

fun session_error_source :: "guyos_wire_v1_session_error \<Rightarrow> string option" where
  "session_error_source (Io err) = Some err"
| "session_error_source _ = None"

section \<open>Encoding\<close>

definition U32_MAX :: u32 where
  "U32_MAX = 4294967295"

definition encode_application_frame :: "string \<Rightarrow> u32 \<Rightarrow> guyos_wire_v1_session_error + bytes" where
  "encode_application_frame body max_frame_bytes =
     and_then (ok_or (FrameTooLarge U32_MAX max_frame_bytes) (u32_try_from_usize (length body)))
       (\<lambda>declared.
         if max_frame_bytes < declared then Inl (FrameTooLarge declared max_frame_bytes)
         else Inr (u32_to_be_bytes declared @ as_bytes body))"

section \<open>The incremental decoder\<close>

record f1_frame_decoder =
  dec_max_frame_bytes :: u32
  dec_buf :: bytes

definition f1_new :: "u32 \<Rightarrow> f1_frame_decoder" where
  "f1_new max_frame_bytes = \<lparr>dec_max_frame_bytes = max_frame_bytes, dec_buf = []\<rparr>"

definition f1_feed :: "f1_frame_decoder \<Rightarrow> bytes \<Rightarrow> f1_frame_decoder" where
  "f1_feed d chunk = d\<lparr>dec_buf := dec_buf d @ chunk\<rparr>"

definition usize_saturating_add :: "nat \<Rightarrow> nat \<Rightarrow> nat" where
  "usize_saturating_add a b = min (a + b) (2 ^ 64 - 1)"

definition pop_complete_frame ::
    "f1_frame_decoder \<Rightarrow> (guyos_wire_v1_session_error + string option) \<times> f1_frame_decoder" where
  "pop_complete_frame d =
     (if length (dec_buf d) < 4 then (Inr None, d)
      else
        let declared = u32_from_be_bytes (take 4 (dec_buf d))
        in if dec_max_frame_bytes d < declared
           then (Inl (FrameTooLarge declared (dec_max_frame_bytes d)), d)
           else
             let frame_len = usize_saturating_add 4 (unat declared)
             in if length (dec_buf d) < frame_len then (Inr None, d)
                else
                  let payload = take (frame_len - 4) (drop 4 (dec_buf d));
                      d' = d\<lparr>dec_buf := drop frame_len (dec_buf d)\<rparr>
                  in (map_ok Some (ok_or InvalidUtf8 (from_utf8 payload)), d'))"

definition has_buffered_data :: "f1_frame_decoder \<Rightarrow> bool" where
  "has_buffered_data d \<longleftrightarrow> dec_buf d \<noteq> []"

section \<open>Lemmas: one pop\<close>

lemma usize_saturating_add_small: "n < 4294967296 \<Longrightarrow> usize_saturating_add 4 n = 4 + n"
  by (simp add: usize_saturating_add_def)

lemma usize_saturating_add_u32 [simp]: "usize_saturating_add 4 (unat (w :: u32)) = 4 + unat w"
  by (rule usize_saturating_add_small) simp

lemma unat_word_of_length:
  "n \<le> unat (l :: u32) \<Longrightarrow> unat (word_of_nat n :: u32) = n"
  using le_less_trans [OF _ unat_u32_less, of n l] by (simp add: unat_of_nat)

lemma f1_feed_simps [simp]:
  "dec_max_frame_bytes (f1_feed d c) = dec_max_frame_bytes d"
  "dec_buf (f1_feed d c) = dec_buf d @ c"
  "f1_feed (f1_feed d a) b = f1_feed d (a @ b)"
  "f1_feed d [] = d"
  by (simp_all add: f1_feed_def)

text \<open>
  The decoder as a function of its buffer: not enough octets, an oversized prefix, or one
  frame and the rest.
\<close>

lemma pop_complete_frame_cases:
  obtains (wait) "pop_complete_frame d = (Inr None, d)"
  | (oversize) e where "pop_complete_frame d = (Inl e, d)"
      "e = FrameTooLarge (u32_from_be_bytes (take 4 (dec_buf d))) (dec_max_frame_bytes d)"
      "4 \<le> length (dec_buf d)"
      "dec_max_frame_bytes d < u32_from_be_bytes (take 4 (dec_buf d))"
  | (frame) n where "4 \<le> length (dec_buf d)" "n = unat (u32_from_be_bytes (take 4 (dec_buf d)))"
      "n \<le> unat (dec_max_frame_bytes d)" "4 + n \<le> length (dec_buf d)"
      "pop_complete_frame d = (map_ok Some (ok_or InvalidUtf8 (from_utf8 (take n (drop 4 (dec_buf d))))),
         d\<lparr>dec_buf := drop (4 + n) (dec_buf d)\<rparr>)"
proof -
  let ?w = "u32_from_be_bytes (take 4 (dec_buf d))"
  consider "length (dec_buf d) < 4"
    | "4 \<le> length (dec_buf d)" "dec_max_frame_bytes d < ?w"
    | "4 \<le> length (dec_buf d)" "?w \<le> dec_max_frame_bytes d" "length (dec_buf d) < 4 + unat ?w"
    | "4 \<le> length (dec_buf d)" "?w \<le> dec_max_frame_bytes d" "4 + unat ?w \<le> length (dec_buf d)"
    by (meson not_less)
  then show thesis
  proof cases
    case 1
    then show thesis by (intro wait) (simp add: pop_complete_frame_def)
  next
    case 2
    then show thesis by (intro oversize) (simp_all add: pop_complete_frame_def Let_def)
  next
    case 3
    then show thesis by (intro wait) (simp add: pop_complete_frame_def Let_def)
  next
    case 4
    then show thesis
      by (intro frame) (simp_all add: pop_complete_frame_def Let_def word_le_nat_alt word_less_nat_alt)
  qed
qed

text \<open>More octets do not change a pop that already had an answer.\<close>

lemma pop_feed:
  assumes "pop_complete_frame d = (r, d')" and "r \<noteq> Inr None"
  shows "pop_complete_frame (f1_feed d c) = (r, f1_feed d' c)"
proof (cases d rule: pop_complete_frame_cases)
  case wait
  with assms show ?thesis by simp
next
  case (oversize e)
  with assms show ?thesis by (auto simp: pop_complete_frame_def Let_def)
next
  case (frame n)
  from frame(5) assms(1)
  have rd: "r = map_ok Some (ok_or InvalidUtf8 (from_utf8 (take n (drop 4 (dec_buf d)))))"
    "d' = d\<lparr>dec_buf := drop (4 + n) (dec_buf d)\<rparr>" by simp_all
  show ?thesis
    unfolding rd using frame(1-4)
    by (simp add: pop_complete_frame_def Let_def f1_feed_def word_less_nat_alt)
qed

lemma pop_waits: "pop_complete_frame d = (Inr None, d') \<Longrightarrow> d' = d"
  by (cases d rule: pop_complete_frame_cases)
    (auto simp: map_ok_def ok_or_def split: option.splits)

lemma pop_shrinks:
  assumes "pop_complete_frame d = (Inr (Some f), d')"
  shows "length (dec_buf d') < length (dec_buf d)" "dec_max_frame_bytes d' = dec_max_frame_bytes d"
  using assms by (cases d rule: pop_complete_frame_cases; auto)+

lemma encode_application_frame_Inr_iff:
  "encode_application_frame body l = Inr w \<longleftrightarrow>
     length body \<le> unat l \<and> w = u32_to_be_bytes (word_of_nat (length body)) @ as_bytes body"
proof (cases "u32_try_from_usize (length body)")
  case None
  then have "unat l < length body"
    using less_le_trans [OF unat_u32_less] by (simp add: u32_try_from_usize_None_iff)
  with None show ?thesis by (simp add: encode_application_frame_def)
next
  case (Some v)
  then have v: "unat v = length body" by (simp add: u32_try_from_usize_Some_iff)
  then have "v = word_of_nat (length body)" by (simp flip: v)
  with Some v show ?thesis by (auto simp: encode_application_frame_def word_less_nat_alt)
qed

lemma pop_encoded_frame:
  assumes "encode_application_frame body (dec_max_frame_bytes d) = Inr w" and "utf8_string body"
    and "dec_buf d = w @ rest"
  shows "pop_complete_frame d = (Inr (Some body), d\<lparr>dec_buf := rest\<rparr>)"
proof -
  from assms(1) have len: "length body \<le> unat (dec_max_frame_bytes d)"
    and w: "w = u32_to_be_bytes (word_of_nat (length body)) @ as_bytes body"
    by (simp_all add: encode_application_frame_Inr_iff)
  have n: "unat (word_of_nat (length body) :: u32) = length body"
    using len by (rule unat_word_of_length)
  show ?thesis
    using assms(2,3) len n
    by (simp add: pop_complete_frame_def Let_def w word_less_nat_alt from_utf8_as_bytes
        usize_saturating_add_small le_less_trans [OF len unat_u32_less])
qed

text \<open>A buffer that is a proper beginning of a frame makes the decoder wait.\<close>

lemma pop_partial_frame:
  assumes "encode_application_frame body (dec_max_frame_bytes d) = Inr w"
    and "w = dec_buf d @ rest" and "rest \<noteq> []"
  shows "pop_complete_frame d = (Inr None, d)"
proof (cases "length (dec_buf d) < 4")
  case True
  then show ?thesis by (simp add: pop_complete_frame_def)
next
  case False
  from assms(1) have len: "length body \<le> unat (dec_max_frame_bytes d)"
    and w: "w = u32_to_be_bytes (word_of_nat (length body)) @ as_bytes body"
    by (simp_all add: encode_application_frame_Inr_iff)
  have n: "unat (word_of_nat (length body) :: u32) = length body"
    using len by (rule unat_word_of_length)
  have "take 4 (dec_buf d) = take 4 w" using False assms(2) by simp
  then have "take 4 (dec_buf d) = u32_to_be_bytes (word_of_nat (length body))" by (simp add: w)
  moreover have "length (dec_buf d) < 4 + length body"
    using assms(2,3) arg_cong [OF w, of length] by (cases rest) auto
  ultimately show ?thesis
    using False len n
    by (simp add: pop_complete_frame_def Let_def word_less_nat_alt
        usize_saturating_add_small le_less_trans [OF len unat_u32_less])
qed

section \<open>Lemmas: draining a stream\<close>

text \<open>
  What a reader obtains that pops until the decoder waits or fails: the frames, the error if
  one ended the stream, and the decoder left. A stream may come in chunks; after an error the
  reader stops.
\<close>

function drain :: "f1_frame_decoder \<Rightarrow> string list \<times> guyos_wire_v1_session_error option \<times> f1_frame_decoder" where
  "drain d = (case pop_complete_frame d of
     (Inl e, d') \<Rightarrow> ([], Some e, d')
   | (Inr None, d') \<Rightarrow> ([], None, d')
   | (Inr (Some f), d') \<Rightarrow> (case drain d' of (fs, e, d'') \<Rightarrow> (f # fs, e, d'')))"
  by pat_completeness auto
termination
  by (relation "measure (length \<circ> dec_buf)") (auto dest: pop_shrinks(1) [OF sym])

declare drain.simps [simp del]

fun drain_chunks ::
    "f1_frame_decoder \<Rightarrow> bytes list \<Rightarrow> string list \<times> guyos_wire_v1_session_error option \<times> f1_frame_decoder" where
  "drain_chunks d [] = drain d"
| "drain_chunks d (c # cs) = (case drain d of
     (fs, Some e, d') \<Rightarrow> (fs, Some e, d')
   | (fs, None, d') \<Rightarrow>
       (case drain_chunks (f1_feed d' c) cs of (gs, e, d'') \<Rightarrow> (fs @ gs, e, d'')))"

lemma drain_frame:
  "pop_complete_frame d = (Inr (Some f), d') \<Longrightarrow> drain d = (case drain d' of (fs, e, d'') \<Rightarrow> (f # fs, e, d''))"
  by (subst drain.simps) simp

lemma pop_frame_size:
  assumes "pop_complete_frame d = (Inr (Some f), d')"
  shows "length f + 4 + length (dec_buf d') = length (dec_buf d)"
    and "length f \<le> unat (dec_max_frame_bytes d)" and "utf8_string f"
  using assms
  by (cases d rule: pop_complete_frame_cases; auto simp: map_ok_def ok_or_def from_utf8_Some_iff
      dest!: arg_cong [where f = length] split: option.splits sum.splits)+

text \<open>Frames take their octets out of the buffer, four more each than their body.\<close>

lemma drain_size:
  "drain d = (fs, e, d') \<Longrightarrow> (\<Sum>f \<leftarrow> fs. length f + 4) + length (dec_buf d') \<le> length (dec_buf d)
     \<and> (\<forall>f \<in> set fs. length f \<le> unat (dec_max_frame_bytes d) \<and> utf8_string f)"
proof (induction d arbitrary: fs rule: drain.induct)
  case (1 d)
  obtain r d1 where pop: "pop_complete_frame d = (r, d1)" by (cases "pop_complete_frame d")
  consider (err) e1 where "r = Inl e1" | (wait) "r = Inr None" | (frame) f where "r = Inr (Some f)"
    by (cases r) auto
  then show ?case
  proof cases
    case err
    with pop "1.prems" have "fs = []" "d' = d1" by (simp_all add: drain.simps [of d])
    moreover have "length (dec_buf d1) \<le> length (dec_buf d)" using pop err
      by (cases d rule: pop_complete_frame_cases) auto
    ultimately show ?thesis by simp
  next
    case wait
    with pop "1.prems" pop_waits [of d d1] show ?thesis by (simp add: drain.simps [of d])
  next
    case (frame f)
    with pop "1.prems" obtain gs where gs: "drain d1 = (gs, e, d')" "fs = f # gs"
      by (auto simp: drain_frame split: prod.splits)
    from "1.IH" [OF pop [symmetric] frame refl gs(1)] pop_frame_size [of d f d1] pop_shrinks(2) [of d f d1]
    show ?thesis using pop frame gs(2) by auto
  qed
qed

lemma drain_feed:
  "drain (f1_feed d c) = (case drain d of
     (fs, Some e, d') \<Rightarrow> (fs, Some e, f1_feed d' c)
   | (fs, None, d') \<Rightarrow> (case drain (f1_feed d' c) of (gs, e, d'') \<Rightarrow> (fs @ gs, e, d'')))"
proof (induction d rule: drain.induct)
  case (1 d)
  obtain r d' where pop: "pop_complete_frame d = (r, d')" by (cases "pop_complete_frame d")
  consider (err) e where "r = Inl e" | (wait) "r = Inr None" | (frame) f where "r = Inr (Some f)"
    by (cases r) auto
  then show ?case
  proof cases
    case err
    with pop pop_feed [OF pop, of c] show ?thesis by (simp add: drain.simps [of d] drain.simps [of "f1_feed d c"])
  next
    case wait
    with pop have "d' = d" by (simp add: pop_waits)
    with pop wait show ?thesis by (simp add: drain.simps [of d] split: prod.split)
  next
    case frame
    with pop pop_feed [OF pop, of c]
    have "drain (f1_feed d c) = (case drain (f1_feed d' c) of (fs, e, d'') \<Rightarrow> (f # fs, e, d''))"
      "drain d = (case drain d' of (fs, e, d'') \<Rightarrow> (f # fs, e, d''))"
      by (simp_all add: drain_frame)
    with "1.IH" [OF pop [symmetric] frame refl] show ?thesis
      by (auto split: prod.splits option.splits)
  qed
qed

lemma drain_chunks_concat:
  "fst (drain_chunks d cs) = fst (drain (f1_feed d (concat cs)))
 \<and> fst (snd (drain_chunks d cs)) = fst (snd (drain (f1_feed d (concat cs))))"
proof (induction cs arbitrary: d)
  case (Cons c cs)
  obtain fs e d' where d: "drain d = (fs, e, d')" by (cases "drain d")
  have "f1_feed d' (concat (c # cs)) = f1_feed (f1_feed d' c) (concat cs)" by simp
  with d Cons.IH [of "f1_feed d' c"] drain_feed [of d "concat (c # cs)"] show ?case
    by (auto split: prod.splits option.splits)
qed simp

text \<open>Frames written one after another under the decoder's limit.\<close>

lemma drain_frames:
  assumes "list_all2 (\<lambda>body w. encode_application_frame body (dec_max_frame_bytes d) = Inr w
      \<and> utf8_string body) bodies ws"
    and "dec_buf d = concat ws"
  shows "drain d = (bodies, None, d\<lparr>dec_buf := []\<rparr>)"
  using assms
proof (induction bodies arbitrary: d ws)
  case Nil
  then have "pop_complete_frame d = (Inr None, d)" by (simp add: pop_complete_frame_def)
  with Nil show ?case by (subst drain.simps) simp
next
  case (Cons body bodies)
  then obtain w us where ws: "ws = w # us" "encode_application_frame body (dec_max_frame_bytes d) = Inr w"
      "utf8_string body" by (auto simp: list_all2_Cons1)
  then have "pop_complete_frame d = (Inr (Some body), d\<lparr>dec_buf := concat us\<rparr>)"
    using Cons.prems by (intro pop_encoded_frame) auto
  moreover have "drain (d\<lparr>dec_buf := concat us\<rparr>) = (bodies, None, d\<lparr>dec_buf := []\<rparr>)"
    using Cons.IH [of "d\<lparr>dec_buf := concat us\<rparr>" us] Cons.prems ws(1) by simp
  ultimately show ?case by (simp add: drain_frame)
qed

section \<open>Properties\<close>

text \<open>
  Encoding a frame succeeds exactly for bodies within the session limit, and writes four
  octets of length and the body; otherwise it reports the length, or \<open>u32::MAX\<close> for a length
  that does not fit 32 bits.
\<close>

lemma encode_frame_exactly:
  "encode_application_frame body l =
     (if length body \<le> unat l then Inr (u32_to_be_bytes (word_of_nat (length body)) @ as_bytes body)
      else if length body < 2 ^ 32 then Inl (FrameTooLarge (word_of_nat (length body)) l)
      else Inl (FrameTooLarge U32_MAX l))"
proof (cases "length body < 2 ^ 32")
  case True
  then show ?thesis
    by (auto simp: encode_application_frame_def u32_try_from_usize_def word_less_nat_alt unat_of_nat)
next
  case False
  then show ?thesis
    using less_le_trans [OF unat_u32_less, of "length body" l]
    by (auto simp: encode_application_frame_def u32_try_from_usize_def)
qed

text \<open>
  C12: The decoder does not depend on chunk boundaries: the frames and the error a reader gets
  from a stream cut into chunks are those of the whole stream fed at once.
\<close>

theorem decode_chunking_invariant:
  assumes "concat cs = concat cs'"
  shows "fst (drain_chunks d cs) = fst (drain_chunks d cs')
     \<and> fst (snd (drain_chunks d cs)) = fst (snd (drain_chunks d cs'))"
  using drain_chunks_concat [of d cs] drain_chunks_concat [of d cs'] assms by simp

theorem decode_chunking_invariant_witness:
  "fst (drain_chunks (f1_new 8) [[0, 0], [0, 1, 65]]) = fst (drain_chunks (f1_new 8) [[0, 0, 0, 1, 65]])"
  using decode_chunking_invariant [of "[[0, 0], [0, 1, 65]]" "[[0, 0, 0, 1, 65]]" "f1_new 8"] by simp

end
