(* ===== verification/Wire_Session.thy ===== *)
theory Wire_Session
  imports Codec_Correct F1_Framing
begin

text \<open>
  One application session: the port \<open>GuyosWireV1Session\<close>
  (\<^verbatim>\<open>guyos_core/src/ports/outbound/guyos_wire_v1_session.rs\<close>) with the hub's error frame after
  a failed read, and the in-memory session of \<^verbatim>\<open>fake_guyos_wire_v1_session.rs\<close>. The port is a
  locale whose laws relate reads to the frames still to come and writes to the octets sent;
  the in-memory session is an interpretation of it.

  The channel under a session belongs to \<^verbatim>\<open>tokio\<close>. A receiver is the list of answers its
  \<open>recv\<close> will give, \<^const>\<open>Some\<close> a chunk or \<^const>\<open>None\<close> once closed; where the list ends, the
  call waits. A sender keeps the log of the chunks it handed over and fails once the other end
  is gone; waiting for room in the bounded channel is not visible in the result.
\<close>

section \<open>The error frame after a failed read\<close>

fun wire_error_json_body_for_session_read_failure ::
    "'ts deps \<Rightarrow> guyos_wire_v1_session_error \<Rightarrow> string option" where
  "wire_error_json_body_for_session_read_failure D (FrameTooLarge declared limit) =
     (case encode_guyos_wire_v1_json D (MError
        \<lparr>err_code = ''frame_too_large'',
         err_message = ''Declared F1 payload length '' @ dec_of_nat (unat declared)
           @ '' exceeds max_frame_bytes limit '' @ dec_of_nat (unat limit) @ ''.'',
         err_details = None\<rparr>) of Inl _ \<Rightarrow> None | Inr s \<Rightarrow> Some s)"
| "wire_error_json_body_for_session_read_failure D InvalidUtf8 =
     (case encode_guyos_wire_v1_json D (MError
        \<lparr>err_code = ''malformed_json'',
         err_message = ''F1 frame payload is not valid UTF-8.'',
         err_details = None\<rparr>) of Inl _ \<Rightarrow> None | Inr s \<Rightarrow> Some s)"
| "wire_error_json_body_for_session_read_failure D UnexpectedEof = None"
| "wire_error_json_body_for_session_read_failure D (Io _) = None"

type_synonym 's write_op = "'s \<Rightarrow> string \<Rightarrow> (guyos_wire_v1_session_error + unit) \<times> 's"

definition hub_try_send_wire_error_for_session_read_failure ::
    "'ts deps \<Rightarrow> 's write_op \<Rightarrow> 's \<Rightarrow> guyos_wire_v1_session_error \<Rightarrow> 's" where
  "hub_try_send_wire_error_for_session_read_failure D write_application_frame session err =
     (case wire_error_json_body_for_session_read_failure D err of
        None \<Rightarrow> session
      | Some body \<Rightarrow> snd (write_application_frame session body))"

section \<open>The in-memory session\<close>

type_synonym read_result = "(guyos_wire_v1_session_error + string option) option"

record fake_session =
  fs_max_frame_bytes :: u32
  fs_decoder :: f1_frame_decoder
  fs_rx :: "bytes option list"
  fs_tx :: "bytes list"
  fs_tx_closed :: bool

definition fake_end :: "u32 \<Rightarrow> bytes option list \<Rightarrow> bool \<Rightarrow> fake_session" where
  "fake_end limit rx tx_closed =
     \<lparr>fs_max_frame_bytes = limit, fs_decoder = f1_new limit, fs_rx = rx, fs_tx = [],
      fs_tx_closed = tx_closed\<rparr>"

text \<open>Two ends of one pair: what each will receive is an input of the model.\<close>

definition paired_with_max_frame_bytes ::
    "bytes option list \<Rightarrow> bytes option list \<Rightarrow> u32 \<Rightarrow> fake_session \<times> fake_session" where
  "paired_with_max_frame_bytes rx_a_from_b rx_b_from_a limit =
     (fake_end limit rx_a_from_b False, fake_end limit rx_b_from_a False)"

definition paired :: "bytes option list \<Rightarrow> bytes option list \<Rightarrow> fake_session \<times> fake_session" where
  "paired rx_a_from_b rx_b_from_a =
     paired_with_max_frame_bytes rx_a_from_b rx_b_from_a MAX_FRAME_BYTES_ADR_V1"

text \<open>
  The read loop. \<^const>\<open>None\<close> is a read that still waits for a chunk, with everything received
  so far fed to the decoder.
\<close>

fun read_loop :: "f1_frame_decoder \<Rightarrow> bytes option list \<Rightarrow> read_result \<times> f1_frame_decoder \<times> bytes option list" where
  "read_loop d rx =
     (case pop_complete_frame d of
        (Inl e, d') \<Rightarrow> (Some (Inl e), d', rx)
      | (Inr (Some frame), d') \<Rightarrow> (Some (Inr (Some frame)), d', rx)
      | (Inr None, d') \<Rightarrow>
          (case rx of
             [] \<Rightarrow> (None, d', [])
           | Some chunk # rx' \<Rightarrow> read_loop (f1_feed d' chunk) rx'
           | None # rx' \<Rightarrow>
               if has_buffered_data d' then (Some (Inl UnexpectedEof), d', rx')
               else (Some (Inr None), d', rx')))"

definition read_application_frame_inner :: "fake_session \<Rightarrow> read_result \<times> fake_session" where
  "read_application_frame_inner s =
     (case read_loop (fs_decoder s) (fs_rx s) of
        (r, d, rx) \<Rightarrow> (r, s\<lparr>fs_decoder := d, fs_rx := rx\<rparr>))"

declare read_loop.simps [simp del]

text \<open>\<open>self.tx.send(chunk)\<close>, which fails when the other end dropped its receiver.\<close>

definition tx_send :: "fake_session \<Rightarrow> bytes \<Rightarrow> (unit + unit) \<times> fake_session" where
  "tx_send s chunk =
     (if fs_tx_closed s then (Inl (), s) else (Inr (), s\<lparr>fs_tx := fs_tx s @ [chunk]\<rparr>))"

definition send_raw_chunk :: "fake_session \<Rightarrow> bytes \<Rightarrow> (guyos_wire_v1_session_error + unit) \<times> fake_session" where
  "send_raw_chunk s chunk =
     (case tx_send s chunk of
        (r, s') \<Rightarrow> (map_err (\<lambda>_. Io ''send channel closed'') r, s'))"

definition write_application_frame_inner :: "fake_session write_op" where
  "write_application_frame_inner s body =
     (case encode_application_frame body (fs_max_frame_bytes s) of
        Inl e \<Rightarrow> (Inl e, s)
      | Inr wire \<Rightarrow>
          (case tx_send s wire of
             (r, s') \<Rightarrow> (map_err (\<lambda>_. Io ''send channel closed'') r, s')))"

section \<open>The port\<close>

type_synonym 's read_op = "'s \<Rightarrow> read_result \<times> 's"

text \<open>Several reads, several writes, one after another.\<close>

fun read_n :: "'s read_op \<Rightarrow> nat \<Rightarrow> 's \<Rightarrow> read_result list \<times> 's" where
  "read_n rd 0 s = ([], s)"
| "read_n rd (Suc n) s = (case rd s of (r, s') \<Rightarrow> (case read_n rd n s' of (rs, s'') \<Rightarrow> (r # rs, s'')))"

fun write_all :: "'s write_op \<Rightarrow> 's \<Rightarrow> string list \<Rightarrow> (guyos_wire_v1_session_error + unit) \<times> 's" where
  "write_all wr s [] = (Inr (), s)"
| "write_all wr s (b # bs) = (case wr s b of (Inl e, s') \<Rightarrow> (Inl e, s') | (Inr _, s') \<Rightarrow> write_all wr s' bs)"

text \<open>
  What a session promises: reads give the frames still to come one by one and then the answer
  the stream ends in (an error, the graceful close, or waiting); a write sends one frame or
  nothing; neither touches the other direction.
\<close>

locale wire_v1_session =
  fixes read_application_frame :: "'s read_op"
    and write_application_frame :: "'s write_op"
    and max_frame_bytes :: "'s \<Rightarrow> u32"
    and incoming :: "'s \<Rightarrow> string list \<times> read_result"
    and sent :: "'s \<Rightarrow> bytes"
  assumes read_next: "incoming s = (f # fs, r) \<Longrightarrow>
        \<exists>s'. read_application_frame s = (Some (Inr (Some f)), s') \<and> incoming s' = (fs, r)"
    and read_end: "incoming s = ([], r) \<Longrightarrow> fst (read_application_frame s) = r"
    and read_sent: "sent (snd (read_application_frame s)) = sent s"
    and read_limit: "max_frame_bytes (snd (read_application_frame s)) = max_frame_bytes s"
    and write_ok: "write_application_frame s b = (Inr (), s') \<Longrightarrow>
        \<exists>w. encode_application_frame b (max_frame_bytes s) = Inr w \<and> sent s' = sent s @ w"
    and write_err: "write_application_frame s b = (Inl e, s') \<Longrightarrow> sent s' = sent s"
    and write_incoming: "incoming (snd (write_application_frame s b)) = incoming s"
    and write_limit: "max_frame_bytes (snd (write_application_frame s b)) = max_frame_bytes s"
begin

lemma read_n_frames:
  "incoming s = (fs, r) \<Longrightarrow>
     fst (read_n read_application_frame (length fs + 1) s) = map (Some \<circ> Inr \<circ> Some) fs @ [r]"
proof (induction fs arbitrary: s)
  case Nil
  then show ?case by (auto dest: read_end split: prod.split)
next
  case (Cons f fs)
  from read_next [OF Cons.prems] obtain s' where
    "read_application_frame s = (Some (Inr (Some f)), s')" "incoming s' = (fs, r)" by blast
  with Cons.IH [of s'] show ?case by (auto split: prod.splits)
qed

lemma write_all_sent:
  "write_all write_application_frame s bs = (Inr (), s') \<Longrightarrow>
     \<exists>ws. list_all2 (\<lambda>b w. encode_application_frame b (max_frame_bytes s) = Inr w) bs ws
       \<and> sent s' = sent s @ concat ws"
proof (induction bs arbitrary: s)
  case Nil
  then show ?case by auto
next
  case (Cons b bs)
  then obtain s1 where s1: "write_application_frame s b = (Inr (), s1)"
      "write_all write_application_frame s1 bs = (Inr (), s')"
    by (auto split: prod.splits sum.splits)
  from write_ok [OF s1(1)] obtain w where
    w: "encode_application_frame b (max_frame_bytes s) = Inr w" "sent s1 = sent s @ w" by blast
  have "max_frame_bytes s1 = max_frame_bytes s" using write_limit [of s b] s1(1) by simp
  with Cons.IH [OF s1(2)] obtain ws where
    "list_all2 (\<lambda>b w. encode_application_frame b (max_frame_bytes s) = Inr w) bs ws"
    "sent s' = sent s1 @ concat ws" by auto
  with w show ?case by (intro exI [of _ "w # ws"]) simp
qed

lemma hub_try_send_sent:
  "sent (hub_try_send_wire_error_for_session_read_failure D write_application_frame s err) =
     (case wire_error_json_body_for_session_read_failure D err of
        None \<Rightarrow> sent s
      | Some body \<Rightarrow>
          (case write_application_frame s body of
             (Inl _, _) \<Rightarrow> sent s
           | (Inr _, _) \<Rightarrow>
               sent s @ (case encode_application_frame body (max_frame_bytes s) of Inl _ \<Rightarrow> [] | Inr w \<Rightarrow> w)))"
  by (auto simp: hub_try_send_wire_error_for_session_read_failure_def dest!: write_ok write_err
      split: option.split prod.splits sum.splits)

lemma hub_try_send_incoming:
  "incoming (hub_try_send_wire_error_for_session_read_failure D write_application_frame s err) = incoming s"
  by (auto simp: hub_try_send_wire_error_for_session_read_failure_def write_incoming split: option.split)

end

section \<open>The in-memory session keeps the port's promises\<close>

fun rx_octets :: "bytes option list \<Rightarrow> bytes" where
  "rx_octets [] = []"
| "rx_octets (None # rx) = []"
| "rx_octets (Some c # rx) = c @ rx_octets rx"

definition stream_end :: "bool \<Rightarrow> guyos_wire_v1_session_error option \<Rightarrow> f1_frame_decoder \<Rightarrow> read_result" where
  "stream_end closed e d =
     (case e of
        Some e \<Rightarrow> Some (Inl e)
      | None \<Rightarrow>
          if \<not> closed then None
          else if has_buffered_data d then Some (Inl UnexpectedEof) else Some (Inr None))"

definition fake_incoming :: "f1_frame_decoder \<Rightarrow> bytes option list \<Rightarrow> string list \<times> read_result" where
  "fake_incoming d rx =
     (case drain (f1_feed d (rx_octets rx)) of (fs, e, d') \<Rightarrow> (fs, stream_end (None \<in> set rx) e d'))"

lemma fake_incoming_answered:
  assumes "pop_complete_frame d = (Inr (Some f), d')"
  shows "fake_incoming d rx = (f # fst (fake_incoming d' rx), snd (fake_incoming d' rx))"
proof -
  have "pop_complete_frame (f1_feed d (rx_octets rx)) = (Inr (Some f), f1_feed d' (rx_octets rx))"
    using assms by (intro pop_feed) auto
  then show ?thesis by (simp add: fake_incoming_def drain_frame split: prod.split)
qed

lemma fake_incoming_failed:
  assumes "pop_complete_frame d = (Inl e, d')"
  shows "fake_incoming d rx = ([], Some (Inl e))"
proof -
  have "pop_complete_frame (f1_feed d (rx_octets rx)) = (Inl e, f1_feed d' (rx_octets rx))"
    using assms by (intro pop_feed) auto
  then show ?thesis by (subst fake_incoming_def, subst drain.simps) (simp add: stream_end_def)
qed

lemma fake_incoming_waits:
  assumes "pop_complete_frame d = (Inr None, d')"
  shows "fake_incoming d [] = ([], None)"
    "fake_incoming d (None # rx) =
       ([], Some (if has_buffered_data d then Inl UnexpectedEof else Inr None))"
    "fake_incoming d (Some c # rx) = fake_incoming (f1_feed d c) rx"
proof -
  from assms have "drain d = ([], None, d)"
    by (subst drain.simps) (simp add: pop_waits)
  then show "fake_incoming d [] = ([], None)"
    "fake_incoming d (None # rx) =
       ([], Some (if has_buffered_data d then Inl UnexpectedEof else Inr None))"
    by (simp_all add: fake_incoming_def stream_end_def)
qed (simp add: fake_incoming_def)

text \<open>A read, in terms of the frames to come.\<close>

lemma read_loop_incoming:
  "case fake_incoming d rx of
     ([], r) \<Rightarrow> fst (read_loop d rx) = r
   | (f # fs, r) \<Rightarrow> \<exists>d' rx'. read_loop d rx = (Some (Inr (Some f)), d', rx') \<and> fake_incoming d' rx' = (fs, r)"
proof (induction d rx rule: read_loop.induct)
  case (1 d rx)
  obtain q d' where pop: "pop_complete_frame d = (q, d')" by (cases "pop_complete_frame d")
  consider (err) e where "q = Inl e" | (wait) "q = Inr None" | (frame) f where "q = Inr (Some f)"
    by (cases q) auto
  then show ?case
  proof cases
    case err
    with pop fake_incoming_failed [of d e d' rx] show ?thesis
      by (simp add: read_loop.simps [of d])
  next
    case wait
    with pop have same: "d' = d" by (simp add: pop_waits)
    note waits = fake_incoming_waits [OF pop [unfolded wait]]
    consider (empty) "rx = []" | (close) rx' where "rx = None # rx'" | (chunk) c rx' where "rx = Some c # rx'"
      by (cases rx; cases "hd rx") auto
    then show ?thesis
    proof cases
      case chunk
      have "read_loop d rx = read_loop (f1_feed d c) rx'" "fake_incoming d rx = fake_incoming (f1_feed d c) rx'"
        using pop wait chunk waits(3) same by (simp_all add: read_loop.simps [of d])
      moreover have "case fake_incoming (f1_feed d c) rx' of
          ([], r) \<Rightarrow> fst (read_loop (f1_feed d c) rx') = r
        | (f # fs, r) \<Rightarrow> \<exists>d' rx''. read_loop (f1_feed d c) rx' = (Some (Inr (Some f)), d', rx'')
            \<and> fake_incoming d' rx'' = (fs, r)"
        using "1.IH" [OF pop [symmetric] wait refl chunk refl] unfolding same .
      ultimately show ?thesis by (simp only:)
    qed (use pop wait waits same in \<open>simp_all add: read_loop.simps [of d]\<close>)
  next
    case frame
    with pop fake_incoming_answered [of d f d' rx] show ?thesis
      by (simp add: read_loop.simps [of d])
  qed
qed

interpretation fake_wire: wire_v1_session read_application_frame_inner write_application_frame_inner
    fs_max_frame_bytes "\<lambda>s. fake_incoming (fs_decoder s) (fs_rx s)" "\<lambda>s. concat (fs_tx s)"
proof
  fix s :: fake_session and f fs r
  assume "fake_incoming (fs_decoder s) (fs_rx s) = (f # fs, r)"
  with read_loop_incoming [of "fs_decoder s" "fs_rx s"]
  show "\<exists>s'. read_application_frame_inner s = (Some (Inr (Some f)), s')
      \<and> fake_incoming (fs_decoder s') (fs_rx s') = (fs, r)"
    by (auto simp: read_application_frame_inner_def)
next
  fix s :: fake_session and r
  assume "fake_incoming (fs_decoder s) (fs_rx s) = ([], r)"
  with read_loop_incoming [of "fs_decoder s" "fs_rx s"]
  show "fst (read_application_frame_inner s) = r"
    by (auto simp: read_application_frame_inner_def split: prod.split)
qed (auto simp: read_application_frame_inner_def write_application_frame_inner_def tx_send_def
    split: prod.splits sum.splits if_splits)

section \<open>Lemmas: whole streams\<close>

lemma drain_frames_partial:
  assumes "list_all2 (\<lambda>body w. encode_application_frame body l = Inr w \<and> utf8_string body) bodies ws"
    and "encode_application_frame partial l = Inr (p @ q)" and "q \<noteq> []"
  shows "drain (f1_feed (f1_new l) (concat ws @ p)) = (bodies, None, (f1_new l)\<lparr>dec_buf := p\<rparr>)"
proof -
  have "drain (f1_feed (f1_new l) (concat ws)) = (bodies, None, f1_new l)"
    using drain_frames [of "f1_feed (f1_new l) (concat ws)" bodies ws] assms(1)
    by (simp add: f1_new_def f1_feed_def)
  then have "drain (f1_feed (f1_feed (f1_new l) (concat ws)) p)
      = (case drain (f1_feed (f1_new l) p) of (gs, e, d) \<Rightarrow> (bodies @ gs, e, d))"
    by (subst drain_feed) simp
  moreover have "drain (f1_feed (f1_new l) p) = ([], None, f1_feed (f1_new l) p)"
    using assms(2,3) by (subst drain.simps, subst pop_partial_frame) (auto simp: f1_new_def)
  ultimately show ?thesis by (simp add: f1_feed_def f1_new_def)
qed


section \<open>Properties\<close>

text \<open>
  C11: A reader of an in-memory session gets exactly the frames its peer sent, in order, however
  the octets were cut into chunks, and then tells a graceful close between frames from a close
  in the middle of one.
\<close>

theorem session_reads_exactly:
  assumes "list_all2 (\<lambda>body w. encode_application_frame body l = Inr w \<and> utf8_string body) bodies ws"
    and "encode_application_frame partial l = Inr (p @ q)" and "q \<noteq> []"
    and "rx_octets rx = concat ws @ p" and "None \<in> set rx"
  shows "fst (read_n read_application_frame_inner (length bodies + 1) (fake_end l rx tx_closed))
     = map (\<lambda>b. Some (Inr (Some b))) bodies @ [Some (if p = [] then Inr None else Inl UnexpectedEof)]"
proof -
  have "fake_incoming (fs_decoder (fake_end l rx tx_closed)) (fs_rx (fake_end l rx tx_closed))
      = (bodies, Some (if p = [] then Inr None else Inl UnexpectedEof))"
    using assms(5) drain_frames_partial [OF assms(1-3)]
    by (simp add: fake_incoming_def fake_end_def assms(4) stream_end_def has_buffered_data_def f1_new_def)
  from fake_wire.read_n_frames [OF this] show ?thesis by (simp add: comp_def)
qed

theorem session_reads_exactly_witness:
  "fst (read_n read_application_frame_inner 2 (fake_end 8 [Some [0, 0], Some [0, 0, 0], Some [0], None] False))
     = [Some (Inr (Some [])), Some (Inl UnexpectedEof)]"
proof -
  have "encode_application_frame [] 8 = Inr [0, 0, 0, 0]"
    by (simp add: encode_application_frame_Inr_iff u32_to_be_bytes_eq)
  then show ?thesis
    using session_reads_exactly [of 8 "[[]]" "[[0, 0, 0, 0]]" "[]" "[0, 0]" "[0, 0]"
        "[Some [0, 0], Some [0, 0, 0], Some [0], None]" False]
    by (simp add: numeral_2_eq_2)
qed

text \<open>
  C37: Reading ends: a reader of a stream that is closed at some point, whatever octets came
  before and however they were cut, gets finitely many frames, each in the session's limit and
  together with their prefixes no longer than the stream, and then an error or the graceful
  close; it never waits for ever.
\<close>

theorem session_reads_end:
  assumes "None \<in> set rx"
  shows "\<exists>bodies last. fst (read_n read_application_frame_inner (length bodies + 1) (fake_end l rx tx_closed))
      = map (\<lambda>b. Some (Inr (Some b))) bodies @ [Some last]
    \<and> (last = Inr None \<or> (\<exists>e. last = Inl e))
    \<and> (\<Sum>b \<leftarrow> bodies. length b + 4) \<le> length (rx_octets rx)
    \<and> (\<forall>b \<in> set bodies. length b \<le> unat l \<and> utf8_string b)"
proof -
  obtain bodies e d where drain: "drain (f1_feed (f1_new l) (rx_octets rx)) = (bodies, e, d)"
    by (cases "drain (f1_feed (f1_new l) (rx_octets rx))")
  obtain last where last: "stream_end True e d = Some last" "last = Inr None \<or> (\<exists>e. last = Inl e)"
    by (cases e; cases "has_buffered_data d") (auto simp: stream_end_def)
  have "fake_incoming (fs_decoder (fake_end l rx tx_closed)) (fs_rx (fake_end l rx tx_closed)) = (bodies, Some last)"
    using assms drain last(1) by (simp add: fake_incoming_def fake_end_def)
  from fake_wire.read_n_frames [OF this] last(2) drain_size [OF drain]
  show ?thesis by (intro exI [of _ bodies] exI [of _ last]) (auto simp: comp_def f1_new_def)
qed

theorem session_reads_end_witness:
  "\<exists>bodies last. fst (read_n read_application_frame_inner (length bodies + 1) (fake_end 8 [Some [0, 0], None] False))
      = map (\<lambda>b. Some (Inr (Some b))) bodies @ [Some last]
    \<and> (\<Sum>b \<leftarrow> bodies. length b + 4) \<le> 2"
  using session_reads_end [of "[Some [0, 0], None]" 8 False] by auto

text \<open>
  End to end: when every write on one end succeeds and the other end, under the same limit,
  receives the octets written and then the close, its reads return exactly the bodies written,
  in order, and then the graceful close.
\<close>

lemma session_write_then_read:
  assumes "write_all write_application_frame_inner (fake_end l rx_a False) bodies = (Inr (), a)"
    and "\<forall>b \<in> set bodies. utf8_string b"
    and "rx_octets rx = concat (fs_tx a)" and "None \<in> set rx"
  shows "fst (read_n read_application_frame_inner (length bodies + 1) (fake_end l rx tx_closed))
     = map (\<lambda>b. Some (Inr (Some b))) bodies @ [Some (Inr None)]"
proof -
  from fake_wire.write_all_sent [OF assms(1)] obtain ws where
    ws: "list_all2 (\<lambda>b w. encode_application_frame b l = Inr w) bodies ws" "concat (fs_tx a) = concat ws"
    by (auto simp: fake_end_def)
  have both: "list_all2 (\<lambda>b w. encode_application_frame b l = Inr w \<and> utf8_string b) bodies ws"
    using ws(1) assms(2) by (auto simp: list_all2_conv_all_nth)
  have empty: "encode_application_frame [] l = Inr ([] @ u32_to_be_bytes 0)"
    by (simp add: encode_application_frame_Inr_iff)
  have "u32_to_be_bytes 0 \<noteq> []" by (metis length_u32_to_be_bytes list.size(3) zero_neq_numeral)
  from drain_frames_partial [OF both empty this]
  have "fake_incoming (fs_decoder (fake_end l rx tx_closed)) (fs_rx (fake_end l rx tx_closed))
      = (bodies, Some (Inr None))"
    using assms(3,4) ws(2)
    by (simp add: fake_incoming_def fake_end_def stream_end_def has_buffered_data_def f1_new_def)
  from fake_wire.read_n_frames [OF this] show ?thesis by (simp add: comp_def)
qed




end
