(* ===== verification/Wire_Library.thy ===== *)
theory Wire_Library
  imports Wire_Session
begin

text \<open>
  What the protocol needs of the JSON and UUID libraries, as the locale \<open>wire_library\<close>: an object of
  strings and unsigned integers is written as one line of UTF-8 that is read back and is not longer
  than its members with six octets for every octet of text (the longest escape), and a UUID is
  written with 36 octets that are read back. Every message but an error is such an object; the lemmas
  of the locale say when it can be encoded and that the peer reads and decodes it.
\<close>

section \<open>Flat objects\<close>

definition flat_member :: "json \<Rightarrow> bool" where
  "flat_member v \<longleftrightarrow> (case v of JString s \<Rightarrow> utf8_string s | JNumber (PosInt n) \<Rightarrow> True | _ \<Rightarrow> False)"

definition flat_object :: "json_map \<Rightarrow> bool" where
  "flat_object m \<longleftrightarrow> finite (dom m) \<and> (\<forall>k \<in> dom m. utf8_string k \<and> flat_member (the (m k)))"

fun member_size :: "json \<Rightarrow> nat" where
  "member_size (JString s) = 2 + 6 * length s"
| "member_size v = 20"

definition flat_size :: "json_map \<Rightarrow> nat" where
  "flat_size m = 2 + (\<Sum>k \<in> dom m. 6 * length k + 4 + member_size (the (m k)))"

lemma flat_object_empty [simp]: "flat_object Map.empty"
  by (simp add: flat_object_def)

lemma flat_object_upd: "k \<notin> dom m \<Longrightarrow> flat_object (m(k \<mapsto> v)) \<longleftrightarrow> utf8_string k \<and> flat_member v \<and> flat_object m"
  by (auto simp: flat_object_def)

lemma flat_size_empty [simp]: "flat_size Map.empty = 2"
  by (simp add: flat_size_def)

lemma flat_size_upd:
  "k \<notin> dom m \<Longrightarrow> finite (dom m) \<Longrightarrow> flat_size (m(k \<mapsto> v)) = 6 * length k + 4 + member_size v + flat_size m"
proof -
  assume k: "k \<notin> dom m" and fin: "finite (dom m)"
  have "(\<Sum>x \<in> dom m. 6 * length x + 4 + member_size (the ((m(k \<mapsto> v)) x)))
      = (\<Sum>x \<in> dom m. 6 * length x + 4 + member_size (the (m x)))"
    using k by (intro sum.cong) auto
  with k fin show ?thesis by (simp add: flat_size_def)
qed

lemma length_dec_of_nat: "n < 10 ^ k \<Longrightarrow> 0 < k \<Longrightarrow> length (dec_of_nat n) \<le> k"
proof (induction k arbitrary: n)
  case (Suc k)
  show ?case
  proof (cases "n < 10")
    case False
    with Suc.prems have "n div 10 < 10 ^ k" "0 < k"
      by (simp_all add: less_mult_imp_div_less mult.commute) (cases k; simp)
    with Suc.IH False show ?thesis by (subst dec_of_nat.simps) simp
  qed (simp add: dec_of_nat.simps)
qed simp

lemma length_u64_text: "length (u64_to_string w) \<le> 20"
proof -
  have "unat w < 10 ^ 20" by (rule less_trans [OF unat_u64_less]) simp
  then show ?thesis by (simp add: u64_to_string_def length_dec_of_nat)
qed

section \<open>The contract\<close>

locale wire_library =
  fixes D :: "'ts deps"
  assumes flat_text: "flat_object m \<Longrightarrow> \<exists>s. serde_to_string D (JObject m) = Some s
      \<and> serde_from_str D s = Some (JObject m) \<and> length s \<le> flat_size m \<and> utf8_string s
      \<and> (\<forall>c \<in> set s. 32 \<le> char_code c)"
    and uuid_text: "uuid_parse_str D (uuid_to_string D u) = Some u
      \<and> length (uuid_to_string D u) = 36 \<and> utf8_string (uuid_to_string D u)"

text \<open>A body a peer can be sent: it fits a frame, is read in any chunking and decodes to the message.\<close>

definition carried :: "'ts deps \<Rightarrow> u32 \<Rightarrow> string \<Rightarrow> 'ts guyos_wire_v1_message \<Rightarrow> bool" where
  "carried D f body msg \<longleftrightarrow> (\<exists>w. encode_application_frame body f = Inr w
    \<and> (\<forall>rx closed. rx_octets rx = w \<longrightarrow>
        fst (read_application_frame_inner (fake_end f rx closed)) = Some (Inr (Some body)))
    \<and> decode_guyos_wire_v1_json D body = Inr msg)"

lemma drain_one_frame:
  assumes "encode_application_frame body l = Inr w" and "utf8_string body"
  shows "drain (f1_feed (f1_new l) w) = ([body], None, (f1_new l)\<lparr>dec_buf := []\<rparr>)"
  using drain_frames [of "f1_feed (f1_new l) w" "[body]" "[w]"] assms
  by (simp add: f1_new_def f1_feed_def)

lemma carriedI:
  assumes "length body \<le> unat f" and "utf8_string body" and "decode_guyos_wire_v1_json D body = Inr msg"
  shows "carried D f body msg"
proof -
  from assms(1) obtain w where w: "encode_application_frame body f = Inr w"
    by (simp add: encode_application_frame_Inr_iff)
  have "fst (read_application_frame_inner (fake_end f rx tx_closed)) = Some (Inr (Some body))"
    if "rx_octets rx = w" for rx tx_closed
  proof -
    have "fake_incoming (fs_decoder (fake_end f rx tx_closed)) (fs_rx (fake_end f rx tx_closed))
        = ([body], stream_end (None \<in> set rx) None ((f1_new f)\<lparr>dec_buf := []\<rparr>))"
      using drain_one_frame [OF w assms(2)] that by (simp add: fake_incoming_def fake_end_def)
    from fake_wire.read_next [OF this] show ?thesis by auto
  qed
  with w assms(3) show ?thesis unfolding carried_def by blast
qed

lemma encoded_is_carried:
  assumes "encode_guyos_wire_v1_json_within_limits D msg f l = Inr body" and "message_ok D msg"
    and "\<And>v. serde_to_string D v = Some body \<Longrightarrow> serde_from_str D body = Some v" and "utf8_string body"
  shows "carried D f body msg"
  using assms(1,4) encode_then_decode [OF assms(1-3)]
  by (auto simp: encode_within_limits_Inr_iff intro: carriedI)

fun message_flat :: "'ts guyos_wire_v1_message \<Rightarrow> bool" where
  "message_flat (MAttach a) \<longleftrightarrow> utf8_string (att_ticket a) \<and> attach_in_range a"
| "message_flat (MAttachAck a) \<longleftrightarrow> utf8_string (ack_room_id a) \<and> ack_protocol_major a \<le> U31_MAX
     \<and> ack_server_protocol_minor a \<le> U31_MAX
     \<and> (case ack_keepalive_interval_seconds a of None \<Rightarrow> True | Some k \<Rightarrow> k \<le> U31_MAX)"
| "message_flat (MPublish p) \<longleftrightarrow> utf8_string (pub_text p)"
| "message_flat (MPublishAck p) \<longleftrightarrow> pa_server_timestamp p = None"
| "message_flat (MChatMessage c) \<longleftrightarrow> utf8_string (cm_text c) \<and> cm_server_timestamp c = None
     \<and> (case cm_sender_endpoint_id c of None \<Rightarrow> True | Some s \<Rightarrow> utf8_string s)"
| "message_flat (MError e) \<longleftrightarrow> False"
| "message_flat _ \<longleftrightarrow> True"

fun message_bound :: "'ts guyos_wire_v1_message \<Rightarrow> nat" where
  "message_bound (MAttach a) = 6 * length (att_ticket a) + 342"
| "message_bound (MAttachAck a) = 6 * length (ack_room_id a) + 879"
| "message_bound (MPublish p) = 6 * length (pub_text p) + 428"
| "message_bound (MPublishAck p) = 566"
| "message_bound (MChatMessage c) = 6 * length (cm_text c) + 602
     + (case cm_sender_endpoint_id c of None \<Rightarrow> 0 | Some s \<Rightarrow> 6 * length s + 114)"
| "message_bound _ = 100"

context wire_library
begin

lemma ids_ok: "uuid_ok D u"
  using uuid_text by (simp add: uuid_ok_def)

lemma flat_message_ok: "message_flat msg \<Longrightarrow> message_ok D msg"
  by (cases msg) (auto simp: ids_ok)

lemma flat_message_value:
  assumes "message_flat msg" and "\<And>t. message_text msg = Some t \<Longrightarrow> length t \<le> unat l"
  shows "\<exists>m. encode_to_value_with_limits D msg l = Inr (JObject m) \<and> flat_object m \<and> flat_size m \<le> message_bound msg"
proof (cases msg)
  case (MAttach a)
  with assms show ?thesis
    by (auto simp: validate_attach_preamble_eq flat_object_upd flat_size_upd flat_member_def number_of_u32_def
        utf8_string_ascii)
next
  case (MAttachAck a)
  with assms show ?thesis
    by (auto simp: validate_u31_generic_eq flat_object_upd flat_size_upd flat_member_def number_of_u32_def
        utf8_string_ascii Let_def split: option.splits)
next
  case (MPublish p)
  with assms uuid_text [of "pub_client_message_id p"] show ?thesis
    by (auto simp: validate_text_len_eq flat_object_upd flat_size_upd flat_member_def uuid_wire_string_def
        utf8_string_ascii)
next
  case (MPublishAck p)
  with assms uuid_text [of "pa_client_message_id p"] length_u64_text [of "pa_seq p"] show ?thesis
    by (auto simp: flat_object_upd flat_size_upd flat_member_def uuid_wire_string_def seq_to_wire_def
        utf8_string_ascii u64_to_string_def)
next
  case (MChatMessage c)
  with assms uuid_text [of "cm_client_message_id c"] length_u64_text [of "cm_seq c"] show ?thesis
    by (auto simp: validate_text_len_eq flat_object_upd flat_size_upd flat_member_def uuid_wire_string_def seq_to_wire_def
        utf8_string_ascii u64_to_string_def Let_def split: option.splits)
qed (use assms in \<open>auto simp: flat_object_upd flat_size_upd flat_member_def utf8_string_ascii\<close>)

text \<open>When the limits leave room for the escapes, a flat message is encoded and reaches the peer.\<close>

lemma flat_message_body:
  assumes "message_flat msg" and "\<And>t. message_text msg = Some t \<Longrightarrow> length t \<le> unat l"
    and "message_bound msg \<le> unat f"
  shows "\<exists>body. encode_guyos_wire_v1_json_within_limits D msg f l = Inr body \<and> utf8_string body
    \<and> decode_guyos_wire_v1_json D body = Inr msg"
proof -
  from flat_message_value [OF assms(1,2)] obtain m where
    m: "encode_to_value_with_limits D msg l = Inr (JObject m)" "flat_object m" "flat_size m \<le> message_bound msg"
    by blast
  from flat_text [OF m(2)] obtain s where s: "serde_to_string D (JObject m) = Some s"
    "serde_from_str D s = Some (JObject m)" "length s \<le> flat_size m" "utf8_string s" by blast
  from m s assms(3) have "encode_guyos_wire_v1_json_within_limits D msg f l = Inr s"
    by (simp add: encode_within_limits_Inr_iff)
  moreover have "decode_guyos_wire_v1_json D s = Inr msg"
    using encode_decode_value [OF m(1) flat_message_ok [OF assms(1)]] decode_guyos_wire_v1_json_type [OF s(2)] by force
  ultimately show ?thesis using s(4) by blast
qed

lemma flat_message_carried:
  assumes "message_flat msg" and "\<And>t. message_text msg = Some t \<Longrightarrow> length t \<le> unat l"
    and "message_bound msg \<le> unat f"
  shows "\<exists>body. encode_guyos_wire_v1_json_within_limits D msg f l = Inr body \<and> carried D f body msg"
  using flat_message_body [OF assms] by (auto simp: encode_within_limits_Inr_iff intro!: carriedI)

end

end
