(* ===== verification/Standard_Wire.thy ===== *)
theory Standard_Wire
  imports Standard_Json Standard_Text Wire_Library
begin

text \<open>
  An instance of the record \<open>deps\<close> by the standards of \<^verbatim>\<open>Standard_Json\<close> and \<^verbatim>\<open>Standard_Text\<close>, and the
  proof that it meets the contract \<open>wire_library\<close>. The type of timestamps is a parameter, with its
  printing and parsing; \<open>rfc3339_deps\<close> is the instance with RFC 3339.
\<close>

definition standard_deps :: "('ts \<Rightarrow> string option) \<Rightarrow> (string \<Rightarrow> 'ts option) \<Rightarrow> 'ts deps" where
  "standard_deps fmt prs = \<lparr>serde_from_str = json_parse, serde_to_string = json_print,
     uuid_parse_str = parse_hyphenated, uuid_to_string = hyphenated,
     rfc3339_format = fmt, rfc3339_parse = prs, str_debug = debug_text\<rparr>"

definition rfc3339_deps :: "timestamp deps" where
  "rfc3339_deps = standard_deps format_timestamp parse_timestamp"

definition no_time_deps :: "unit deps" where
  "no_time_deps = standard_deps (\<lambda>_. None) (\<lambda>_. None)"

lemma standard_deps_simps [simp]:
  "serde_from_str (standard_deps fmt prs) = json_parse" "serde_to_string (standard_deps fmt prs) = json_print"
  "uuid_parse_str (standard_deps fmt prs) = parse_hyphenated" "uuid_to_string (standard_deps fmt prs) = hyphenated"
  "rfc3339_format (standard_deps fmt prs) = fmt" "rfc3339_parse (standard_deps fmt prs) = prs"
  by (simp_all add: standard_deps_def)

lemma flat_member_print:
  assumes "flat_member v"
  shows "\<exists>t. json_print v = Some t \<and> length t \<le> member_size v"
proof (cases v)
  case (JString s)
  with assms length_json_escape(2) [of s] show ?thesis by (simp add: flat_member_def json_quote_def)
next
  case (JNumber x)
  with assms obtain n where "x = PosInt n" by (cases x) (auto simp: flat_member_def)
  with JNumber length_u64_text [of n] show ?thesis by (simp add: u64_to_string_def)
qed (use assms in \<open>simp_all add: flat_member_def\<close>)

lemma length_commas: "length (commas ts) \<le> (\<Sum>t \<leftarrow> ts. length t + 1)"
  by (induction ts rule: commas.induct) simp_all

lemma flat_object_print:
  assumes "flat_object m"
  shows "\<exists>t. json_print (JObject m) = Some t \<and> length t \<le> flat_size m"
proof -
  let ?pm = "\<lambda>k. map_option json_print (m k)" and ?g = "\<lambda>k. the (json_print (the (m k)))"
  have dom: "dom ?pm = dom m" by (auto simp: dom_def)
  have fin: "finite (dom m)" and keys: "\<And>k. k \<in> dom m \<Longrightarrow> utf8_string k \<and> flat_member (the (m k))"
    using assms by (auto simp: flat_object_def)
  have vals: "json_print (the (m k)) = Some (?g k) \<and> length (?g k) \<le> member_size (the (m k))" if "k \<in> dom m" for k
    using flat_member_print keys [OF that] by fastforce
  then have pm: "?pm k = Some (Some (?g k))" if "k \<in> dom m" for k using that by auto
  then have eq: "map (\<lambda>k. json_quote k @ '':'' @ the (the (?pm k))) (sorted_list_of_set (dom m))
      = map (\<lambda>k. json_quote k @ '':'' @ ?g k) (sorted_list_of_set (dom m))" (is "?ts = ?us")
    by (intro map_cong refl) (simp add: fin del: map_option_eq_Some)
  have "finite (dom ?pm) \<and> (\<forall>k \<in> dom ?pm. utf8_string k \<and> ?pm k \<noteq> Some None)"
    unfolding dom using fin keys by (intro conjI ballI) (simp_all add: pm del: map_option_eq_Some)
  then have t: "json_print (JObject m) = Some (''{'' @ commas ?us @ ''}'')"
    unfolding json_print.simps print_members_def eq [symmetric] unfolding dom by (subst if_P) (assumption | rule refl)+
  have "length (commas ?us) \<le> (\<Sum>k \<leftarrow> sorted_list_of_set (dom m). length (json_quote k @ '':'' @ ?g k) + 1)"
    using length_commas [of ?us] by (simp add: comp_def)
  also have "\<dots> = (\<Sum>k \<in> dom m. length (json_quote k @ '':'' @ ?g k) + 1)"
    using fin by (simp add: sum_list_distinct_conv_sum_set)
  also have "\<dots> \<le> (\<Sum>k \<in> dom m. 6 * length k + 4 + member_size (the (m k)))"
  proof (rule sum_mono)
    fix k assume "k \<in> dom m"
    with vals [OF this] length_json_escape(2) [of k]
    show "length (json_quote k @ '':'' @ ?g k) + 1 \<le> 6 * length k + 4 + member_size (the (m k))"
      by (simp add: json_quote_def)
  qed
  finally show ?thesis using t by (simp add: flat_size_def)
qed

interpretation standard: wire_library "standard_deps fmt prs" for fmt :: "'ts \<Rightarrow> string option" and prs
proof
  fix m assume "flat_object m"
  from flat_object_print [OF this] obtain t where t: "json_print (JObject m) = Some t" "length t \<le> flat_size m" by blast
  with json_parse_print [OF t(1)] json_print_line [OF t(1)]
  show "\<exists>s. serde_to_string (standard_deps fmt prs) (JObject m) = Some s
      \<and> serde_from_str (standard_deps fmt prs) s = Some (JObject m) \<and> length s \<le> flat_size m \<and> utf8_string s
      \<and> (\<forall>c \<in> set s. 32 \<le> char_code c)"
    by (simp add: text_line_def)
qed (simp add: parse_hyphenated_text length_hyphenated utf8_hyphenated)

end
