(* ===== verification/Wire_Delivery.thy ===== *)
theory Wire_Delivery
  imports Hub_Rooms Standard_Wire
begin

text \<open>
  Delivery: the hub of \<^verbatim>\<open>Hub_Rooms\<close>, the codec and the framed session together. When the frame limit
  of the hub's policy leaves room for the escapes of the longest text, everything the hub handles can
  be sent to everybody it is for, and each member reads the room's messages in order; when it does
  not, the hub can accept and acknowledge a text that it can send to nobody.
\<close>

section \<open>What is fanned out\<close>

definition utf8_texts :: "'ts hub_event list \<Rightarrow> bool" where
  "utf8_texts tr \<longleftrightarrow> (\<forall>ev \<in> set tr. \<forall>p. ev_msg ev = MPublish p \<longrightarrow> utf8_string (pub_text p))"

definition roomy :: "attach_policy \<Rightarrow> bool" where
  "roomy pol \<longleftrightarrow> 6 * unat (pol_max_message_bytes pol) + 602 \<le> unat (pol_max_frame_bytes pol)"

lemma chats_handled: "c \<in> set (chats r hs) \<Longrightarrow> \<exists>ack. (r, ack, Some c) \<in> set hs"
  by (induction r hs rule: chats.induct) (auto split: if_splits)

lemma handled_event: "(r, ack, chat) \<in> set (handled tr) \<Longrightarrow>
    \<exists>ev \<in> set tr. ev_out ev = PublishHandled ack chat \<and> session_room (ev_session ev) = r"
  by (auto simp: handled_def handled_of_def split: guyos_wire_inbound_outcome.splits)

lemma event_handled:
  assumes "hub_run accept pol v h0 tr h" and "ev \<in> set tr"
  obtains h1 h2 where "hub_step accept pol v h1 ev h2"
proof -
  from split_list [OF assms(2)] obtain xs ys where "tr = (xs @ [ev]) @ ys" by auto
  with assms(1) obtain h1 where "hub_run accept pol v h0 (xs @ [ev]) h1" using hub_run_splits by blast
  with that show thesis by (blast elim: hub_run_snocE)
qed

lemma hub_publish_answer:
  assumes "hub_run accept pol v (hub_start l0) tr h" and "ev \<in> set tr" and "ev_out ev = PublishHandled ack chat"
    and "utf8_texts tr"
  obtains p where "ev_msg ev = MPublish p" "length (pub_text p) \<le> unat (pol_max_message_bytes pol)" "utf8_string (pub_text p)"
    "pa_server_timestamp ack = None" "pa_client_message_id ack = pub_client_message_id p"
    "\<forall>c. chat = Some c \<longrightarrow> cm_text c = pub_text p \<and> cm_sender_endpoint_id c = None \<and> cm_server_timestamp c = None"
proof -
  from event_handled [OF assms(1,2)] obtain h1 h2 where step: "hub_step accept pol v h1 ev h2" .
  with assms(3) obtain msg now s' l' where
    seen: "ev_session ev = hub_sessions h1 (ev_conn ev)" "ev_msg ev = msg"
      "handle_client_message (hub_sessions h1 (ev_conn ev)) msg pol (v now) accept (hub_ledger h1)
        = Some (s', PublishHandled ack chat, l')"
    by (cases rule: hub_stepE) auto
  from hub_publish_session [OF assms(1,2,3)] obtain r where
    r: "ev_session ev = Attached r (pol_max_frame_bytes pol) (pol_max_message_bytes pol)" by blast
  from seen(3) show thesis
  proof (rule handle_publish_handled)
    fix r' f l p d
    assume p: "hub_sessions h1 (ev_conn ev) = Attached r' f l" "msg = MPublish p" "length (pub_text p) \<le> unat l"
      and ack: "ack = \<lparr>pa_seq = decision_seq d, pa_client_message_id = pub_client_message_id p, pa_server_timestamp = None\<rparr>"
      and chat: "chat = (if is_first d then Some
       \<lparr>cm_seq = decision_seq d, cm_client_message_id = pub_client_message_id p,
        cm_text = pub_text p, cm_sender_endpoint_id = None, cm_server_timestamp = None\<rparr> else None)"
    from p(1) r seen(1) have "l = pol_max_message_bytes pol" by simp
    moreover have "utf8_string (pub_text p)" using assms(2,4) seen(2) p(2) by (auto simp: utf8_texts_def)
    moreover have "cm_text c = pub_text p \<and> cm_sender_endpoint_id c = None \<and> cm_server_timestamp c = None"
      if "chat = Some c" for c
      using chat that by (auto split: if_splits)
    ultimately show thesis using that [of p] p(2,3) seen(2) ack by simp
  qed
qed

lemma room_chats_flat:
  assumes "hub_run accept pol v (hub_start l0) tr h" and "utf8_texts tr" and "roomy pol" and "c \<in> set (room_chats r tr)"
  shows "message_flat (MChatMessage c) \<and> length (cm_text c) \<le> unat (pol_max_message_bytes pol)
    \<and> message_bound (MChatMessage c) \<le> unat (pol_max_frame_bytes pol)"
proof -
  from assms(4) obtain ack where "(r, ack, Some c) \<in> set (handled tr)"
    unfolding room_chats_def using chats_handled by blast
  then obtain ev where ev: "ev \<in> set tr" "ev_out ev = PublishHandled ack (Some c)" using handled_event by blast
  have "\<exists>p :: publish. length (pub_text p) \<le> unat (pol_max_message_bytes pol) \<and> utf8_string (pub_text p)
    \<and> cm_text c = pub_text p \<and> cm_sender_endpoint_id c = None \<and> cm_server_timestamp c = None"
    by (rule hub_publish_answer [OF assms(1) ev assms(2)]) blast
  with assms(3) show ?thesis by (auto simp: roomy_def)
qed

section \<open>Streams of messages\<close>

context wire_library
begin

lemma flat_message_framed:
  assumes "message_flat msg" and "\<And>t. message_text msg = Some t \<Longrightarrow> length t \<le> unat l"
    and "message_bound msg \<le> unat f"
  shows "\<exists>body w. encode_guyos_wire_v1_json_within_limits D msg f l = Inr body \<and> encode_application_frame body f = Inr w
    \<and> utf8_string body \<and> decode_guyos_wire_v1_json D body = Inr msg"
proof -
  from flat_message_body [OF assms] obtain body where b: "encode_guyos_wire_v1_json_within_limits D msg f l = Inr body"
    "utf8_string body" "decode_guyos_wire_v1_json D body = Inr msg" by blast
  then have "length body \<le> unat f" by (auto simp: encode_within_limits_Inr_iff)
  with b show ?thesis by (simp add: encode_application_frame_Inr_iff)
qed

lemma flat_messages_framed:
  assumes "\<And>msg. msg \<in> set msgs \<Longrightarrow> message_flat msg \<and> (\<forall>t. message_text msg = Some t \<longrightarrow> length t \<le> unat l)
      \<and> message_bound msg \<le> unat f"
  shows "\<exists>bodies ws. map (\<lambda>msg. encode_guyos_wire_v1_json_within_limits D msg f l) msgs = map Inr bodies
    \<and> list_all2 (\<lambda>b w. encode_application_frame b f = Inr w \<and> utf8_string b) bodies ws
    \<and> map (decode_guyos_wire_v1_json D) bodies = map Inr msgs"
  using assms
proof (induction msgs)
  case (Cons msg msgs)
  then obtain bodies ws where IH: "map (\<lambda>msg. encode_guyos_wire_v1_json_within_limits D msg f l) msgs = map Inr bodies"
    "list_all2 (\<lambda>b w. encode_application_frame b f = Inr w \<and> utf8_string b) bodies ws"
    "map (decode_guyos_wire_v1_json D) bodies = map Inr msgs" by auto
  have "message_flat msg \<and> (\<forall>t. message_text msg = Some t \<longrightarrow> length t \<le> unat l) \<and> message_bound msg \<le> unat f"
    using Cons.prems [of msg] by simp
  with flat_message_framed [of msg l f] obtain body w where
    "encode_guyos_wire_v1_json_within_limits D msg f l = Inr body" "encode_application_frame body f = Inr w"
    "utf8_string body" "decode_guyos_wire_v1_json D body = Inr msg" by blast
  with IH show ?case by (intro exI [of _ "body # bodies"] exI [of _ "w # ws"]) simp
qed (intro exI [of _ "[]"], simp)

end

text \<open>Reading the frames of such a stream in any chunking, up to its close.\<close>

lemma framed_bodies_read:
  assumes "list_all2 (\<lambda>b w. encode_application_frame b f = Inr w \<and> utf8_string b) bodies ws"
    and "rx_octets rx = concat ws" and "None \<in> set rx"
  shows "fst (read_n read_application_frame_inner (length bodies + 1) (fake_end f rx closed))
    = map (\<lambda>b. Some (Inr (Some b))) bodies @ [Some (Inr None)]"
proof -
  have "drain (f1_feed (f1_new f) (concat ws)) = (bodies, None, f1_new f)"
    using drain_frames [of "f1_feed (f1_new f) (concat ws)" bodies ws] assms(1) by (simp add: f1_new_def f1_feed_def)
  then have "fake_incoming (fs_decoder (fake_end f rx closed)) (fs_rx (fake_end f rx closed)) = (bodies, Some (Inr None))"
    using assms(2,3) by (simp add: fake_incoming_def fake_end_def stream_end_def has_buffered_data_def f1_new_def)
  from fake_wire.read_n_frames [OF this] show ?thesis by (simp add: comp_def)
qed


section \<open>Properties\<close>

text \<open>
  C4: Members read the room: in every interleaving of streams over a hub whose frame limit leaves
  room for escapes, the chat messages of a room can all be encoded and framed for every attached
  member, and a member whose session carries those frames reads, however the octets are cut, exactly
  their bodies, which decode to the messages of the room in their order, numbered from zero.
\<close>

theorem members_read_the_room:
  assumes "wire_library D" and "roomy pol"
    and "hub_run accept_or_replay pol v (hub_start room_publish_state_default) tr h" and "utf8_texts tr"
    and "hub_sessions h i = Attached r f l"
  shows "\<exists>bodies ws. map (\<lambda>c. encode_guyos_wire_v1_json_within_limits D (MChatMessage c) f l) (room_chats r tr) = map Inr bodies
    \<and> list_all2 (\<lambda>b w. encode_application_frame b f = Inr w) bodies ws
    \<and> (\<forall>rx closed. rx_octets rx = concat ws \<and> None \<in> set rx \<longrightarrow>
        fst (read_n read_application_frame_inner (length bodies + 1) (fake_end f rx closed))
          = map (\<lambda>b. Some (Inr (Some b))) bodies @ [Some (Inr None)])
    \<and> map (decode_guyos_wire_v1_json D) bodies = map (\<lambda>c. Inr (MChatMessage c)) (room_chats r tr)
    \<and> map cm_seq (room_chats r tr) = map word_of_nat [0 ..< length (room_chats r tr)]"
proof -
  let ?msgs = "map MChatMessage (room_chats r tr)"
  have lim: "f = pol_max_frame_bytes pol" "l = pol_max_message_bytes pol"
    using hub_run_attached [OF assms(3,5)] by simp_all
  have "message_flat msg \<and> (\<forall>t. message_text msg = Some t \<longrightarrow> length t \<le> unat l) \<and> message_bound msg \<le> unat f"
    if "msg \<in> set ?msgs" for msg
    using that room_chats_flat [OF assms(3,4,2)] lim by auto
  from wire_library.flat_messages_framed [OF assms(1) this] obtain bodies ws where
    framed: "map (\<lambda>msg. encode_guyos_wire_v1_json_within_limits D msg f l) ?msgs = map Inr bodies"
      "list_all2 (\<lambda>b w. encode_application_frame b f = Inr w \<and> utf8_string b) bodies ws"
      "map (decode_guyos_wire_v1_json D) bodies = map Inr ?msgs" by blast
  moreover have "list_all2 (\<lambda>b w. encode_application_frame b f = Inr w) bodies ws"
    using framed(2) by (rule list.rel_mono_strong) simp
  moreover note framed_bodies_read [OF framed(2)]
  moreover have "map cm_seq (room_chats r tr) = map word_of_nat [0 ..< length (room_chats r tr)]"
    using in_memory.hub_run_log(2) [OF assms(3)] .
  ultimately show ?thesis by (intro exI [of _ bodies] exI [of _ ws]) (simp add: comp_def)
qed

lemma no_time_library: "wire_library no_time_deps"
  unfolding no_time_deps_def by (rule standard.wire_library_axioms)

abbreviation "demo_trace \<equiv> [demo_attach, demo_publish (Some demo_chat), demo_publish None]"

lemma demo_trace_ok: "roomy demo_policy" "utf8_texts demo_trace" "hub_sessions (demo_hub demo_ledger) 0 = Attached ''r'' 1048576 65536"
  by (simp_all add: roomy_def demo_policy_def single_major_def utf8_texts_def demo_attach_def demo_publish_def
      hi_publish_def demo_hub_def utf8_string_ascii_Cons)

theorem members_read_the_room_witness:
  "\<exists>body w. encode_guyos_wire_v1_json_within_limits no_time_deps (MChatMessage demo_chat) 1048576 65536 = Inr body
    \<and> fst (read_n read_application_frame_inner 2 (fake_end 1048576 [Some w, None] False))
        = [Some (Inr (Some body)), Some (Inr None)]
    \<and> decode_guyos_wire_v1_json no_time_deps body = Inr (MChatMessage demo_chat)"
proof -
  from members_read_the_room [OF no_time_library demo_trace_ok(1) demo_run demo_trace_ok(2,3)]
  obtain bodies ws where h:
    "map (\<lambda>c. encode_guyos_wire_v1_json_within_limits no_time_deps (MChatMessage c) 1048576 65536) [demo_chat] = map Inr bodies"
    "list_all2 (\<lambda>b w. encode_application_frame b 1048576 = Inr w) bodies ws"
    "\<forall>rx closed. rx_octets rx = concat ws \<and> None \<in> set rx \<longrightarrow>
      fst (read_n read_application_frame_inner (length bodies + 1) (fake_end 1048576 rx closed))
        = map (\<lambda>b. Some (Inr (Some b))) bodies @ [Some (Inr None)]"
    "map (decode_guyos_wire_v1_json no_time_deps) bodies = map (\<lambda>c. Inr (MChatMessage c)) [demo_chat]"
    unfolding demo_handled by blast
  from h(1) obtain body where b: "bodies = [body]"
    "encode_guyos_wire_v1_json_within_limits no_time_deps (MChatMessage demo_chat) 1048576 65536 = Inr body" by auto
  with h(2) obtain w where w: "ws = [w]" by (auto simp: list_all2_Cons1)
  have "rx_octets [Some w, None] = concat ws \<and> None \<in> set [Some w, None]" by (simp add: w)
  from h(3) [rule_format, OF this] b h(4) show ?thesis by (auto simp: numeral_2_eq_2 simp del: read_n.simps)
qed

text \<open>
  C7: A publish is delivered: a text in the message limit of a stream whose frame limit leaves room
  for escapes is encoded, reaches the hub in any chunking and is decoded to itself; it is handled in
  the stream's room, and the acknowledgement with its id and the ledger's number, and for a first
  acceptance the chat message with the text and that number, are encoded and reach their readers in
  any chunking and are decoded to themselves.
\<close>

theorem publish_delivered:
  assumes "wire_library D" and "utf8_string (pub_text p)" and "length (pub_text p) \<le> unat l"
    and "6 * unat l + 602 \<le> unat f" and "accept ledger room (pub_client_message_id p) = Some (d, ledger')"
  shows "\<exists>body ack reply. encode_guyos_wire_v1_json_within_limits D (MPublish p) f l = Inr body
    \<and> carried D f body (MPublish p)
    \<and> encode_guyos_wire_v1_json_within_limits D (MPublishAck ack) f l = Inr reply \<and> carried D f reply (MPublishAck ack)
    \<and> pa_client_message_id ack = pub_client_message_id p \<and> pa_seq ack = decision_seq d
    \<and> (if is_first d then \<exists>chat fan_out.
         handle_client_message (Attached room f l) (MPublish p) pol v accept ledger
           = Some (Attached room f l, PublishHandled ack (Some chat), ledger')
         \<and> cm_text chat = pub_text p \<and> cm_seq chat = decision_seq d
         \<and> encode_guyos_wire_v1_json_within_limits D (MChatMessage chat) f l = Inr fan_out
         \<and> carried D f fan_out (MChatMessage chat)
       else handle_client_message (Attached room f l) (MPublish p) pol v accept ledger
           = Some (Attached room f l, PublishHandled ack None, ledger'))"
proof -
  let ?ack = "\<lparr>pa_seq = decision_seq d, pa_client_message_id = pub_client_message_id p, pa_server_timestamp = None\<rparr>"
  let ?chat = "\<lparr>cm_seq = decision_seq d, cm_client_message_id = pub_client_message_id p, cm_text = pub_text p,
    cm_sender_endpoint_id = None, cm_server_timestamp = None\<rparr>"
  note carried = wire_library.flat_message_carried [OF assms(1)]
  from carried [of "MPublish p" l f] carried [of "MPublishAck ?ack" l f] carried [of "MChatMessage ?chat" l f] assms(2-4)
  obtain body reply fan_out where
    "encode_guyos_wire_v1_json_within_limits D (MPublish p) f l = Inr body" "carried D f body (MPublish p)"
    "encode_guyos_wire_v1_json_within_limits D (MPublishAck ?ack) f l = Inr reply" "carried D f reply (MPublishAck ?ack)"
    "encode_guyos_wire_v1_json_within_limits D (MChatMessage ?chat) f l = Inr fan_out" "carried D f fan_out (MChatMessage ?chat)"
    by auto
  with assms(3,5) show ?thesis
    by (intro exI [of _ body] exI [of _ ?ack] exI [of _ reply]) (auto simp: dispatch_publish_cases)
qed

theorem publish_delivered_witness:
  "\<exists>body (ack :: unit publish_ack) chat l'. encode_guyos_wire_v1_json_within_limits no_time_deps (MPublish hi_publish) 1048576 65536 = Inr body
    \<and> carried no_time_deps 1048576 body (MPublish hi_publish)
    \<and> handle_client_message (Attached ''r'' 1048576 65536) (MPublish hi_publish) demo_policy (demo_verifier 0) accept_or_replay
        room_publish_state_default = Some (Attached ''r'' 1048576 65536, PublishHandled ack (Some chat), l')"
proof -
  have "utf8_string (pub_text hi_publish)" "length (pub_text hi_publish) \<le> unat (65536 :: u32)"
    "6 * unat (65536 :: u32) + 602 \<le> unat (1048576 :: u32)"
    "accept_or_replay room_publish_state_default ''r'' (pub_client_message_id hi_publish) = Some (FirstAcceptance 0, demo_ledger)"
    using demo_accept(1) by (simp_all add: hi_publish_def utf8_string_ascii_Cons)
  from publish_delivered [where p = hi_publish and accept = accept_or_replay and ledger = room_publish_state_default
      and room = "''r''" and pol = demo_policy and v = "demo_verifier 0", OF no_time_library this]
  show ?thesis unfolding is_first.simps if_True by blast
qed

text \<open>The exact size of the bodies the standard printer writes.\<close>

lemma json_escape_plain: "\<forall>c \<in> set s. escape_char c = [c] \<Longrightarrow> json_escape s = s"
  by (induction s) (simp_all add: json_escape_def)

lemma escape_char_graphic: "48 \<le> char_code c \<and> char_code c \<noteq> 92 \<or> c = CHR ''-'' \<Longrightarrow> escape_char c = [c]"
proof -
  assume c: "48 \<le> char_code c \<and> char_code c \<noteq> 92 \<or> c = CHR ''-''"
  then have "\<not> char_code c < 32" "c \<notin> {QUOTE, BACKSLASH, CHR 0x08, CHR 0x09, CHR 0x0A, CHR 0x0C, CHR 0x0D}" by auto
  then show ?thesis by (simp add: escape_char_def)
qed

lemma length_quote_id: "length (json_quote (hyphenated u)) = 38"
proof -
  have hex: "48 \<le> char_code (hex_digit n) \<and> char_code (hex_digit n) \<noteq> 92" if "n < 16" for n
    using that by (simp add: hex_digit_def)
  have "48 \<le> char_code d \<and> char_code d \<noteq> 92" if "d \<in> set (hex bs)" for d bs
    using that by (induction bs) (auto simp: hex_def hex octet_halves)
  then have "\<forall>c \<in> set (hyphenated u). escape_char c = [c]"
    by (auto simp: hyphenated_def Let_def dest!: in_set_takeD in_set_dropD intro: escape_char_graphic)
  then show ?thesis by (simp add: json_quote_def json_escape_plain length_hyphenated)
qed

lemma length_quote_dec: "length (json_quote (dec_of_nat n)) = 2 + length (dec_of_nat n)"
proof -
  have "\<forall>c \<in> set (dec_of_nat n). escape_char c = [c]"
    by (auto simp: is_ascii_digit_def dest!: dec_of_nat_digits intro: escape_char_graphic)
  then show ?thesis by (simp add: json_quote_def json_escape_plain)
qed

lemma length_quote_keys:
  "length (json_quote ''type'') = 6" "length (json_quote ''text'') = 6" "length (json_quote ''seq'') = 5"
  "length (json_quote ''client_message_id'') = 19" "length (json_quote ''publish'') = 9"
  "length (json_quote ''publish_ack'') = 13" "length (json_quote ''chat_message'') = 14"
  by (simp_all add: json_quote_def json_escape_def escape_char_def)

lemma length_quote: "length (json_quote t) = 2 + length (json_escape t)"
  by (simp add: json_quote_def)

lemma key_texts: "utf8_string ''type''" "utf8_string ''text''" "utf8_string ''seq''" "utf8_string ''client_message_id''"
  "utf8_string ''publish''" "utf8_string ''publish_ack''" "utf8_string ''chat_message''"
  by (simp_all add: utf8_string_ascii_Cons)

lemma printed_publish:
  assumes "utf8_string t"
  shows "\<exists>s. json_print (JObject [''type'' \<mapsto> JString ''publish'', ''client_message_id'' \<mapsto> JString (hyphenated u),
      ''text'' \<mapsto> JString t]) = Some s \<and> length s = 87 + length (json_escape t)" (is "\<exists>s. json_print (JObject ?m) = _ \<and> _")
proof -
  have dom: "dom ?m = set [''client_message_id'', ''text'', ''type'']" by auto
  show ?thesis
    using json_print_object [OF _ dom, of "[json_quote (hyphenated u), json_quote t, json_quote ''publish'']"] assms
    by (simp add: key_texts utf8_hyphenated length_quote_id length_quote_keys length_quote [of t])
qed

lemma printed_publish_ack:
  "\<exists>s. json_print (JObject [''type'' \<mapsto> JString ''publish_ack'', ''client_message_id'' \<mapsto> JString (hyphenated u),
      ''seq'' \<mapsto> JString (dec_of_nat n)]) = Some s \<and> length s = 90 + length (dec_of_nat n)"
  (is "\<exists>s. json_print (JObject ?m) = _ \<and> _")
proof -
  have dom: "dom ?m = set [''client_message_id'', ''seq'', ''type'']" by auto
  show ?thesis
    using json_print_object [OF _ dom, of "[json_quote (hyphenated u), json_quote (dec_of_nat n), json_quote ''publish_ack'']"]
    by (simp add: key_texts utf8_hyphenated length_quote_id length_quote_keys length_quote_dec)
qed

lemma printed_chat:
  assumes "utf8_string t"
  shows "\<exists>s. json_print (JObject [''type'' \<mapsto> JString ''chat_message'', ''seq'' \<mapsto> JString (dec_of_nat n),
      ''client_message_id'' \<mapsto> JString (hyphenated u), ''text'' \<mapsto> JString t]) = Some s
    \<and> length s = 101 + length (dec_of_nat n) + length (json_escape t)"
  (is "\<exists>s. json_print (JObject ?m) = _ \<and> _")
proof -
  have dom: "dom ?m = set [''client_message_id'', ''seq'', ''text'', ''type'']" by auto
  show ?thesis
    using json_print_object [OF _ dom, of "[json_quote (hyphenated u), json_quote (dec_of_nat n), json_quote t, json_quote ''chat_message'']"]
      assms
    by (simp add: key_texts utf8_hyphenated length_quote_id length_quote_keys length_quote_dec length_quote [of t])
qed

text \<open>
  C29: A frame limit can be too tight: with the standard JSON text, a publish whose body fits the
  frame limit while its chat message, longer by its number and its type, does not, is accepted and
  numbered by the ledger and acknowledged, and the chat message for the observers cannot be encoded
  for any of them; the text is lost to the room although its retries are answered as accepted.
\<close>

theorem tight_frame_limit_loses_text:
  assumes "utf8_string (pub_text p)" and "length (pub_text p) \<le> unat l"
    and "accept ledger room (pub_client_message_id p) = Some (FirstAcceptance n, ledger')"
    and "87 + length (json_escape (pub_text p)) \<le> unat f" and "90 + length (u64_to_string n) \<le> unat f"
    and "unat f < 101 + length (u64_to_string n) + length (json_escape (pub_text p))"
  shows "\<exists>body ack reply chat. encode_guyos_wire_v1_json_within_limits (standard_deps fmt prs) (MPublish p) f l = Inr body
    \<and> decode_guyos_wire_v1_json (standard_deps fmt prs) body = Inr (MPublish p)
    \<and> handle_client_message (Attached room f l) (MPublish p) pol v accept ledger
        = Some (Attached room f l, PublishHandled ack (Some chat), ledger')
    \<and> encode_guyos_wire_v1_json_within_limits (standard_deps fmt prs) (MPublishAck ack) f l = Inr reply
    \<and> (\<exists>k. encode_guyos_wire_v1_json_within_limits (standard_deps fmt prs) (MChatMessage chat) f l = Inl (JsonBodyTooLarge k f))"
proof -
  let ?u = "pub_client_message_id p"
  let ?ack = "\<lparr>pa_seq = n, pa_client_message_id = ?u, pa_server_timestamp = None\<rparr>"
  let ?chat = "\<lparr>cm_seq = n, cm_client_message_id = ?u, cm_text = pub_text p,
    cm_sender_endpoint_id = None, cm_server_timestamp = None\<rparr>"
  obtain s where s: "json_print (JObject [''type'' \<mapsto> JString ''publish'', ''client_message_id'' \<mapsto> JString (hyphenated ?u),
      ''text'' \<mapsto> JString (pub_text p)]) = Some s" "length s = 87 + length (json_escape (pub_text p))"
    using printed_publish [OF assms(1)] by blast
  obtain q where q: "json_print (JObject [''type'' \<mapsto> JString ''publish_ack'', ''client_message_id'' \<mapsto> JString (hyphenated ?u),
      ''seq'' \<mapsto> JString (u64_to_string n)]) = Some q" "length q = 90 + length (u64_to_string n)"
    using printed_publish_ack unfolding u64_to_string_def by blast
  obtain c where c: "json_print (JObject [''type'' \<mapsto> JString ''chat_message'', ''seq'' \<mapsto> JString (u64_to_string n),
      ''client_message_id'' \<mapsto> JString (hyphenated ?u), ''text'' \<mapsto> JString (pub_text p)]) = Some c"
      "length c = 101 + length (u64_to_string n) + length (json_escape (pub_text p))"
    using printed_chat [OF assms(1)] unfolding u64_to_string_def by blast
  have body: "encode_guyos_wire_v1_json_within_limits (standard_deps fmt prs) (MPublish p) f l = Inr s"
    using s assms(2,4) by (simp add: encode_within_limits_Inr_iff validate_text_len_eq uuid_wire_string_def)
  have "decode_guyos_wire_v1_json (standard_deps fmt prs) s = Inr (MPublish p)"
    using encode_then_decode [OF body] json_parse_print by (simp add: standard.ids_ok)
  moreover have "encode_guyos_wire_v1_json_within_limits (standard_deps fmt prs) (MPublishAck ?ack) f l = Inr q"
    using q assms(5) by (simp add: encode_within_limits_Inr_iff uuid_wire_string_def seq_to_wire_def)
  moreover have "encode_guyos_wire_v1_json_within_limits (standard_deps fmt prs) (MChatMessage ?chat) f l = Inl (JsonBodyTooLarge (length c) f)"
    using c assms(2,6)
    by (simp add: encode_guyos_wire_v1_json_within_limits_def validate_text_len_eq uuid_wire_string_def seq_to_wire_def)
  moreover have "handle_client_message (Attached room f l) (MPublish p) pol v accept ledger
      = Some (Attached room f l, PublishHandled ?ack (Some ?chat), ledger')"
    using assms(2,3) by (simp add: dispatch_publish_cases)
  ultimately show ?thesis using body by blast
qed

theorem tight_frame_limit_loses_text_witness:
  "\<exists>(ack :: unit publish_ack) chat l' k. handle_client_message (Attached ''r'' 100 16) (MPublish hi_publish) (single_major 1 0 100 16 None)
      (demo_verifier 0) accept_or_replay room_publish_state_default
      = Some (Attached ''r'' 100 16, PublishHandled ack (Some chat), l')
    \<and> encode_guyos_wire_v1_json_within_limits no_time_deps (MChatMessage chat) 100 16 = Inl (JsonBodyTooLarge k 100)"
proof -
  have "json_escape (pub_text hi_publish) = ''hi''" "u64_to_string 0 = ''0''"
    by (simp_all add: hi_publish_def json_escape_def escape_char_def u64_to_string_def dec_of_nat_0)
  then have h: "utf8_string (pub_text hi_publish)" "length (pub_text hi_publish) \<le> unat (16 :: u32)"
    "accept_or_replay room_publish_state_default ''r'' (pub_client_message_id hi_publish) = Some (FirstAcceptance 0, demo_ledger)"
    "87 + length (json_escape (pub_text hi_publish)) \<le> unat (100 :: u32)" "90 + length (u64_to_string 0) \<le> unat (100 :: u32)"
    "unat (100 :: u32) < 101 + length (u64_to_string 0) + length (json_escape (pub_text hi_publish))"
    using demo_accept(1) by (simp_all add: hi_publish_def utf8_string_ascii_Cons)
  from tight_frame_limit_loses_text [where p = hi_publish and accept = accept_or_replay and ledger = room_publish_state_default
      and room = "''r''" and pol = "single_major 1 0 100 16 None" and v = "demo_verifier 0"
      and fmt = "\<lambda>_ :: unit. None" and prs = "\<lambda>_. None", OF h]
  show ?thesis unfolding no_time_deps_def by blast
qed

end
