(* ===== verification/Chat_Backend.thy ===== *)
theory Chat_Backend
  imports Text
begin

text \<open>
  Relay chat below the application service: the errors of the facade
  (\<^verbatim>\<open>guyos_core/src/error.rs\<close>), the outbound port \<open>RelayChatBackend\<close>
  (\<^verbatim>\<open>ports/outbound/relay_chat_backend.rs\<close>) as a record of operations with its laws in the locale
  \<open>relay_backend\<close>, and the test double \<^verbatim>\<open>fake_relay_chat_backend.rs\<close>, which meets them.

  An operation runs under the service's lock, so it is one function from the backend to the
  result, the next backend and the effects it had, in order. What the outside answers (the
  network, random numbers) is the argument \<open>'e\<close>. \<^const>\<open>None\<close> is a panic.
\<close>

section \<open>Errors\<close>

datatype chat_error =
    EndpointBind string
  | InvalidTicket string
  | Gossip string
  | Send string
  | Internal string

fun chat_error_fmt :: "chat_error \<Rightarrow> string" where
  "chat_error_fmt (EndpointBind msg) = ''Failed to create network endpoint: '' @ msg"
| "chat_error_fmt (InvalidTicket msg) = ''Invalid chat ticket: '' @ msg"
| "chat_error_fmt (Gossip msg) = ''Gossip protocol error: '' @ msg"
| "chat_error_fmt (Send msg) = ''Failed to send message: '' @ msg"
| "chat_error_fmt (Internal msg) = ''Internal chat error: '' @ msg"

text \<open>The convenience constructors; a foreign error is represented by its display text.\<close>

definition endpoint_bind :: "string \<Rightarrow> chat_error" where
  "endpoint_bind = EndpointBind"

definition invalid_ticket :: "string \<Rightarrow> chat_error" where
  "invalid_ticket = InvalidTicket"

definition gossip :: "string \<Rightarrow> chat_error" where
  "gossip = Gossip"

definition send :: "string \<Rightarrow> chat_error" where
  "send = Send"

definition internal :: "string \<Rightarrow> chat_error" where
  "internal = Internal"

lemmas chat_error_constructors [simp] = endpoint_bind_def invalid_ticket_def gossip_def send_def internal_def

section \<open>Messages and effects\<close>

record chat_message =
  chat_id :: string
  chat_from :: string
  chat_text :: string

type_synonym topic_id = bytes
type_synonym endpoint_id = bytes

datatype effect =
    Bound endpoint_id
  | Subscribed topic_id "endpoint_id list"
  | Broadcast topic_id bytes
  | SpawnSubscribeLoop topic_id
  | Echo chat_message

fun echoes :: "effect list \<Rightarrow> chat_message list" where
  "echoes [] = []"
| "echoes (Echo m # effs) = m # echoes effs"
| "echoes (_ # effs) = echoes effs"

fun subscribe_loops :: "effect list \<Rightarrow> topic_id list" where
  "subscribe_loops [] = []"
| "subscribe_loops (SpawnSubscribeLoop t # effs) = t # subscribe_loops effs"
| "subscribe_loops (_ # effs) = subscribe_loops effs"

lemma echoes_append [simp]: "echoes (xs @ ys) = echoes xs @ echoes ys"
  by (induction xs rule: echoes.induct) auto

lemma subscribe_loops_append [simp]: "subscribe_loops (xs @ ys) = subscribe_loops xs @ subscribe_loops ys"
  by (induction xs rule: subscribe_loops.induct) auto

section \<open>The port\<close>

type_synonym ('a, 'b) op_result = "((chat_error + 'a) \<times> 'b \<times> effect list) option"

record ('e, 'b) relay_chat_backend =
  begin_open_room :: "'e \<Rightarrow> 'b \<Rightarrow> (string, 'b) op_result"
  finish_open_join_pending :: "'e \<Rightarrow> string option \<Rightarrow> 'b \<Rightarrow> (unit, 'b) op_result"
  join_room :: "'e \<Rightarrow> string \<Rightarrow> string option \<Rightarrow> 'b \<Rightarrow> (unit, 'b) op_result"
  send_user_message :: "'e \<Rightarrow> string option \<Rightarrow> string \<Rightarrow> 'b \<Rightarrow> (unit, 'b) op_result"

text \<open>
  What the service relies on: from a state in the backend's invariant no operation panics, all
  keep the invariant, a room once joined stays joined, a successful finish or join joins, only
  a send echoes, it echoes at most its own text, and it starts no subscribe loop.
\<close>

definition safe_result :: "('b \<Rightarrow> bool) \<Rightarrow> ('b \<Rightarrow> bool) \<Rightarrow> 'b \<Rightarrow> ('a, 'b) op_result \<Rightarrow> bool" where
  "safe_result ok joined b res \<longleftrightarrow>
     (case res of None \<Rightarrow> False | Some (r, b', effs) \<Rightarrow> ok b' \<and> (joined b \<longrightarrow> joined b'))"

lemma safe_result_from:
  "safe_result ok joined b res \<Longrightarrow> joined b' = joined b \<Longrightarrow> safe_result ok joined b' res"
  by (auto simp: safe_result_def split: option.splits)

locale relay_backend =
  fixes B :: "('e, 'b) relay_chat_backend"
    and ok :: "'b \<Rightarrow> bool"
    and joined :: "'b \<Rightarrow> bool"
  assumes begin_safe: "ok b \<Longrightarrow> safe_result ok joined b (begin_open_room B e b)"
    and finish_safe: "ok b \<Longrightarrow> safe_result ok joined b (finish_open_join_pending B e name b)"
    and join_safe: "ok b \<Longrightarrow> safe_result ok joined b (join_room B e ticket name b)"
    and send_safe: "ok b \<Longrightarrow> safe_result ok joined b (send_user_message B e name text b)"
    and begin_quiet: "begin_open_room B e b = Some (r, b', effs) \<Longrightarrow> echoes effs = []"
    and finish_joins: "finish_open_join_pending B e name b = Some (q, b', effs) \<Longrightarrow>
          echoes effs = [] \<and> (q = Inr () \<longrightarrow> joined b')"
    and join_joins: "join_room B e ticket name b = Some (q, b', effs) \<Longrightarrow>
          echoes effs = [] \<and> (q = Inr () \<longrightarrow> joined b')"
    and send_echoes: "send_user_message B e name text b = Some (q, b', effs) \<Longrightarrow>
          (\<exists>m. echoes effs = [m] \<and> chat_text m = text) \<or> echoes effs = []"
    and send_starts_no_loop: "send_user_message B e name text b = Some (q, b', effs) \<Longrightarrow> subscribe_loops effs = []"

section \<open>The test double\<close>

record fake_relay_chat_backend =
  pending_ticket :: "string option"
  fake_joined :: bool
  last_send :: "string option"

definition fake_new :: fake_relay_chat_backend where
  "fake_new = \<lparr>pending_ticket = None, fake_joined = False, last_send = None\<rparr>"

definition fake_begin_open_room :: "fake_relay_chat_backend \<Rightarrow> (string, fake_relay_chat_backend) op_result" where
  "fake_begin_open_room b =
     (let ticket = ''fake-open-ticket''
      in Some (Inr ticket, b\<lparr>pending_ticket := Some ticket\<rparr>, []))"

definition fake_finish_open_join_pending ::
    "fake_relay_chat_backend \<Rightarrow> (unit, fake_relay_chat_backend) op_result" where
  "fake_finish_open_join_pending b = Some (Inr (), b\<lparr>fake_joined := True, pending_ticket := None\<rparr>, [])"

definition fake_join_room ::
    "string \<Rightarrow> fake_relay_chat_backend \<Rightarrow> (unit, fake_relay_chat_backend) op_result" where
  "fake_join_room ticket_str b =
     (if ticket_str = [] then Some (Inl (invalid_ticket ''empty ticket''), b, [])
      else Some (Inr (), b\<lparr>fake_joined := True\<rparr>, []))"

definition fake_send_user_message ::
    "string \<Rightarrow> fake_relay_chat_backend \<Rightarrow> (unit, fake_relay_chat_backend) op_result" where
  "fake_send_user_message text b =
     Some (Inr (), b\<lparr>last_send := Some text\<rparr>,
       [Echo \<lparr>chat_id = ''fake'', chat_from = ''self'', chat_text = text\<rparr>])"

definition fake_relay :: "(unit, fake_relay_chat_backend) relay_chat_backend" where
  "fake_relay =
     \<lparr>begin_open_room = (\<lambda>_. fake_begin_open_room),
      finish_open_join_pending = (\<lambda>_ _. fake_finish_open_join_pending),
      join_room = (\<lambda>_ ticket_str _. fake_join_room ticket_str),
      send_user_message = (\<lambda>_ _ text. fake_send_user_message text)\<rparr>"

lemmas fake_relay_defs = fake_relay_def fake_begin_open_room_def fake_finish_open_join_pending_def
  fake_join_room_def fake_send_user_message_def

interpretation fake: relay_backend fake_relay "\<lambda>_. True" fake_joined
  by unfold_locales (auto simp: fake_relay_defs safe_result_def Let_def split: if_splits)

end
