(* ===== verification/Iroh_Backend.thy ===== *)
theory Iroh_Backend
  imports Chat_Backend
begin

text \<open>
  The relay backend over iroh gossip
  (\<^verbatim>\<open>guyos_core/src/adapters/outbound/iroh_gossip_relay_backend.rs\<close>): tickets, the gossip
  messages, the backend's options for endpoint, gossip, router, sender and pending topic, its
  four operations and the subscribe loop. Endpoint, gossip, JSON, base32 and random numbers are
  third party: pure functions of them are the record \<open>iroh_deps\<close>, what they answer in one call
  is the record \<open>iroh_env\<close>.
\<close>

section \<open>Data\<close>

datatype message_body = AboutMe endpoint_id string | UserMessage endpoint_id string

record gossip_message =
  gm_body :: message_body
  gm_nonce :: bytes

record 'a endpoint_addr =
  ea_id :: endpoint_id
  ea_rest :: 'a

record 'a iroh_ticket =
  tk_topic :: topic_id
  tk_endpoints :: "'a endpoint_addr list"

record 'a iroh_deps =
  message_from_slice :: "bytes \<Rightarrow> string + gossip_message"
  message_to_vec :: "gossip_message \<Rightarrow> bytes"
  ticket_from_slice :: "bytes \<Rightarrow> string + 'a iroh_ticket"
  ticket_to_vec :: "'a iroh_ticket \<Rightarrow> bytes"
  base32_encode :: "bytes \<Rightarrow> string"
  base32_decode :: "bytes \<Rightarrow> string + bytes"
  hexlower_encode :: "bytes \<Rightarrow> string"
  fmt_short :: "endpoint_id \<Rightarrow> string"

text \<open>
  What one call is answered: binding an endpoint, its current address, a random topic, a random
  nonce, joining the topic, a broadcast.
\<close>

record 'a iroh_env =
  env_bind :: "string + endpoint_id"
  env_addr :: 'a
  env_topic :: topic_id
  env_nonce :: bytes
  env_join :: "string + unit"
  env_broadcast :: "string + unit"

section \<open>Messages and tickets\<close>

definition message_from_bytes :: "'a iroh_deps \<Rightarrow> bytes \<Rightarrow> chat_error + gossip_message" where
  "message_from_bytes D bs = map_err internal (message_from_slice D bs)"

definition message_new :: "'a iroh_env \<Rightarrow> message_body \<Rightarrow> gossip_message" where
  "message_new e body = \<lparr>gm_body = body, gm_nonce = env_nonce e\<rparr>"

definition ticket_from_bytes :: "'a iroh_deps \<Rightarrow> bytes \<Rightarrow> chat_error + 'a iroh_ticket" where
  "ticket_from_bytes D bs = map_err invalid_ticket (ticket_from_slice D bs)"

definition ticket_to_string :: "'a iroh_deps \<Rightarrow> 'a iroh_ticket \<Rightarrow> string" where
  "ticket_to_string D t = to_ascii_lowercase (base32_encode D (ticket_to_vec D t))"

definition ticket_from_str :: "'a iroh_deps \<Rightarrow> string \<Rightarrow> chat_error + 'a iroh_ticket" where
  "ticket_from_str D s =
     and_then (map_err invalid_ticket (base32_decode D (as_bytes (to_ascii_uppercase s))))
       (ticket_from_bytes D)"

definition peer_key :: "'a iroh_deps \<Rightarrow> endpoint_id \<Rightarrow> string" where
  "peer_key D i = fmt_short D i"

section \<open>The backend\<close>

record iroh_backend =
  ib_endpoint :: "endpoint_id option"
  ib_gossip :: "unit option"
  ib_router :: "unit option"
  ib_sender :: "topic_id option"
  ib_pending_topic :: "topic_id option"

definition iroh_new :: iroh_backend where
  "iroh_new = \<lparr>ib_endpoint = None, ib_gossip = None, ib_router = None, ib_sender = None,
     ib_pending_topic = None\<rparr>"

definition ensure_stack ::
    "'a iroh_env \<Rightarrow> iroh_backend \<Rightarrow> (chat_error + unit) \<times> iroh_backend \<times> effect list" where
  "ensure_stack e b =
     (if ib_endpoint b = None then
        (case env_bind e of
           Inl err \<Rightarrow> (Inl (endpoint_bind err), b, [])
         | Inr endpoint \<Rightarrow>
             (Inr (), b\<lparr>ib_endpoint := Some endpoint, ib_gossip := Some (), ib_router := Some ()\<rparr>,
              [Bound endpoint]))
      else (Inr (), b, []))"

definition join_internal ::
    "'a iroh_deps \<Rightarrow> 'a iroh_env \<Rightarrow> topic_id \<Rightarrow> endpoint_id list \<Rightarrow> string option \<Rightarrow> iroh_backend
     \<Rightarrow> (unit, iroh_backend) op_result" where
  "join_internal D e topic endpoint_ids display_name b =
     (case ib_gossip b of
        None \<Rightarrow> None
      | Some _ \<Rightarrow>
          (case env_join e of
             Inl err \<Rightarrow> Some (Inl (gossip err), b, [])
           | Inr _ \<Rightarrow>
               let b = b\<lparr>ib_sender := Some topic\<rparr>;
                   sent = (case (display_name, ib_endpoint b) of
                       (Some name, Some endpoint) \<Rightarrow>
                         let msg = message_new e (AboutMe endpoint name)
                         in case ib_sender b of
                              Some sender \<Rightarrow>
                                (case env_broadcast e of
                                   Inl err \<Rightarrow> (Inl (send err), [])
                                 | Inr _ \<Rightarrow> (Inr (), [Broadcast sender (message_to_vec D msg)]))
                            | None \<Rightarrow> (Inr (), [])
                     | _ \<Rightarrow> (Inr (), []))
               in case sent of
                    (Inl err, effs) \<Rightarrow> Some (Inl err, b, Subscribed topic endpoint_ids # effs)
                  | (Inr _, effs) \<Rightarrow>
                      Some (Inr (), b, Subscribed topic endpoint_ids # effs @ [SpawnSubscribeLoop topic])))"

definition begin_open_room_inner ::
    "'a iroh_deps \<Rightarrow> 'a iroh_env \<Rightarrow> iroh_backend \<Rightarrow> (string, iroh_backend) op_result" where
  "begin_open_room_inner D e b =
     (case ensure_stack e b of
        (Inl err, b, effs) \<Rightarrow> Some (Inl err, b, effs)
      | (Inr _, b, effs) \<Rightarrow>
          (case ib_endpoint b of
             None \<Rightarrow> None
           | Some endpoint \<Rightarrow>
               let topic = env_topic e;
                   b = b\<lparr>ib_pending_topic := Some topic\<rparr>;
                   me = \<lparr>ea_id = endpoint, ea_rest = env_addr e\<rparr>;
                   ticket = \<lparr>tk_topic = topic, tk_endpoints = [me]\<rparr>
               in Some (Inr (ticket_to_string D ticket), b, effs)))"

definition finish_open_join_pending_inner ::
    "'a iroh_deps \<Rightarrow> 'a iroh_env \<Rightarrow> string option \<Rightarrow> iroh_backend \<Rightarrow> (unit, iroh_backend) op_result" where
  "finish_open_join_pending_inner D e display_name b =
     (case ib_pending_topic b of
        None \<Rightarrow> Some (Inl (internal ''open room has no pending topic''), b, [])
      | Some topic \<Rightarrow> join_internal D e topic [] display_name (b\<lparr>ib_pending_topic := None\<rparr>))"

definition join_room_inner ::
    "'a iroh_deps \<Rightarrow> 'a iroh_env \<Rightarrow> string \<Rightarrow> string option \<Rightarrow> iroh_backend \<Rightarrow> (unit, iroh_backend) op_result" where
  "join_room_inner D e ticket_str display_name b =
     (case ticket_from_str D ticket_str of
        Inl err \<Rightarrow> Some (Inl err, b, [])
      | Inr ticket \<Rightarrow>
          let endpoint_ids = map ea_id (tk_endpoints ticket)
          in case ensure_stack e b of
               (Inl err, b, effs) \<Rightarrow> Some (Inl err, b, effs)
             | (Inr _, b, effs) \<Rightarrow>
                 (case join_internal D e (tk_topic ticket) endpoint_ids display_name b of
                    None \<Rightarrow> None
                  | Some (r, b, effs') \<Rightarrow> Some (r, b, effs @ effs')))"

definition send_user_message_inner ::
    "'a iroh_deps \<Rightarrow> 'a iroh_env \<Rightarrow> string option \<Rightarrow> string \<Rightarrow> iroh_backend \<Rightarrow> (unit, iroh_backend) op_result" where
  "send_user_message_inner D e display_name text b =
     (case (ib_sender b, ib_endpoint b) of
        (Some sender, Some endpoint) \<Rightarrow>
          let msg = message_new e (UserMessage endpoint text);
              i = hexlower_encode D (gm_nonce msg)
          in (case env_broadcast e of
                Inl err \<Rightarrow> Some (Inl (send err), b, [])
              | Inr _ \<Rightarrow>
                  let from_name = (case display_name of Some n \<Rightarrow> n | None \<Rightarrow> fmt_short D endpoint)
                  in Some (Inr (), b, [Broadcast sender (message_to_vec D msg),
                       Echo \<lparr>chat_id = i, chat_from = from_name, chat_text = text\<rparr>]))
      | _ \<Rightarrow> Some (Inr (), b, []))"

definition iroh_relay :: "'a iroh_deps \<Rightarrow> ('a iroh_env, iroh_backend) relay_chat_backend" where
  "iroh_relay D =
     \<lparr>begin_open_room = begin_open_room_inner D,
      finish_open_join_pending = finish_open_join_pending_inner D,
      join_room = join_room_inner D,
      send_user_message = send_user_message_inner D\<rparr>"

section \<open>The subscribe loop\<close>

datatype gossip_event = Received bytes | OtherEvent

text \<open>One event under the shared map of names: the next map, and the messages it sends on.\<close>

definition handle_event ::
    "'a iroh_deps \<Rightarrow> gossip_event \<Rightarrow> (string \<rightharpoonup> string) \<Rightarrow> (string \<rightharpoonup> string) \<times> chat_message list" where
  "handle_event D event names =
     (case event of
        OtherEvent \<Rightarrow> (names, [])
      | Received content \<Rightarrow>
          (case message_from_bytes D content of
             Inl _ \<Rightarrow> (names, [])
           | Inr message \<Rightarrow>
               (case gm_body message of
                  AboutMe from name \<Rightarrow> (names(peer_key D from \<mapsto> name), [])
                | UserMessage from text \<Rightarrow>
                    let from_name = (case names (peer_key D from) of
                          Some n \<Rightarrow> n | None \<Rightarrow> fmt_short D from);
                        i = hexlower_encode D (gm_nonce message)
                    in (names, [\<lparr>chat_id = i, chat_from = from_name, chat_text = text\<rparr>]))))"

text \<open>
  The loop over the answers of \<open>receiver.try_next()\<close>: an error ends it, so does the end of the
  stream; where the answers end, it waits (\<^const>\<open>None\<close>).
\<close>

fun subscribe_loop ::
    "'a iroh_deps \<Rightarrow> (string + gossip_event option) list \<Rightarrow> (string \<rightharpoonup> string)
     \<Rightarrow> (chat_error + unit) option \<times> (string \<rightharpoonup> string) \<times> chat_message list" where
  "subscribe_loop D [] names = (None, names, [])"
| "subscribe_loop D (Inl err # answers) names = (Some (Inl (gossip err)), names, [])"
| "subscribe_loop D (Inr None # answers) names = (Some (Inr ()), names, [])"
| "subscribe_loop D (Inr (Some event) # answers) names =
     (case handle_event D event names of
        (names', out) \<Rightarrow>
          (case subscribe_loop D answers names' of (r, names'', outs) \<Rightarrow> (r, names'', out @ outs)))"

section \<open>Lemmas\<close>

text \<open>
  The options of the backend move together, so no \<open>unwrap\<close> is reached without its value.
\<close>

definition iroh_ok :: "iroh_backend \<Rightarrow> bool" where
  "iroh_ok b \<longleftrightarrow>
     (ib_gossip b = None \<longleftrightarrow> ib_endpoint b = None) \<and> (ib_router b = None \<longleftrightarrow> ib_endpoint b = None)
   \<and> (ib_pending_topic b \<noteq> None \<longrightarrow> ib_endpoint b \<noteq> None)
   \<and> (ib_sender b \<noteq> None \<longrightarrow> ib_endpoint b \<noteq> None)"

abbreviation iroh_joined :: "iroh_backend \<Rightarrow> bool" where
  "iroh_joined b \<equiv> ib_sender b \<noteq> None"

lemma iroh_ok_new: "iroh_ok iroh_new"
  by (simp add: iroh_ok_def iroh_new_def)

lemma ensure_stack_cases:
  obtains (fail) err where "env_bind e = Inl err" "ib_endpoint b = None"
      "ensure_stack e b = (Inl (EndpointBind err), b, [])"
  | (up) b' effs where "ensure_stack e b = (Inr (), b', effs)" "ib_endpoint b' \<noteq> None"
      "iroh_ok b \<Longrightarrow> iroh_ok b'" "ib_sender b' = ib_sender b" "ib_pending_topic b' = ib_pending_topic b"
      "echoes effs = []" "subscribe_loops effs = []" "\<And>t ids. Subscribed t ids \<notin> set effs"
      "ib_endpoint b \<noteq> None \<Longrightarrow> ib_endpoint b' = ib_endpoint b"
proof (cases "ib_endpoint b")
  case None
  show ?thesis
  proof (cases "env_bind e")
    case (Inl err)
    with None show ?thesis by (intro fail) (simp_all add: ensure_stack_def)
  next
    case (Inr ep)
    show ?thesis
    proof (rule up)
      show "ensure_stack e b = (Inr (),
          b\<lparr>ib_endpoint := Some ep, ib_gossip := Some (), ib_router := Some ()\<rparr>, [Bound ep])"
        using None Inr by (simp add: ensure_stack_def)
    qed (use None in \<open>simp_all add: iroh_ok_def\<close>)
  qed
next
  case (Some ep)
  show ?thesis by (rule up [of b "[]"]) (use Some in \<open>simp_all add: ensure_stack_def\<close>)
qed

text \<open>Joining a topic, on every branch.\<close>

lemma join_internal_cases:
  assumes "ib_gossip b \<noteq> None"
  obtains (refused) err where "env_join e = Inl err"
      "join_internal D e topic ids name b = Some (Inl (Gossip err), b, [])"
  | (unannounced) err where "env_broadcast e = Inl err"
      "join_internal D e topic ids name b
         = Some (Inl (Send err), b\<lparr>ib_sender := Some topic\<rparr>, [Subscribed topic ids])"
  | (joined) effs where "echoes effs = []" "subscribe_loops effs = []"
      "\<And>t is. Subscribed t is \<notin> set effs"
      "join_internal D e topic ids name b
         = Some (Inr (), b\<lparr>ib_sender := Some topic\<rparr>, Subscribed topic ids # effs @ [SpawnSubscribeLoop topic])"
proof -
  consider (1) err where "env_join e = Inl err"
    | (2) u n ep err where "env_join e = Inr u" "name = Some n" "ib_endpoint b = Some ep" "env_broadcast e = Inl err"
    | (3) u n ep v where "env_join e = Inr u" "name = Some n" "ib_endpoint b = Some ep" "env_broadcast e = Inr v"
    | (4) u where "env_join e = Inr u" "name = None \<or> ib_endpoint b = None"
    by (cases "env_join e"; cases "env_broadcast e"; cases name; cases "ib_endpoint b") blast+
  then show thesis
  proof cases
    case 1
    with assms show thesis by (intro refused [of err]) (auto simp: join_internal_def)
  next
    case 2
    with assms show thesis by (intro unannounced [of err]) (auto simp: join_internal_def)
  next
    case 3
    with assms show thesis
      by (intro joined [of "[Broadcast topic (message_to_vec D (message_new e (AboutMe ep n)))]"])
        (auto simp: join_internal_def)
  next
    case 4
    then show thesis
    proof (intro joined [of "[]"])
      show "join_internal D e topic ids name b
         = Some (Inr (), b\<lparr>ib_sender := Some topic\<rparr>, Subscribed topic ids # [] @ [SpawnSubscribeLoop topic])"
        using 4 assms by (cases name; cases "ib_endpoint b") (auto simp: join_internal_def)
    qed simp_all
  qed
qed

lemma join_internal_safe:
  assumes "iroh_ok b" and "ib_endpoint b \<noteq> None"
  shows "safe_result iroh_ok iroh_joined b (join_internal D e topic ids name b)"
proof -
  have "ib_gossip b \<noteq> None" using assms by (simp add: iroh_ok_def)
  then show ?thesis
    using assms
    by (cases rule: join_internal_cases [of b e D topic ids name]) (auto simp: safe_result_def iroh_ok_def)
qed

lemma join_internal_None_iff: "join_internal D e topic ids name b = None \<longleftrightarrow> ib_gossip b = None"
  by (cases "ib_gossip b = None")
    (simp add: join_internal_def, cases rule: join_internal_cases [of b e D topic ids name], auto)

lemma join_internal_quiet:
  assumes "join_internal D e topic ids name b = Some (r, b', effs)"
  shows "echoes effs = [] \<and> ib_pending_topic b' = ib_pending_topic b
    \<and> (r = Inr () \<longrightarrow> iroh_joined b' \<and> ib_sender b' = Some topic
      \<and> Subscribed topic ids \<in> set effs \<and> subscribe_loops effs = [topic])"
proof -
  have "ib_gossip b \<noteq> None" using assms join_internal_None_iff [of D e topic ids name b] by auto
  then show ?thesis
    using assms by (cases rule: join_internal_cases [of b e D topic ids name]) auto
qed

lemma join_internal_subscribes:
  assumes "join_internal D e topic ids name b = Some (r, b', effs)" and "Subscribed t is \<in> set effs"
  shows "t = topic"
proof -
  have "ib_gossip b \<noteq> None" using assms join_internal_None_iff [of D e topic ids name b] by auto
  then show ?thesis
    using assms by (cases rule: join_internal_cases [of b e D topic ids name]) auto
qed

text \<open>The operations, one by one.\<close>

lemma begin_open_room_Inr:
  assumes "begin_open_room_inner D e b = Some (Inr t, b', effs)"
  obtains ep where "ib_endpoint b' = Some ep" "ib_pending_topic b' = Some (env_topic e)"
    "t = ticket_to_string D \<lparr>tk_topic = env_topic e, tk_endpoints = [\<lparr>ea_id = ep, ea_rest = env_addr e\<rparr>]\<rparr>"
    "\<And>t is. Subscribed t is \<notin> set effs" "ib_sender b' = ib_sender b"
    "ib_endpoint b \<noteq> None \<Longrightarrow> ib_endpoint b' = ib_endpoint b"
  using assms
  by (cases rule: ensure_stack_cases [of e b])
    (auto simp: begin_open_room_inner_def Let_def split: option.splits)

lemma begin_open_room_safe:
  assumes "iroh_ok b"
  shows "safe_result iroh_ok iroh_joined b (begin_open_room_inner D e b)"
  using assms
  by (cases rule: ensure_stack_cases [of e b])
    (auto simp: begin_open_room_inner_def Let_def safe_result_def iroh_ok_def split: option.splits)

lemma begin_open_room_quiet:
  "begin_open_room_inner D e b = Some (r, b', effs) \<Longrightarrow> echoes effs = [] \<and> subscribe_loops effs = []"
  by (cases rule: ensure_stack_cases [of e b])
    (auto simp: begin_open_room_inner_def Let_def split: option.splits)

lemma finish_open_safe:
  assumes "iroh_ok b"
  shows "safe_result iroh_ok iroh_joined b (finish_open_join_pending_inner D e name b)"
proof (cases "ib_pending_topic b")
  case None
  with assms show ?thesis by (simp add: finish_open_join_pending_inner_def safe_result_def)
next
  case (Some topic)
  let ?b = "b\<lparr>ib_pending_topic := None\<rparr>"
  have "iroh_ok ?b" "ib_endpoint ?b \<noteq> None" using assms Some by (auto simp: iroh_ok_def)
  from safe_result_from [OF join_internal_safe [OF this, of D e topic "[]" name], of b] Some show ?thesis
    by (simp add: finish_open_join_pending_inner_def)
qed

lemma finish_open_quiet:
  "finish_open_join_pending_inner D e name b = Some (r, b', effs) \<Longrightarrow>
     echoes effs = [] \<and> (r = Inr () \<longrightarrow> iroh_joined b')"
  by (auto simp: finish_open_join_pending_inner_def dest: join_internal_quiet split: option.splits)

lemma join_room_Some:
  assumes "join_room_inner D e ticket_str name b = Some (r, b', effs)" and "r = Inr ()"
  obtains tk b1 effs1 effs2 where "ticket_from_str D ticket_str = Inr tk" "ensure_stack e b = (Inr (), b1, effs1)"
    "join_internal D e (tk_topic tk) (map ea_id (tk_endpoints tk)) name b1 = Some (r, b', effs2)"
    "effs = effs1 @ effs2"
  using assms
  by (auto simp: join_room_inner_def Let_def split: sum.splits prod.splits option.splits)

lemma join_room_safe:
  assumes "iroh_ok b"
  shows "safe_result iroh_ok iroh_joined b (join_room_inner D e ticket_str name b)"
proof (cases "ticket_from_str D ticket_str")
  case (Inl err)
  with assms show ?thesis by (simp add: join_room_inner_def safe_result_def)
next
  case (Inr tk)
  show ?thesis
  proof (cases rule: ensure_stack_cases [of e b])
    case (fail err)
    with Inr assms show ?thesis by (simp add: join_room_inner_def safe_result_def)
  next
    case (up b1 effs)
    from join_internal_safe [OF up(3) [OF assms] up(2), of D e "tk_topic tk" "map ea_id (tk_endpoints tk)" name]
    show ?thesis
      using Inr up(1,4) by (auto simp: join_room_inner_def safe_result_def split: option.splits)
  qed
qed

lemma join_room_quiet:
  assumes "join_room_inner D e ticket_str name b = Some (r, b', effs)"
  shows "echoes effs = [] \<and> (r = Inr () \<longrightarrow> iroh_joined b')"
proof (cases "ticket_from_str D ticket_str")
  case (Inl err)
  with assms show ?thesis by (auto simp: join_room_inner_def)
next
  case (Inr tk)
  with assms show ?thesis
    by (cases rule: ensure_stack_cases [of e b])
      (auto simp: join_room_inner_def Let_def dest: join_internal_quiet split: option.splits)
qed

lemma send_user_message_cases:
  obtains (idle) "ib_sender b = None \<or> ib_endpoint b = None"
      "send_user_message_inner D e name text b = Some (Inr (), b, [])"
  | (failed) err where "env_broadcast e = Inl err"
      "send_user_message_inner D e name text b = Some (Inl (Send err), b, [])"
  | (sent) topic ep where "ib_sender b = Some topic" "ib_endpoint b = Some ep"
      "send_user_message_inner D e name text b = Some (Inr (), b,
         [Broadcast topic (message_to_vec D (message_new e (UserMessage ep text))),
          Echo \<lparr>chat_id = hexlower_encode D (env_nonce e),
            chat_from = (case name of Some n \<Rightarrow> n | None \<Rightarrow> fmt_short D ep), chat_text = text\<rparr>])"
proof (cases "ib_sender b = None \<or> ib_endpoint b = None")
  case True
  then show thesis by (intro idle) (auto simp: send_user_message_inner_def split: option.split)
next
  case False
  then obtain t ep where "ib_sender b = Some t" "ib_endpoint b = Some ep" by auto
  then show thesis
    by (cases "env_broadcast e")
      (simp_all add: failed sent send_user_message_inner_def message_new_def Let_def)
qed

interpretation iroh: relay_backend "iroh_relay D" iroh_ok iroh_joined
  for D :: "'a iroh_deps"
proof (unfold_locales, goal_cases)
  case (1 b e)
  then show ?case unfolding iroh_relay_def relay_chat_backend.select_convs by (rule begin_open_room_safe)
next
  case (2 b e name)
  then show ?case unfolding iroh_relay_def relay_chat_backend.select_convs by (rule finish_open_safe)
next
  case (3 b e ticket name)
  then show ?case unfolding iroh_relay_def relay_chat_backend.select_convs by (rule join_room_safe)
next
  case (4 b e name body) then show ?case
    by (cases rule: send_user_message_cases [of b D e name body]) (auto simp: iroh_relay_def safe_result_def)
next
  case (5 e b r b' effs) then show ?case by (auto simp: iroh_relay_def dest: begin_open_room_quiet)
next
  case (6 e name b q b' effs) then show ?case by (auto simp: iroh_relay_def dest: finish_open_quiet)
next
  case (7 e ticket name b q b' effs) then show ?case by (auto simp: iroh_relay_def dest: join_room_quiet)
next
  case (8 e name body b q b' effs) then show ?case
    by (cases rule: send_user_message_cases [of b D e name body]) (auto simp: iroh_relay_def)
next
  case (9 e name body b q b' effs) then show ?case
    by (cases rule: send_user_message_cases [of b D e name body]) (auto simp: iroh_relay_def)
qed

section \<open>Lemmas: tickets and names\<close>

text \<open>
  Documented behaviour for one ticket: JSON and base32 read back what they wrote, and base32
  text has no lower-case letter.
\<close>

definition ticket_text_ok :: "'a iroh_deps \<Rightarrow> 'a iroh_ticket \<Rightarrow> bool" where
  "ticket_text_ok D t \<longleftrightarrow>
     ticket_from_slice D (ticket_to_vec D t) = Inr t
   \<and> base32_decode D (as_bytes (base32_encode D (ticket_to_vec D t))) = Inr (ticket_to_vec D t)
   \<and> (\<forall>c \<in> set (base32_encode D (ticket_to_vec D t)). \<not> (97 \<le> char_code c \<and> char_code c \<le> 122))"

lemma ticket_parses_back:
  assumes "ticket_text_ok D t" and "to_ascii_uppercase s = to_ascii_uppercase (ticket_to_string D t)"
  shows "ticket_from_str D s = Inr t"
proof -
  have "to_ascii_uppercase s = base32_encode D (ticket_to_vec D t)"
    using assms by (simp add: ticket_to_string_def to_upper_lower ticket_text_ok_def)
  then show ?thesis
    using assms(1) by (simp add: ticket_from_str_def ticket_from_bytes_def ticket_text_ok_def)
qed

text \<open>The names announced in a list of events, the latest first.\<close>

fun announced :: "'a iroh_deps \<Rightarrow> gossip_event list \<Rightarrow> (string \<times> string) list" where
  "announced D [] = []"
| "announced D (OtherEvent # evs) = announced D evs"
| "announced D (Received c # evs) =
     (case message_from_bytes D c of
        Inr m \<Rightarrow> (case gm_body m of
            AboutMe from name \<Rightarrow> announced D evs @ [(peer_key D from, name)]
          | UserMessage from text \<Rightarrow> announced D evs)
      | Inl _ \<Rightarrow> announced D evs)"

lemma subscribe_loop_append:
  "subscribe_loop D (map (\<lambda>ev. Inr (Some ev)) evs @ answers) names =
     (case subscribe_loop D (map (\<lambda>ev. Inr (Some ev)) evs) names of
        (_, names', outs) \<Rightarrow>
          (case subscribe_loop D answers names' of (r, names'', outs') \<Rightarrow> (r, names'', outs @ outs')))"
proof (induction evs arbitrary: names)
  case (Cons ev evs)
  show ?case by (simp add: Cons.IH split: prod.split)
qed (simp split: prod.split)

lemma subscribe_loop_names:
  "fst (snd (subscribe_loop D (map (\<lambda>ev. Inr (Some ev)) evs) names)) = names ++ map_of (announced D evs)"
proof (induction evs arbitrary: names)
  case (Cons ev evs)
  have "fst (snd (subscribe_loop D (map (\<lambda>ev. Inr (Some ev)) (ev # evs)) names))
      = fst (snd (subscribe_loop D (map (\<lambda>ev. Inr (Some ev)) evs) (fst (handle_event D ev names))))"
    by (simp split: prod.split)
  also have "\<dots> = fst (handle_event D ev names) ++ map_of (announced D evs)" by (rule Cons.IH)
  also have "\<dots> = names ++ map_of (announced D (ev # evs))"
    by (auto simp: handle_event_def map_add_def Let_def fun_eq_iff
        split: gossip_event.split sum.split message_body.split option.split)
  finally show ?case .
qed simp

section \<open>Properties\<close>

text \<open>
  A ticket printed by \<open>Display\<close> parses back to the same topic and endpoints, in upper, lower
  or mixed case.
\<close>

lemma iroh_ticket_roundtrip:
  assumes "ticket_text_ok D t" and "to_ascii_uppercase s = to_ascii_uppercase (ticket_to_string D t)"
  shows "ticket_from_str D s = Inr t"
  using assms by (rule ticket_parses_back)

definition demo_ticket :: "unit iroh_ticket" where
  "demo_ticket = \<lparr>tk_topic = [7], tk_endpoints = [\<lparr>ea_id = [9], ea_rest = ()\<rparr>]\<rparr>"

definition demo_iroh :: "unit iroh_deps" where
  "demo_iroh =
     \<lparr>message_from_slice = (\<lambda>bs.
          if bs = [0] then Inr \<lparr>gm_body = AboutMe [9] ''ann'', gm_nonce = [1]\<rparr>
          else if bs = [1] then Inr \<lparr>gm_body = UserMessage [9] ''hi'', gm_nonce = [2]\<rparr>
          else Inl ''json''),
      message_to_vec = (\<lambda>m. case gm_body m of AboutMe _ _ \<Rightarrow> [0] | UserMessage _ _ \<Rightarrow> [1]),
      ticket_from_slice = (\<lambda>bs. if bs = [1] then Inr demo_ticket else Inl ''json''),
      ticket_to_vec = (\<lambda>_. [1]),
      base32_encode = (\<lambda>_. ''AE''),
      base32_decode = (\<lambda>bs. if bs = as_bytes ''AE'' then Inr [1] else Inl ''base32''),
      hexlower_encode = (\<lambda>_. ''02''),
      fmt_short = (\<lambda>_. ''09'')\<rparr>"

definition demo_env :: "unit iroh_env" where
  "demo_env = \<lparr>env_bind = Inr [9], env_addr = (), env_topic = [7], env_nonce = [2],
     env_join = Inr (), env_broadcast = Inr ()\<rparr>"

lemma demo_ticket_ok: "ticket_text_ok demo_iroh demo_ticket"
  by (simp add: ticket_text_ok_def demo_iroh_def)

text \<open>
  C16: Opening and joining meet: the ticket that \<open>begin_open_room\<close> returned, handed to another
  backend, subscribes that one to the topic the opener subscribes to when its pending join
  finishes, with the opener as the peer to contact; the opener contacts nobody.
\<close>

theorem open_then_join_same_topic:
  assumes "begin_open_room_inner D e1 b1 = Some (Inr s, b2, effs1)"
    and "finish_open_join_pending_inner D e2 name b2 = Some (Inr (), b3, effs2)"
    and "join_room_inner D e3 s name' c1 = Some (Inr (), c2, effs3)"
    and "\<And>ep. ib_endpoint b2 = Some ep \<Longrightarrow> ticket_text_ok D
       \<lparr>tk_topic = env_topic e1, tk_endpoints = [\<lparr>ea_id = ep, ea_rest = env_addr e1\<rparr>]\<rparr>"
  shows "\<exists>ep. ib_endpoint b2 = Some ep
    \<and> ib_sender b3 = Some (env_topic e1) \<and> ib_sender c2 = Some (env_topic e1)
    \<and> Subscribed (env_topic e1) [] \<in> set effs2 \<and> Subscribed (env_topic e1) [ep] \<in> set effs3
    \<and> subscribe_loops effs2 = [env_topic e1] \<and> ib_pending_topic b3 = None"
proof -
  from assms(1) obtain ep where ep: "ib_endpoint b2 = Some ep" "ib_pending_topic b2 = Some (env_topic e1)"
    "s = ticket_to_string D \<lparr>tk_topic = env_topic e1, tk_endpoints = [\<lparr>ea_id = ep, ea_rest = env_addr e1\<rparr>]\<rparr>"
    by (rule begin_open_room_Inr)
  have "join_internal D e2 (env_topic e1) [] name (b2\<lparr>ib_pending_topic := None\<rparr>) = Some (Inr (), b3, effs2)"
    using assms(2) ep(2) by (simp add: finish_open_join_pending_inner_def)
  moreover have "ticket_from_str D s
      = Inr \<lparr>tk_topic = env_topic e1, tk_endpoints = [\<lparr>ea_id = ep, ea_rest = env_addr e1\<rparr>]\<rparr>"
    unfolding ep(3) by (rule ticket_parses_back [OF assms(4) [OF ep(1)] refl])
  ultimately show ?thesis
    using assms(3) ep(1)
    by (auto elim!: join_room_Some dest!: join_internal_quiet)
qed

theorem open_then_join_same_topic_witness:
  "\<exists>b2 b3 c2 effs2 effs3.
     begin_open_room_inner demo_iroh demo_env iroh_new = Some (Inr (ticket_to_string demo_iroh demo_ticket), b2, [Bound [9]])
   \<and> finish_open_join_pending_inner demo_iroh demo_env None b2 = Some (Inr (), b3, effs2)
   \<and> join_room_inner demo_iroh demo_env (ticket_to_string demo_iroh demo_ticket) None iroh_new = Some (Inr (), c2, effs3)
   \<and> ib_sender b3 = ib_sender c2"
proof -
  let ?b2 = "iroh_new\<lparr>ib_endpoint := Some [9], ib_gossip := Some (), ib_router := Some (), ib_pending_topic := Some [7]\<rparr>"
  have topic: "env_topic demo_env = [7]" "env_addr demo_env = ()" by (simp_all add: demo_env_def)
  have parses: "ticket_from_str demo_iroh (ticket_to_string demo_iroh demo_ticket) = Inr demo_ticket"
    by (rule ticket_parses_back [OF demo_ticket_ok refl])
  have b2: "begin_open_room_inner demo_iroh demo_env iroh_new
      = Some (Inr (ticket_to_string demo_iroh demo_ticket), ?b2, [Bound [9]])"
    by (simp add: begin_open_room_inner_def ensure_stack_def demo_env_def iroh_new_def demo_ticket_def Let_def)
  have b3: "finish_open_join_pending_inner demo_iroh demo_env None ?b2
      = Some (Inr (), ?b2\<lparr>ib_pending_topic := None, ib_sender := Some [7]\<rparr>,
          [Subscribed [7] [], SpawnSubscribeLoop [7]])"
    by (simp add: finish_open_join_pending_inner_def join_internal_def demo_env_def iroh_new_def)
  have c2: "join_room_inner demo_iroh demo_env (ticket_to_string demo_iroh demo_ticket) None iroh_new
      = Some (Inr (), ?b2\<lparr>ib_pending_topic := None, ib_sender := Some [7]\<rparr>,
          [Bound [9], Subscribed [7] [[9]], SpawnSubscribeLoop [7]])"
    unfolding join_room_inner_def parses
    by (simp add: join_internal_def ensure_stack_def demo_env_def iroh_new_def demo_ticket_def)
  have "ticket_text_ok demo_iroh \<lparr>tk_topic = env_topic demo_env,
      tk_endpoints = [\<lparr>ea_id = ep, ea_rest = env_addr demo_env\<rparr>]\<rparr>" if "ib_endpoint ?b2 = Some ep" for ep
    using that demo_ticket_ok by (simp add: topic demo_ticket_def)
  from open_then_join_same_topic [OF b2 b3 c2 this] b2 b3 c2 show ?thesis by blast
qed

text \<open>
  A send on every branch. Without a joined room it succeeds and nothing happens at all: the
  text is dropped, neither broadcast nor echoed. In a room it is broadcast to that room first,
  and only after that echoed once, with the nonce of the broadcast message as its id; when the
  broadcast fails nothing is echoed. The backend never changes.
\<close>

lemma iroh_send_exactly:
  "send_user_message_inner D e name text b =
     (case (ib_sender b, ib_endpoint b) of
        (Some topic, Some ep) \<Rightarrow>
          (case env_broadcast e of
             Inl err \<Rightarrow> Some (Inl (Send err), b, [])
           | Inr _ \<Rightarrow> Some (Inr (), b,
               [Broadcast topic (message_to_vec D \<lparr>gm_body = UserMessage ep text, gm_nonce = env_nonce e\<rparr>),
                Echo \<lparr>chat_id = hexlower_encode D (env_nonce e),
                  chat_from = (case name of Some n \<Rightarrow> n | None \<Rightarrow> fmt_short D ep), chat_text = text\<rparr>]))
      | _ \<Rightarrow> Some (Inr (), b, []))"
  by (auto simp: send_user_message_inner_def message_new_def Let_def split: option.split sum.split)

text \<open>
  The subscribe loop: after any events it sends one chat message for each user message that
  parses and nothing for the others, in order; the sender's name is the last one announced
  under its key before the message (else one known from elsewhere, else the short id). Only an
  error of the receiver or the end of the stream stops it.
\<close>

lemma subscribe_loop_exactly:
  "(case subscribe_loop D (map (\<lambda>ev. Inr (Some ev)) evs) names of (r, names', outs) \<Rightarrow>
      r = None \<and> names' = names ++ map_of (announced D evs)
    \<and> (case subscribe_loop D (map (\<lambda>ev. Inr (Some ev)) (evs @ [ev])) names of (_, _, outs') \<Rightarrow>
        outs' = outs @ (case ev of
           OtherEvent \<Rightarrow> []
         | Received c \<Rightarrow> (case message_from_bytes D c of
              Inr m \<Rightarrow> (case gm_body m of
                  UserMessage from text \<Rightarrow>
                    [\<lparr>chat_id = hexlower_encode D (gm_nonce m),
                      chat_from = (case (names ++ map_of (announced D evs)) (peer_key D from) of
                        Some n \<Rightarrow> n | None \<Rightarrow> fmt_short D from),
                      chat_text = text\<rparr>]
                | AboutMe _ _ \<Rightarrow> [])
            | Inl _ \<Rightarrow> [])))
    \<and> subscribe_loop D (map (\<lambda>ev. Inr (Some ev)) evs @ Inl err # rest) names = (Some (Inl (Gossip err)), names', outs)
    \<and> subscribe_loop D (map (\<lambda>ev. Inr (Some ev)) evs @ Inr None # rest) names = (Some (Inr ()), names', outs))"
proof -
  have waits: "fst (subscribe_loop D (map (\<lambda>ev. Inr (Some ev)) evs) names) = None"
    by (induction evs arbitrary: names) (simp_all split: prod.split, metis fst_conv)
  obtain outs where l: "subscribe_loop D (map (\<lambda>ev. Inr (Some ev)) evs) names
      = (None, names ++ map_of (announced D evs), outs)"
    using waits subscribe_loop_names [of D evs names] by (metis prod.collapse)
  show ?thesis
    by (simp add: l subscribe_loop_append)
      (auto simp: handle_event_def Let_def
        split: gossip_event.split sum.split message_body.split)
qed

text \<open>
  C40: A join whose announcement cannot be broadcast reports a send error and yet leaves the
  backend half joined: later sends go to the room, but no subscribe loop was started, so
  nothing from the room is ever received.
\<close>

theorem failed_announcement_half_joins:
  assumes "join_room_inner D e s name b = Some (Inl (Send err), b', effs)" and "iroh_ok b"
  shows "iroh_joined b' \<and> subscribe_loops effs = []
    \<and> (\<exists>topic ids. Subscribed topic ids \<in> set effs \<and> ib_sender b' = Some topic
        \<and> (\<forall>e' text. env_broadcast e' = Inr () \<longrightarrow>
             (\<exists>bs m. send_user_message_inner D e' name text b'
                = Some (Inr (), b', [Broadcast topic bs, Echo m]))))"
proof (cases "ticket_from_str D s")
  case (Inl x)
  then have "x \<noteq> Send err"
    by (auto simp: ticket_from_str_def ticket_from_bytes_def result_simps)
  with Inl assms(1) show ?thesis by (simp add: join_room_inner_def)
next
  case (Inr tk)
  show ?thesis
  proof (cases rule: ensure_stack_cases [of e b])
    case (fail x)
    with Inr assms(1) show ?thesis by (simp add: join_room_inner_def)
  next
    case (up b1 effs1)
    from up(2) up(3) [OF assms(2)] have g: "ib_gossip b1 \<noteq> None" by (simp add: iroh_ok_def)
    show ?thesis
      using assms(1) Inr up
      by (cases rule: join_internal_cases [OF g, of e D "tk_topic tk" "map ea_id (tk_endpoints tk)" name])
        (auto simp: join_room_inner_def send_user_message_inner_def Let_def message_new_def)
  qed
qed

theorem failed_announcement_half_joins_witness:
  "iroh_joined (iroh_new\<lparr>ib_endpoint := Some [9], ib_gossip := Some (), ib_router := Some (), ib_sender := Some [7]\<rparr>)"
proof -
  have parses: "ticket_from_str demo_iroh (ticket_to_string demo_iroh demo_ticket) = Inr demo_ticket"
    by (rule ticket_parses_back [OF demo_ticket_ok refl])
  have "join_room_inner demo_iroh (demo_env\<lparr>env_broadcast := Inl ''closed''\<rparr>)
      (ticket_to_string demo_iroh demo_ticket) (Some ''ann'') iroh_new
    = Some (Inl (Send ''closed''),
        iroh_new\<lparr>ib_endpoint := Some [9], ib_gossip := Some (), ib_router := Some (), ib_sender := Some [7]\<rparr>,
        [Bound [9], Subscribed [7] [[9]]])"
    unfolding join_room_inner_def parses
    by (simp add: join_internal_def ensure_stack_def demo_env_def iroh_new_def demo_ticket_def)
  from failed_announcement_half_joins [OF this iroh_ok_new] show ?thesis by (rule conjunct1)
qed

end
