(* ===== verification/Chat_Service.thy ===== *)
theory Chat_Service
  imports Iroh_Backend
begin

text \<open>
  The application service \<open>ClientChatService\<close>
  (\<^verbatim>\<open>guyos_core/src/application/client_chat_service.rs\<close>) over any relay backend, its wiring
  (\<^verbatim>\<open>infrastructure/mod.rs\<close>) and the \<open>Chat\<close> shell (\<^verbatim>\<open>adapters/inbound/chat.rs\<close>). An operation
  holds the backend's lock from start to end, so operations are atomic; the join that \<open>open\<close>
  spawns is a task that runs at some later time, in between any other operations.
\<close>

section \<open>State\<close>

text \<open>
  \<open>svc_queue\<close> is the bounded message channel, \<open>svc_spawned\<close> the number of spawned joins that have
  not run, \<open>svc_loops\<close> the topics of the spawned subscribe loops, \<open>svc_log\<close> every effect so far.
\<close>

record 'b client_chat_service =
  svc_backend :: 'b
  svc_name :: "string option"
  svc_names :: "string \<rightharpoonup> string"
  svc_queue :: "chat_message list"
  svc_capacity :: nat
  svc_spawned :: nat
  svc_loops :: "topic_id list"
  svc_log :: "effect list"

definition client_chat_service_new :: "'b \<Rightarrow> string option \<Rightarrow> nat \<Rightarrow> 'b client_chat_service" where
  "client_chat_service_new backend name capacity =
     \<lparr>svc_backend = backend, svc_name = name, svc_names = Map.empty, svc_queue = [],
      svc_capacity = capacity, svc_spawned = 0, svc_loops = [], svc_log = []\<rparr>"

definition wire_chat_for_clients :: "string option \<Rightarrow> iroh_backend client_chat_service" where
  "wire_chat_for_clients name = client_chat_service_new iroh_new name 100"

section \<open>Operations\<close>

text \<open>The effects of a backend call on what the service shares with it.\<close>

definition after_call :: "'b \<Rightarrow> effect list \<Rightarrow> 'b client_chat_service \<Rightarrow> 'b client_chat_service" where
  "after_call b effs s =
     s\<lparr>svc_backend := b, svc_queue := svc_queue s @ echoes effs,
       svc_loops := svc_loops s @ subscribe_loops effs, svc_log := svc_log s @ effs\<rparr>"

definition service_open ::
    "('e, 'b) relay_chat_backend \<Rightarrow> 'e \<Rightarrow> 'b client_chat_service
     \<Rightarrow> ((chat_error + string) \<times> 'b client_chat_service) option" where
  "service_open B e s =
     (case begin_open_room B e (svc_backend s) of
        None \<Rightarrow> None
      | Some (Inl err, b, effs) \<Rightarrow> Some (Inl err, after_call b effs s)
      | Some (Inr ticket, b, effs) \<Rightarrow>
          let s = after_call b effs s
          in Some (Inr ticket, s\<lparr>svc_spawned := svc_spawned s + 1\<rparr>))"

text \<open>The spawned task, whose result is discarded.\<close>

definition service_finish ::
    "('e, 'b) relay_chat_backend \<Rightarrow> 'e \<Rightarrow> 'b client_chat_service \<Rightarrow> 'b client_chat_service option" where
  "service_finish B e s =
     (case finish_open_join_pending B e (svc_name s) (svc_backend s) of
        None \<Rightarrow> None
      | Some (_, b, effs) \<Rightarrow> Some (after_call b effs (s\<lparr>svc_spawned := svc_spawned s - 1\<rparr>)))"

definition service_join ::
    "('e, 'b) relay_chat_backend \<Rightarrow> 'e \<Rightarrow> string \<Rightarrow> 'b client_chat_service
     \<Rightarrow> ((chat_error + unit) \<times> 'b client_chat_service) option" where
  "service_join B e ticket_str s =
     (case join_room B e ticket_str (svc_name s) (svc_backend s) of
        None \<Rightarrow> None
      | Some (r, b, effs) \<Rightarrow> Some (r, after_call b effs s))"

definition service_send ::
    "('e, 'b) relay_chat_backend \<Rightarrow> 'e \<Rightarrow> string \<Rightarrow> 'b client_chat_service
     \<Rightarrow> ((chat_error + unit) \<times> 'b client_chat_service) option" where
  "service_send B e text s =
     (case send_user_message B e (svc_name s) text (svc_backend s) of
        None \<Rightarrow> None
      | Some (r, b, effs) \<Rightarrow> Some (r, after_call b effs s))"

text \<open>\<open>rx.recv()\<close>: the oldest message, or \<^const>\<open>None\<close> while there is none to wait for.\<close>

definition service_next_message ::
    "'b client_chat_service \<Rightarrow> (chat_message \<times> 'b client_chat_service) option" where
  "service_next_message s =
     (case svc_queue s of [] \<Rightarrow> None | m # ms \<Rightarrow> Some (m, s\<lparr>svc_queue := ms\<rparr>))"

text \<open>One event for a spawned subscribe loop.\<close>

definition service_event ::
    "'a iroh_deps \<Rightarrow> gossip_event \<Rightarrow> 'b client_chat_service \<Rightarrow> 'b client_chat_service" where
  "service_event D ev s =
     (case handle_event D ev (svc_names s) of
        (names, out) \<Rightarrow> s\<lparr>svc_names := names, svc_queue := svc_queue s @ out\<rparr>)"

section \<open>The \<open>Chat\<close> shell\<close>

definition chat_new :: "string option \<Rightarrow> iroh_backend client_chat_service" where
  "chat_new name = wire_chat_for_clients name"

definition chat_open ::
    "'a iroh_deps \<Rightarrow> 'a iroh_env \<Rightarrow> iroh_backend client_chat_service
     \<Rightarrow> ((chat_error + string) \<times> iroh_backend client_chat_service) option" where
  "chat_open D e s = service_open (iroh_relay D) e s"

definition chat_join ::
    "'a iroh_deps \<Rightarrow> 'a iroh_env \<Rightarrow> string \<Rightarrow> iroh_backend client_chat_service
     \<Rightarrow> ((chat_error + unit) \<times> iroh_backend client_chat_service) option" where
  "chat_join D e ticket_str s = service_join (iroh_relay D) e ticket_str s"

definition chat_send ::
    "'a iroh_deps \<Rightarrow> 'a iroh_env \<Rightarrow> string \<Rightarrow> iroh_backend client_chat_service
     \<Rightarrow> ((chat_error + unit) \<times> iroh_backend client_chat_service) option" where
  "chat_send D e text s = service_send (iroh_relay D) e text s"

definition chat_next_message ::
    "iroh_backend client_chat_service \<Rightarrow> (chat_message \<times> iroh_backend client_chat_service) option" where
  "chat_next_message s = service_next_message s"

section \<open>Interleavings\<close>

text \<open>
  A step is one completed operation, labelled with the messages it put into the channel and took
  out of it. A sender waits while the channel is full, so a step that puts messages in is
  possible only when they fit. A panic is no step.
\<close>

inductive svc_step ::
    "('e, 'b) relay_chat_backend \<Rightarrow> 'a iroh_deps \<Rightarrow> 'b client_chat_service
     \<Rightarrow> chat_message list \<times> chat_message list \<Rightarrow> 'b client_chat_service \<Rightarrow> bool"
  for B D where
  opens: "service_open B e s = Some (r, s') \<Longrightarrow> svc_step B D s ([], []) s'"
| finishes: "0 < svc_spawned s \<Longrightarrow> service_finish B e s = Some s' \<Longrightarrow> svc_step B D s ([], []) s'"
| joins: "service_join B e t s = Some (r, s') \<Longrightarrow> svc_step B D s ([], []) s'"
| sends: "service_send B e t s = Some (r, s') \<Longrightarrow> length (svc_queue s') \<le> svc_capacity s
    \<Longrightarrow> svc_step B D s (drop (length (svc_queue s)) (svc_queue s'), []) s'"
| receives: "s' = service_event D ev s \<Longrightarrow> svc_loops s \<noteq> [] \<Longrightarrow> length (svc_queue s') \<le> svc_capacity s
    \<Longrightarrow> svc_step B D s (drop (length (svc_queue s)) (svc_queue s'), []) s'"
| delivers: "service_next_message s = Some (m, s') \<Longrightarrow> svc_step B D s ([], [m]) s'"

inductive svc_run ::
    "('e, 'b) relay_chat_backend \<Rightarrow> 'a iroh_deps \<Rightarrow> 'b client_chat_service
     \<Rightarrow> (chat_message list \<times> chat_message list) list \<Rightarrow> 'b client_chat_service \<Rightarrow> bool"
  for B D s where
  none: "svc_run B D s [] s"
| more: "svc_run B D s tr s' \<Longrightarrow> svc_step B D s' l s'' \<Longrightarrow> svc_run B D s (tr @ [l]) s''"

lemma after_call_simps [simp]:
  "svc_backend (after_call b effs s) = b" "svc_name (after_call b effs s) = svc_name s"
  "svc_queue (after_call b effs s) = svc_queue s @ echoes effs"
  "svc_capacity (after_call b effs s) = svc_capacity s"
  "svc_spawned (after_call b effs s) = svc_spawned s"
  "svc_loops (after_call b effs s) = svc_loops s @ subscribe_loops effs"
  "svc_log (after_call b effs s) = svc_log s @ effs"
  by (simp_all add: after_call_def)

lemma service_event_backend [simp]:
  "svc_backend (service_event D ev s) = svc_backend s"
  "svc_capacity (service_event D ev s) = svc_capacity s"
  by (simp_all add: service_event_def split: prod.split)

lemma service_event_queue: "\<exists>out. svc_queue (service_event D ev s) = svc_queue s @ out"
  by (simp add: service_event_def split: prod.split)

lemma service_next_message_Some:
  "service_next_message s = Some (m, s') \<longleftrightarrow>
     (\<exists>ms. svc_queue s = m # ms \<and> s' = s\<lparr>svc_queue := ms\<rparr>)"
  by (auto simp: service_next_message_def split: list.split)

text \<open>The display name never changes.\<close>

lemma service_event_name [simp]: "svc_name (service_event D ev s) = svc_name s"
  by (simp add: service_event_def split: prod.split)

lemma svc_step_name: "svc_step B D s l s' \<Longrightarrow> svc_name s' = svc_name s"
  by (cases rule: svc_step.cases, assumption)
    (auto simp: service_open_def service_finish_def service_join_def service_send_def Let_def
      service_next_message_Some after_call_def split: option.splits sum.splits)

lemma svc_run_name: "svc_run B D s tr s' \<Longrightarrow> svc_name s' = svc_name s"
  by (induction rule: svc_run.induct) (auto dest: svc_step_name)

lemma chat_new_name: "svc_name (chat_new name) = name"
  by (simp add: chat_new_def wire_chat_for_clients_def client_chat_service_new_def)

section \<open>What the service owes to its backend\<close>

definition svc_ok :: "('b \<Rightarrow> bool) \<Rightarrow> 'b client_chat_service \<Rightarrow> bool" where
  "svc_ok ok s \<longleftrightarrow> ok (svc_backend s) \<and> length (svc_queue s) \<le> svc_capacity s"

context relay_backend
begin

lemma service_returns:
  assumes "svc_ok ok s"
  shows "service_open B e s \<noteq> None" "service_finish B e s \<noteq> None"
    "service_join B e t s \<noteq> None" "service_send B e t s \<noteq> None"
proof -
  have "ok (svc_backend s)" using assms by (simp add: svc_ok_def)
  then show "service_open B e s \<noteq> None" "service_finish B e s \<noteq> None"
    "service_join B e t s \<noteq> None" "service_send B e t s \<noteq> None"
    using begin_safe [of "svc_backend s" e] finish_safe [of "svc_backend s" e "svc_name s"]
      join_safe [of "svc_backend s" e t "svc_name s"] send_safe [of "svc_backend s" e "svc_name s" t]
    by (auto simp: safe_result_def service_open_def service_finish_def service_join_def service_send_def
        Let_def split: option.splits sum.splits)
qed

text \<open>One step: the invariant, the channel, and a room that stays joined.\<close>

lemma svc_step_ok:
  assumes "svc_step B D s (pushed, popped) s'" and "svc_ok ok s"
  shows "svc_ok ok s' \<and> popped @ svc_queue s' = svc_queue s @ pushed
    \<and> svc_capacity s' = svc_capacity s \<and> (joined (svc_backend s) \<longrightarrow> joined (svc_backend s'))"
proof -
  have ok: "ok (svc_backend s)" using assms(2) by (simp add: svc_ok_def)
  from assms(1) show ?thesis
  proof (cases rule: svc_step.cases)
    case (opens e r)
    with ok begin_safe [OF ok, of e] assms(2) show ?thesis
      by (auto simp: service_open_def svc_ok_def safe_result_def Let_def
          dest!: begin_quiet split: option.splits sum.splits)
  next
    case (finishes e)
    with ok finish_safe [OF ok, of e "svc_name s"] assms(2) show ?thesis
      by (auto simp: service_finish_def svc_ok_def safe_result_def dest!: finish_joins split: option.splits)
  next
    case (joins e t r)
    with ok join_safe [OF ok, of e t "svc_name s"] assms(2) show ?thesis
      by (auto simp: service_join_def svc_ok_def safe_result_def dest!: join_joins split: option.splits)
  next
    case (sends e t r)
    with ok send_safe [OF ok, of e "svc_name s" t] show ?thesis
      by (auto simp: service_send_def svc_ok_def safe_result_def split: option.splits)
  next
    case (receives ev)
    obtain out where "svc_queue (service_event D ev s) = svc_queue s @ out"
      using service_event_queue by blast
    with receives ok show ?thesis by (auto simp: svc_ok_def)
  next
    case (delivers m)
    with assms(2) show ?thesis by (auto simp: service_next_message_Some svc_ok_def)
  qed
qed

lemma svc_run_ok:
  assumes "svc_run B D s tr s'" and "svc_ok ok s"
  shows "svc_ok ok s' \<and> concat (map snd tr) @ svc_queue s' = svc_queue s @ concat (map fst tr)
    \<and> svc_capacity s' = svc_capacity s \<and> (joined (svc_backend s) \<longrightarrow> joined (svc_backend s'))"
  using assms
proof (induction rule: svc_run.induct)
  case (more tr s' l s'')
  obtain pushed popped where l: "l = (pushed, popped)" by (cases l)
  from more svc_step_ok [of D s' pushed popped s''] l have
    "svc_ok ok s''" "popped @ svc_queue s'' = svc_queue s' @ pushed" "svc_capacity s'' = svc_capacity s'"
    "joined (svc_backend s') \<longrightarrow> joined (svc_backend s'')" by auto
  then show ?case using more l by auto
qed simp

end

section \<open>Lemmas: opening\<close>

lemma svc_ok_new: "svc_ok iroh_ok (chat_new name)"
  by (simp add: svc_ok_def chat_new_def wire_chat_for_clients_def client_chat_service_new_def iroh_ok_new)

lemma chat_open_Inr:
  assumes "chat_open D e s = Some (Inr t, s')"
  obtains b effs where "begin_open_room_inner D e (svc_backend s) = Some (Inr t, b, effs)"
    "svc_backend s' = b" "svc_log s' = svc_log s @ effs" "svc_name s' = svc_name s"
proof -
  obtain r b effs where b: "begin_open_room_inner D e (svc_backend s) = Some (r, b, effs)"
    using assms by (cases "begin_open_room_inner D e (svc_backend s)")
      (auto simp: chat_open_def service_open_def iroh_relay_def)
  with assms have "r = Inr t" "svc_backend s' = b" "svc_log s' = svc_log s @ effs" "svc_name s' = svc_name s"
    by (cases r; auto simp: chat_open_def service_open_def iroh_relay_def Let_def)+
  with b that show thesis by simp
qed

lemma finish_without_pending:
  "ib_pending_topic b = None \<Longrightarrow>
     finish_open_join_pending_inner D e name b = Some (Inl (Internal ''open room has no pending topic''), b, [])"
  by (simp add: finish_open_join_pending_inner_def)

lemma finish_with_pending:
  assumes "finish_open_join_pending_inner D e name b = Some (r, b', effs)" and "ib_pending_topic b = Some topic"
  shows "ib_pending_topic b' = None \<and> (\<forall>t ids. Subscribed t ids \<in> set effs \<longrightarrow> t = topic)"
proof -
  have j: "join_internal D e topic [] name (b\<lparr>ib_pending_topic := None\<rparr>) = Some (r, b', effs)"
    using assms by (simp add: finish_open_join_pending_inner_def)
  from join_internal_quiet [OF j] have "ib_pending_topic b' = None" by simp
  with join_internal_subscribes [OF j] show ?thesis by blast
qed

section \<open>A concrete session\<close>

text \<open>Ann joins a room, sends a message, receives one, and reads the first.\<close>

definition demo_msg :: "string \<Rightarrow> chat_message" where
  "demo_msg from_name = \<lparr>chat_id = ''02'', chat_from = from_name, chat_text = ''hi''\<rparr>"

definition demo_joined :: "iroh_backend client_chat_service" where
  "demo_joined = (chat_new (Some ''ann''))
     \<lparr>svc_backend := iroh_new\<lparr>ib_endpoint := Some [9], ib_gossip := Some (), ib_router := Some (), ib_sender := Some [7]\<rparr>,
      svc_loops := [[7]],
      svc_log := [Bound [9], Subscribed [7] [[9]], Broadcast [7] [0], SpawnSubscribeLoop [7]]\<rparr>"

definition demo_sent :: "iroh_backend client_chat_service" where
  "demo_sent = demo_joined\<lparr>svc_queue := [demo_msg ''ann''],
     svc_log := svc_log demo_joined @ [Broadcast [7] [1], Echo (demo_msg ''ann'')]\<rparr>"

lemma demo_join:
  "chat_join demo_iroh demo_env (ticket_to_string demo_iroh demo_ticket) (chat_new (Some ''ann'')) = Some (Inr (), demo_joined)"
  using ticket_parses_back [OF demo_ticket_ok refl]
  by (simp add: chat_join_def service_join_def iroh_relay_def join_room_inner_def join_internal_def ensure_stack_def
      demo_env_def demo_ticket_def demo_joined_def after_call_def chat_new_def wire_chat_for_clients_def
      client_chat_service_new_def iroh_new_def message_new_def demo_iroh_def Let_def)

lemma demo_send: "chat_send demo_iroh demo_env ''hi'' demo_joined = Some (Inr (), demo_sent)"
  by (simp add: chat_send_def service_send_def iroh_relay_def send_user_message_inner_def demo_env_def demo_iroh_def
      demo_joined_def demo_sent_def demo_msg_def after_call_def chat_new_def wire_chat_for_clients_def
      client_chat_service_new_def iroh_new_def message_new_def Let_def)

lemma demo_session:
  "svc_run (iroh_relay demo_iroh) demo_iroh (chat_new (Some ''ann''))
     [([], []), ([demo_msg ''ann''], []), ([demo_msg ''09''], []), ([], [demo_msg ''ann''])]
     (demo_sent\<lparr>svc_queue := [demo_msg ''09'']\<rparr>)"
proof -
  let ?R = "svc_run (iroh_relay demo_iroh) demo_iroh (chat_new (Some ''ann''))"
  let ?got = "demo_sent\<lparr>svc_queue := [demo_msg ''ann'', demo_msg ''09'']\<rparr>"
  have queue: "svc_queue demo_joined = []" "svc_capacity demo_joined = 100" "svc_loops demo_joined = [[7]]"
      "svc_names demo_joined = Map.empty"
    by (simp_all add: demo_joined_def chat_new_def wire_chat_for_clients_def client_chat_service_new_def)
  have r1: "?R [([], [])] demo_joined"
    using svc_run.more [OF svc_run.none svc_step.joins [OF demo_join [unfolded chat_join_def]]] by simp
  have "svc_step (iroh_relay demo_iroh) demo_iroh demo_joined ([demo_msg ''ann''], []) demo_sent"
    using svc_step.sends [OF demo_send [unfolded chat_send_def]] by (simp add: demo_sent_def queue)
  from svc_run.more [OF r1 this] have r2: "?R [([], []), ([demo_msg ''ann''], [])] demo_sent" by simp
  have "?got = service_event demo_iroh (Received [1]) demo_sent"
    by (simp add: service_event_def handle_event_def message_from_bytes_def demo_iroh_def demo_sent_def demo_msg_def
        peer_key_def queue Let_def)
  from svc_step.receives [OF this]
  have "svc_step (iroh_relay demo_iroh) demo_iroh demo_sent ([demo_msg ''09''], []) ?got"
    by (simp add: demo_sent_def queue)
  from svc_run.more [OF r2 this]
  have r3: "?R [([], []), ([demo_msg ''ann''], []), ([demo_msg ''09''], [])] ?got" by simp
  have "svc_step (iroh_relay demo_iroh) demo_iroh ?got ([], [demo_msg ''ann'']) (?got\<lparr>svc_queue := [demo_msg ''09'']\<rparr>)"
    by (rule svc_step.delivers) (simp add: service_next_message_def)
  from svc_run.more [OF r3 this] show ?thesis by simp
qed

section \<open>Properties\<close>

text \<open>
  C18: No panic: whatever operations, spawned joins and network events interleave on a fresh
  \<open>Chat\<close>, every further open, join, send and spawned join returns a result; no \<open>unwrap\<close> of the
  backend is reached on \<open>None\<close>. A room once joined stays joined.
\<close>

theorem chat_never_panics:
  assumes "svc_run (iroh_relay D) D (chat_new name) tr s"
  shows "chat_open D e s \<noteq> None \<and> chat_join D e t s \<noteq> None \<and> chat_send D e t s \<noteq> None
    \<and> service_finish (iroh_relay D) e s \<noteq> None
    \<and> (svc_step (iroh_relay D) D s (pushed, popped) s' \<and> iroh_joined (svc_backend s) \<longrightarrow> iroh_joined (svc_backend s'))"
proof -
  have ok: "svc_ok iroh_ok s" using iroh.svc_run_ok [OF assms svc_ok_new] by blast
  have "iroh_joined (svc_backend s')"
    if "svc_step (iroh_relay D) D s (pushed, popped) s'" "iroh_joined (svc_backend s)"
    using iroh.svc_step_ok [OF that(1) ok] that(2) by blast
  then show ?thesis
    using iroh.service_returns [OF ok]
    by (auto simp: chat_open_def chat_join_def chat_send_def)
qed

theorem chat_never_panics_witness:
  "chat_open demo_iroh demo_env (demo_sent\<lparr>svc_queue := [demo_msg ''09'']\<rparr>) \<noteq> None
   \<and> iroh_joined (svc_backend (service_event demo_iroh OtherEvent (demo_sent\<lparr>svc_queue := [demo_msg ''09'']\<rparr>)))"
proof -
  let ?s = "demo_sent\<lparr>svc_queue := [demo_msg ''09'']\<rparr>"
  have s: "svc_loops ?s \<noteq> []" "svc_capacity ?s = 100" "iroh_joined (svc_backend ?s)"
    by (simp_all add: demo_sent_def demo_joined_def chat_new_def wire_chat_for_clients_def client_chat_service_new_def)
  have "svc_step (iroh_relay demo_iroh) demo_iroh ?s ([], []) (service_event demo_iroh OtherEvent ?s)"
    using svc_step.receives [OF refl, of ?s demo_iroh OtherEvent "iroh_relay demo_iroh"] s(1,2)
    by (simp add: service_event_def handle_event_def)
  with chat_never_panics [OF demo_session] s(3) show ?thesis by blast
qed



text \<open>
  C38: Two opens before the first spawned join runs: the second open replaces the pending topic,
  so whatever the network answers the topic on the first ticket is never subscribed to by its
  opener, and the second spawned join finds no pending topic and changes nothing.
\<close>

theorem second_open_loses_first_room:
  assumes "chat_open D e1 s = Some (Inr t1, s1)" and "chat_open D e2 s1 = Some (Inr t2, s2)"
    and "service_finish (iroh_relay D) e3 s2 = Some s3" and "service_finish (iroh_relay D) e4 s3 = Some s4"
    and "env_topic e1 \<noteq> env_topic e2"
  shows "(\<exists>effs. svc_log s4 = svc_log s @ effs \<and> (\<forall>ids. Subscribed (env_topic e1) ids \<notin> set effs))
    \<and> svc_backend s4 = svc_backend s3 \<and> svc_log s4 = svc_log s3 \<and> svc_queue s4 = svc_queue s3"
proof -
  from assms(1) obtain b1 effs1 where o1: "begin_open_room_inner D e1 (svc_backend s) = Some (Inr t1, b1, effs1)"
    "svc_log s1 = svc_log s @ effs1" by (rule chat_open_Inr)
  from assms(2) obtain b2 effs2 where o2: "begin_open_room_inner D e2 (svc_backend s1) = Some (Inr t2, b2, effs2)"
    "svc_backend s2 = b2" "svc_log s2 = svc_log s1 @ effs2" by (rule chat_open_Inr)
  have quiet: "Subscribed t ids \<notin> set effs1" "Subscribed t ids \<notin> set effs2"
      "ib_pending_topic b2 = Some (env_topic e2)" for t ids
    by (blast intro: begin_open_room_Inr [OF o1(1)] begin_open_room_Inr [OF o2(1)])+
  from assms(3) o2(2) obtain r b3 effs3 where
    f3: "finish_open_join_pending_inner D e3 (svc_name s2) b2 = Some (r, b3, effs3)"
      "svc_backend s3 = b3" "svc_log s3 = svc_log s2 @ effs3"
    by (auto simp: service_finish_def iroh_relay_def split: option.splits)
  note fin = finish_with_pending [OF f3(1) quiet(3)]
  then have "finish_open_join_pending_inner D e4 (svc_name s3) (svc_backend s3)
      = Some (Inl (Internal ''open room has no pending topic''), svc_backend s3, [])"
    unfolding f3(2) by (intro finish_without_pending) simp
  with assms(4) have "svc_backend s4 = svc_backend s3 \<and> svc_log s4 = svc_log s3 \<and> svc_queue s4 = svc_queue s3"
    by (auto simp: service_finish_def iroh_relay_def)
  moreover have "Subscribed (env_topic e1) ids \<notin> set (effs1 @ effs2 @ effs3)" for ids
    using quiet fin assms(5) by auto
  ultimately show ?thesis using o1(2) o2(3) f3(3) by auto
qed

theorem second_open_loses_first_room_witness:
  "\<exists>s1 s2 s3 s4 t1 t2. chat_open demo_iroh demo_env (chat_new None) = Some (Inr t1, s1)
     \<and> chat_open demo_iroh (demo_env\<lparr>env_topic := [8]\<rparr>) s1 = Some (Inr t2, s2)
     \<and> service_finish (iroh_relay demo_iroh) demo_env s2 = Some s3
     \<and> service_finish (iroh_relay demo_iroh) demo_env s3 = Some s4
     \<and> svc_log s4 = svc_log s3
     \<and> Subscribed [8] [] \<in> set (svc_log s4)"
proof -
  let ?e2 = "demo_env\<lparr>env_topic := [8]\<rparr>"
  have step: "\<exists>t s'. chat_open demo_iroh e s = Some (Inr t, s')
      \<and> svc_backend s' = iroh_new\<lparr>ib_endpoint := Some [9], ib_gossip := Some (), ib_router := Some (),
          ib_pending_topic := Some (env_topic e)\<rparr> \<and> svc_name s' = svc_name s"
    if "env_bind e = Inr [9]" "svc_backend s = iroh_new \<or> (\<exists>t. svc_backend s = iroh_new\<lparr>ib_endpoint := Some [9],
        ib_gossip := Some (), ib_router := Some (), ib_pending_topic := Some t\<rparr>)" for e s
    using that
    by (auto simp: chat_open_def service_open_def iroh_relay_def begin_open_room_inner_def ensure_stack_def
        iroh_new_def Let_def)
  have new: "svc_backend (chat_new None) = iroh_new" "svc_name (chat_new None) = None"
    by (simp_all add: chat_new_def wire_chat_for_clients_def client_chat_service_new_def)
  obtain t1 s1 where s1: "chat_open demo_iroh demo_env (chat_new None) = Some (Inr t1, s1)"
      "\<exists>t. svc_backend s1 = iroh_new\<lparr>ib_endpoint := Some [9],
        ib_gossip := Some (), ib_router := Some (), ib_pending_topic := Some t\<rparr>" "svc_name s1 = None"
    using step [of demo_env "chat_new None"] new by (auto simp: demo_env_def)
  obtain t2 s2 where s2: "chat_open demo_iroh ?e2 s1 = Some (Inr t2, s2)"
      "svc_backend s2 = iroh_new\<lparr>ib_endpoint := Some [9],
        ib_gossip := Some (), ib_router := Some (), ib_pending_topic := Some [8]\<rparr>" "svc_name s2 = None"
    using step [of ?e2 s1] s1(2,3) by (auto simp: demo_env_def)
  obtain s3 where s3: "service_finish (iroh_relay demo_iroh) demo_env s2 = Some s3"
      "Subscribed [8] [] \<in> set (svc_log s3)" "ib_pending_topic (svc_backend s3) = None"
    using s2(2,3)
    by (simp add: service_finish_def iroh_relay_def finish_open_join_pending_inner_def join_internal_def
        demo_env_def iroh_new_def)
  obtain s4 where s4: "service_finish (iroh_relay demo_iroh) demo_env s3 = Some s4"
    using s3(3) by (simp add: service_finish_def iroh_relay_def finish_without_pending)
  have "env_topic demo_env \<noteq> env_topic ?e2" by (simp add: demo_env_def)
  from second_open_loses_first_room [OF s1(1) s2(1) s3(1) s4 this]
  have same: "svc_log s4 = svc_log s3" by blast
  have "Subscribed [8] [] \<in> set (svc_log s4)" unfolding same by (rule s3(2))
  with s1(1) s2(1) s3(1) s4 same show ?thesis by blast
qed

end
