(* ===== verification/Chat_Locking.thy ===== *)
theory Chat_Locking
  imports Chat_Service
begin

text \<open>
  The service at the grain of its locks
  (\<^verbatim>\<open>guyos_core/src/application/client_chat_service.rs\<close>): an operation waits for the backend's
  mutex, keeps it over the whole backend call, in which an echo waits for room in the message
  channel, and gives it back at the end; a subscribe loop reads a sender's name under the lock
  of the names and waits for the channel after it gave that lock back
  (\<^verbatim>\<open>adapters/outbound/iroh_gossip_relay_backend.rs\<close>). The lemmas show that with one subscribe
  loop this implements the atomic operations of \<^verbatim>\<open>Chat_Service\<close>, that a waiting operation can
  always return if the application reads its messages, and what happens when it does not.
\<close>

section \<open>State\<close>

text \<open>The calls that take the backend's lock; \<open>DoFinish\<close> is the task that \<open>open\<close> spawns.\<close>

datatype chat_op = DoOpen | DoFinish | DoJoin string | DoSend string

type_synonym chat_answer = "chat_error + string option"

definition backend_call ::
    "('e, 'b) relay_chat_backend \<Rightarrow> 'e \<Rightarrow> string option \<Rightarrow> chat_op \<Rightarrow> 'b
     \<Rightarrow> (chat_answer \<times> 'b \<times> effect list) option" where
  "backend_call B e name op b =
     (case op of
        DoOpen \<Rightarrow> map_option (apfst (map_ok Some)) (begin_open_room B e b)
      | DoFinish \<Rightarrow> map_option (apfst (map_ok (\<lambda>_. None))) (finish_open_join_pending B e name b)
      | DoJoin ticket_str \<Rightarrow> map_option (apfst (map_ok (\<lambda>_. None))) (join_room B e ticket_str name b)
      | DoSend text \<Rightarrow> map_option (apfst (map_ok (\<lambda>_. None))) (send_user_message B e name text b))"

text \<open>
  A call that holds the lock: who called, the operation, the answer it will give and the effects
  still to come. The tasks that wait for the lock are \<open>lc_waiting\<close> (a spawned join waits as one of
  \<open>svc_spawned\<close>), \<open>lc_pending\<close> is the message a subscribe loop is about to send.
\<close>

record holder =
  h_caller :: "nat option"
  h_op :: chat_op
  h_answer :: chat_answer
  h_effects :: "effect list"

record 'b locked_chat =
  lc_service :: "'b client_chat_service"
  lc_waiting :: "(nat \<times> chat_op) list"
  lc_holder :: "holder option"
  lc_pending :: "nat \<Rightarrow> chat_message option"
  lc_returned :: "(nat \<times> chat_answer) list"

definition unlocked :: "'b client_chat_service \<Rightarrow> 'b locked_chat" where
  "unlocked s = \<lparr>lc_service = s, lc_waiting = [], lc_holder = None, lc_pending = (\<lambda>_. None), lc_returned = []\<rparr>"

section \<open>Steps\<close>

definition perform :: "effect \<Rightarrow> 'b client_chat_service \<Rightarrow> 'b client_chat_service" where
  "perform eff s = after_call (svc_backend s) [eff] s"

fun is_echo :: "effect \<Rightarrow> bool" where
  "is_echo (Echo m) = True"
| "is_echo _ = False"

text \<open>A successful \<open>open\<close> spawns its join after it dropped the lock.\<close>

definition spawns :: "chat_op \<Rightarrow> chat_answer \<Rightarrow> nat" where
  "spawns op r = (if op = DoOpen \<and> \<not> isl r then 1 else 0)"

definition release :: "holder \<Rightarrow> 'b locked_chat \<Rightarrow> 'b locked_chat" where
  "release k m = m\<lparr>lc_holder := None,
     lc_service := (lc_service m)\<lparr>svc_spawned := svc_spawned (lc_service m) + spawns (h_op k) (h_answer k)\<rparr>,
     lc_returned := lc_returned m @ (case h_caller k of None \<Rightarrow> [] | Some i \<Rightarrow> [(i, h_answer k)])\<rparr>"

text \<open>
  A step is labelled with the messages it put into the channel and took out of it. Locks may be
  granted in any order.
\<close>

inductive lock_step ::
    "('e, 'b) relay_chat_backend \<Rightarrow> 'a iroh_deps \<Rightarrow> 'b locked_chat
     \<Rightarrow> chat_message list \<times> chat_message list \<Rightarrow> 'b locked_chat \<Rightarrow> bool"
  for B D where
  calls: "op \<noteq> DoFinish \<Longrightarrow>
    lock_step B D m ([], []) (m\<lparr>lc_waiting := lc_waiting m @ [(i, op)]\<rparr>)"
| acquires: "lc_holder m = None \<Longrightarrow> lc_waiting m = xs @ (i, op) # ys \<Longrightarrow> op \<noteq> DoFinish \<Longrightarrow>
    backend_call B e (svc_name (lc_service m)) op (svc_backend (lc_service m)) = Some (r, b, effs) \<Longrightarrow>
    lock_step B D m ([], []) (m\<lparr>lc_waiting := xs @ ys,
      lc_holder := Some \<lparr>h_caller = Some i, h_op = op, h_answer = r, h_effects = effs\<rparr>,
      lc_service := (lc_service m)\<lparr>svc_backend := b\<rparr>\<rparr>)"
| spawned: "lc_holder m = None \<Longrightarrow> 0 < svc_spawned (lc_service m) \<Longrightarrow>
    backend_call B e (svc_name (lc_service m)) DoFinish (svc_backend (lc_service m)) = Some (r, b, effs) \<Longrightarrow>
    lock_step B D m ([], []) (m\<lparr>
      lc_holder := Some \<lparr>h_caller = None, h_op = DoFinish, h_answer = r, h_effects = effs\<rparr>,
      lc_service := (lc_service m)\<lparr>svc_backend := b, svc_spawned := svc_spawned (lc_service m) - 1\<rparr>\<rparr>)"
| performs: "lc_holder m = Some k \<Longrightarrow> h_effects k = eff # effs \<Longrightarrow>
    is_echo eff \<longrightarrow> length (svc_queue (lc_service m)) < svc_capacity (lc_service m) \<Longrightarrow>
    lock_step B D m (echoes [eff], []) (m\<lparr>lc_holder := Some (k\<lparr>h_effects := effs\<rparr>),
      lc_service := perform eff (lc_service m)\<rparr>)"
| releases: "lc_holder m = Some k \<Longrightarrow> h_effects k = [] \<Longrightarrow> lock_step B D m ([], []) (release k m)"
| hears: "j < length (svc_loops (lc_service m)) \<Longrightarrow> lc_pending m j = None \<Longrightarrow>
    handle_event D ev (svc_names (lc_service m)) = (names, out) \<Longrightarrow>
    lock_step B D m ([], []) (m\<lparr>lc_service := (lc_service m)\<lparr>svc_names := names\<rparr>,
      lc_pending := (lc_pending m)(j := (case out of [] \<Rightarrow> None | x # _ \<Rightarrow> Some x))\<rparr>)"
| forwards: "lc_pending m j = Some x \<Longrightarrow>
    length (svc_queue (lc_service m)) < svc_capacity (lc_service m) \<Longrightarrow>
    lock_step B D m ([x], []) (m\<lparr>
      lc_service := (lc_service m)\<lparr>svc_queue := svc_queue (lc_service m) @ [x]\<rparr>,
      lc_pending := (lc_pending m)(j := None)\<rparr>)"
| delivers: "service_next_message (lc_service m) = Some (x, s') \<Longrightarrow>
    lock_step B D m ([], [x]) (m\<lparr>lc_service := s'\<rparr>)"

inductive lock_run ::
    "('e, 'b) relay_chat_backend \<Rightarrow> 'a iroh_deps \<Rightarrow> 'b locked_chat
     \<Rightarrow> (chat_message list \<times> chat_message list) list \<Rightarrow> 'b locked_chat \<Rightarrow> bool"
  for B D m where
  halt: "lock_run B D m [] m"
| more: "lock_run B D m tr m' \<Longrightarrow> lock_step B D m' l m'' \<Longrightarrow> lock_run B D m (tr @ [l]) m''"

lemma lock_run_trans: "lock_run B D m tr m' \<Longrightarrow> lock_run B D m' tr' m'' \<Longrightarrow> lock_run B D m (tr @ tr') m''"
proof (induction tr' arbitrary: m'' rule: rev_induct)
  case Nil
  from Nil(2) show ?case using Nil(1) by (cases rule: lock_run.cases) auto
next
  case (snoc l tr')
  from snoc.prems(2) show ?case
  proof (cases rule: lock_run.cases)
    case (more tr2 m2 l2)
    then have "lock_run B D m (tr @ tr') m2" using snoc by auto
    from lock_run.more [OF this] more show ?thesis by fastforce
  qed simp
qed

lemma lock_run_step: "lock_step B D m l m' \<Longrightarrow> lock_run B D m [l] m'"
  using lock_run.more [OF lock_run.halt] by fastforce

section \<open>Lemmas: effects\<close>

lemma echoes_single: "echoes [eff] = (case eff of Echo m \<Rightarrow> [m] | _ \<Rightarrow> [])"
  by (cases eff) auto

lemma echoes_Cons: "echoes (eff # effs) = echoes [eff] @ echoes effs"
  by (cases eff) auto

lemma subscribe_loops_Cons: "subscribe_loops (eff # effs) = subscribe_loops [eff] @ subscribe_loops effs"
  by (cases eff) auto

lemma is_echo_iff: "is_echo eff \<longleftrightarrow> echoes [eff] \<noteq> []"
  by (cases eff) auto

lemma after_call_append:
  "after_call b (effs @ effs') s = after_call b effs' (after_call b' effs s)"
  by (simp add: after_call_def)

lemma after_call_perform:
  "after_call (svc_backend s) (eff # effs) s = after_call (svc_backend (perform eff s)) effs (perform eff s)"
  using after_call_append [of "svc_backend s" "[eff]" effs s "svc_backend s"] by (simp add: perform_def)

lemma after_call_Nil [simp]: "after_call (svc_backend s) [] s = s"
  by (simp add: after_call_def)

lemma after_call_update [simp]:
  "after_call b effs (s\<lparr>svc_names := names\<rparr>) = (after_call b effs s)\<lparr>svc_names := names\<rparr>"
  "svc_names (after_call b effs s) = svc_names s"
  by (simp_all add: after_call_def)

lemma perform_simps [simp]:
  "svc_backend (perform eff s) = svc_backend s" "svc_capacity (perform eff s) = svc_capacity s"
  "svc_spawned (perform eff s) = svc_spawned s" "svc_names (perform eff s) = svc_names s"
  "svc_name (perform eff s) = svc_name s"
  by (simp_all add: perform_def)

text \<open>An event leaves the names alone or puts nothing into the channel.\<close>

lemma handle_event_cases:
  assumes "handle_event D ev names = (names', out)"
  obtains (named) "out = []" | (heard) x where "out = [x]" "names' = names"
  using assms
  by (cases ev; cases "message_from_bytes D (case ev of Received c \<Rightarrow> c | _ \<Rightarrow> [])")
    (auto simp: handle_event_def Let_def split: sum.splits message_body.splits)

text \<open>What a call of the service is, in terms of \<open>backend_call\<close>.\<close>

lemma backend_call_opens:
  assumes "backend_call B e name DoOpen (svc_backend s) = Some (r, b, effs)"
  obtains q where "begin_open_room B e (svc_backend s) = Some (q, b, effs)" "r = map_ok Some q"
    "service_open B e s = Some (q, (after_call b effs s)\<lparr>svc_spawned := svc_spawned s + spawns DoOpen r\<rparr>)"
proof -
  from assms obtain q where q: "begin_open_room B e (svc_backend s) = Some (q, b, effs)" "r = map_ok Some q"
    by (auto simp: backend_call_def)
  then show thesis
    by (cases q) (auto intro!: that simp: service_open_def spawns_def map_ok_def after_call_def Let_def)
qed

lemma backend_call_finishes:
  assumes "backend_call B e (svc_name s) DoFinish (svc_backend s) = Some (r, b, effs)"
  obtains q where "finish_open_join_pending B e (svc_name s) (svc_backend s) = Some (q, b, effs)"
    "service_finish B e s = Some (after_call b effs (s\<lparr>svc_spawned := svc_spawned s - 1\<rparr>))"
  using assms by (auto simp: backend_call_def service_finish_def)

lemma backend_call_joins:
  assumes "backend_call B e (svc_name s) (DoJoin t) (svc_backend s) = Some (r, b, effs)"
  obtains q where "join_room B e t (svc_name s) (svc_backend s) = Some (q, b, effs)"
    "service_join B e t s = Some (q, after_call b effs s)"
  using assms by (auto simp: backend_call_def service_join_def)

lemma backend_call_sends:
  assumes "backend_call B e (svc_name s) (DoSend t) (svc_backend s) = Some (r, b, effs)"
  obtains q where "send_user_message B e (svc_name s) t (svc_backend s) = Some (q, b, effs)"
  using assms by (auto simp: backend_call_def)

lemma service_send_of_call:
  "send_user_message B e (svc_name s) t (svc_backend s) = Some (q, b, effs) \<Longrightarrow>
     service_send B e t s = Some (q, after_call b effs s)"
  by (simp add: service_send_def)

section \<open>Lemmas: what a call owes\<close>

definition completed :: "holder \<Rightarrow> 'b client_chat_service \<Rightarrow> 'b client_chat_service" where
  "completed k v = (after_call (svc_backend v) (h_effects k) v)
     \<lparr>svc_spawned := svc_spawned v + spawns (h_op k) (h_answer k)\<rparr>"

lemma completed_Nil: "h_effects k = [] \<Longrightarrow>
    completed k v = v\<lparr>svc_spawned := svc_spawned v + spawns (h_op k) (h_answer k)\<rparr>"
  by (simp add: completed_def)

lemma completed_perform:
  "h_effects k = eff # effs \<Longrightarrow> completed (k\<lparr>h_effects := effs\<rparr>) (perform eff v) = completed k v"
  by (simp add: completed_def after_call_perform)

lemma completed_simps [simp]:
  "svc_queue (completed k v) = svc_queue v @ echoes (h_effects k)"
  "svc_capacity (completed k v) = svc_capacity v" "svc_names (completed k v) = svc_names v"
  "svc_loops (completed k v) = svc_loops v @ subscribe_loops (h_effects k)"
  by (simp_all add: completed_def)

lemma completed_update [simp]:
  "completed k (v\<lparr>svc_names := names\<rparr>) = (completed k v)\<lparr>svc_names := names\<rparr>"
  by (simp add: completed_def)

text \<open>A message taken out of the channel, or put in while the call puts nothing in.\<close>

lemma completed_queue:
  "echoes (h_effects k) = [] \<Longrightarrow> completed k (v\<lparr>svc_queue := q\<rparr>) = (completed k v)\<lparr>svc_queue := q\<rparr>"
  by (simp add: completed_def after_call_def)

lemma after_call_queue:
  "echoes effs = [] \<Longrightarrow> after_call b effs (s\<lparr>svc_queue := q\<rparr>) = (after_call b effs s)\<lparr>svc_queue := q\<rparr>"
  by (simp add: after_call_def)

section \<open>The atomic service behind the locks\<close>

text \<open>
  The atomic state of a state with locks: without a holder it is the service itself. A call that
  puts nothing more into the channel has taken effect already; a send whose echo is still to
  come has not. A message a subscribe loop is about to send has not been received.
\<close>

definition sending :: "('e, 'b) relay_chat_backend \<Rightarrow> holder \<Rightarrow> 'b client_chat_service \<Rightarrow> 'b client_chat_service \<Rightarrow> bool" where
  "sending B k v s \<longleftrightarrow> (\<exists>e t q d b. h_op k = DoSend t \<and> v = after_call b d s \<and> echoes d = []
     \<and> send_user_message B e (svc_name s) t (svc_backend s) = Some (q, b, d @ h_effects k))"

definition about_to_forward :: "'a iroh_deps \<Rightarrow> 'b locked_chat \<Rightarrow> bool" where
  "about_to_forward D m \<longleftrightarrow> (\<forall>j x. lc_pending m j = Some x \<longrightarrow> j < length (svc_loops (lc_service m))
     \<and> (\<exists>ev. handle_event D ev (svc_names (lc_service m)) = (svc_names (lc_service m), [x])))"

definition atomic_state ::
    "('e, 'b) relay_chat_backend \<Rightarrow> 'b locked_chat \<Rightarrow> 'b client_chat_service \<Rightarrow> bool" where
  "atomic_state B m s \<longleftrightarrow> (case lc_holder m of
       None \<Rightarrow> s = lc_service m
     | Some k \<Rightarrow> if echoes (h_effects k) = [] then s = completed k (lc_service m)
                else sending B k (lc_service m) s)"

definition implements :: "('e, 'b) relay_chat_backend \<Rightarrow> 'a iroh_deps \<Rightarrow> 'b locked_chat \<Rightarrow> 'b client_chat_service \<Rightarrow> bool" where
  "implements B D m s \<longleftrightarrow> about_to_forward D m \<and> atomic_state B m s"

lemma sending_same:
  "sending B k v s \<Longrightarrow> svc_queue s = svc_queue v \<and> svc_capacity s = svc_capacity v \<and> svc_names s = svc_names v"
  by (auto simp: sending_def after_call_def)

lemma atomic_state_same:
  "atomic_state B m s \<Longrightarrow> svc_queue s = svc_queue (lc_service m)
     \<and> svc_capacity s = svc_capacity (lc_service m) \<and> svc_names s = svc_names (lc_service m)"
  by (auto simp: atomic_state_def dest!: sending_same split: option.splits if_splits)

text \<open>Names, queue and log grow below a call in the same way as beside it.\<close>

lemma sendingI:
  "h_op k = DoSend t \<Longrightarrow> send_user_message B e (svc_name s) t (svc_backend s) = Some (q, b, d @ h_effects k) \<Longrightarrow>
     echoes d = [] \<Longrightarrow> v = after_call b d s \<Longrightarrow> sending B k v s"
  unfolding sending_def by blast

lemma sendingE:
  assumes "sending B k v s"
  obtains e t q d b where "h_op k = DoSend t" "echoes d = []" "v = after_call b d s"
    "send_user_message B e (svc_name s) t (svc_backend s) = Some (q, b, d @ h_effects k)"
  using assms unfolding sending_def by blast

lemma sending_names: "sending B k v s \<Longrightarrow> sending B k (v\<lparr>svc_names := n\<rparr>) (s\<lparr>svc_names := n\<rparr>)"
  by (erule sendingE) (rule sendingI, assumption, simp_all)

lemma sending_queue: "sending B k v s \<Longrightarrow> sending B k (v\<lparr>svc_queue := q\<rparr>) (s\<lparr>svc_queue := q\<rparr>)"
  by (erule sendingE) (rule sendingI, assumption, simp, assumption, simp only: after_call_queue)

lemma atomic_state_names:
  "atomic_state B m s \<Longrightarrow>
     atomic_state B (m\<lparr>lc_service := (lc_service m)\<lparr>svc_names := n\<rparr>, lc_pending := p\<rparr>) (s\<lparr>svc_names := n\<rparr>)"
  by (auto simp: atomic_state_def sending_names split: option.splits if_splits)

lemma atomic_state_queue:
  "atomic_state B m s \<Longrightarrow>
     atomic_state B (m\<lparr>lc_service := (lc_service m)\<lparr>svc_queue := q\<rparr>, lc_pending := p\<rparr>) (s\<lparr>svc_queue := q\<rparr>)"
  by (auto simp: atomic_state_def sending_queue completed_queue split: option.splits if_splits)

lemma about_to_forward_holder [simp]:
  "about_to_forward D (m\<lparr>lc_waiting := w\<rparr>) = about_to_forward D m"
  "about_to_forward D (m\<lparr>lc_holder := k\<rparr>) = about_to_forward D m"
  "about_to_forward D (m\<lparr>lc_returned := r\<rparr>) = about_to_forward D m"
  "about_to_forward D (m\<lparr>lc_service := (lc_service m)\<lparr>svc_queue := q\<rparr>\<rparr>) = about_to_forward D m"
  "about_to_forward D (m\<lparr>lc_service := (lc_service m)\<lparr>svc_backend := b\<rparr>\<rparr>) = about_to_forward D m"
  "about_to_forward D (m\<lparr>lc_service := (lc_service m)\<lparr>svc_spawned := i\<rparr>\<rparr>) = about_to_forward D m"
  by (simp_all add: about_to_forward_def)

lemma about_to_forward_perform:
  "about_to_forward D m \<Longrightarrow> about_to_forward D (m\<lparr>lc_service := perform eff (lc_service m)\<rparr>)"
  by (fastforce simp: about_to_forward_def perform_def)

text \<open>One atomic step, or none, with the messages it moves.\<close>

definition follows ::
    "('e, 'b) relay_chat_backend \<Rightarrow> 'a iroh_deps \<Rightarrow> 'b client_chat_service
     \<Rightarrow> chat_message list \<times> chat_message list \<Rightarrow> 'b client_chat_service \<Rightarrow> bool" where
  "follows B D s l s' \<longleftrightarrow> (s' = s \<and> l = ([], [])) \<or> svc_step B D s l s'"

context relay_backend
begin

lemma acquired_state:
  assumes "backend_call B e (svc_name v) op (svc_backend v) = Some (r, b, effs)" and "op \<noteq> DoFinish"
    and "length (svc_queue v) \<le> svc_capacity v"
    and "lc_holder m' = Some \<lparr>h_caller = c, h_op = op, h_answer = r, h_effects = effs\<rparr>"
    and "lc_service m' = v\<lparr>svc_backend := b\<rparr>"
  shows "\<exists>s'. follows B D v ([], []) s' \<and> atomic_state B m' s'"
proof -
  let ?k = "\<lparr>h_caller = c, h_op = op, h_answer = r, h_effects = effs\<rparr>"
  have quiet: "\<exists>s'. follows B D v ([], []) s' \<and> atomic_state B m' s'"
    if "svc_step B D v ([], []) (completed ?k (v\<lparr>svc_backend := b\<rparr>))" "echoes effs = []"
    using that assms(4,5) unfolding follows_def atomic_state_def by fastforce
  have fin: "completed ?k (v\<lparr>svc_backend := b\<rparr>)
      = (after_call b effs v)\<lparr>svc_spawned := svc_spawned v + spawns op r\<rparr>"
    by (simp add: completed_def after_call_def)
  show ?thesis
  proof (cases op)
    case DoOpen
    from backend_call_opens [OF assms(1) [unfolded DoOpen]] obtain q where
      q: "begin_open_room B e (svc_backend v) = Some (q, b, effs)"
        "service_open B e v = Some (q, (after_call b effs v)\<lparr>svc_spawned := svc_spawned v + spawns DoOpen r\<rparr>)"
      by blast
    with fin svc_step.opens [OF q(2)] begin_quiet [OF q(1)] DoOpen show ?thesis by (intro quiet) simp_all
  next
    case (DoJoin t)
    from backend_call_joins [OF assms(1) [unfolded DoJoin]] obtain q where
      q: "join_room B e t (svc_name v) (svc_backend v) = Some (q, b, effs)"
        "service_join B e t v = Some (q, after_call b effs v)" by blast
    have "completed ?k (v\<lparr>svc_backend := b\<rparr>) = after_call b effs v"
      unfolding fin using DoJoin by (simp add: spawns_def after_call_def)
    with svc_step.joins [OF q(2)] join_joins [OF q(1)] show ?thesis by (intro quiet) simp_all
  next
    case (DoSend t)
    from backend_call_sends [OF assms(1) [unfolded DoSend]] obtain q where
      q: "send_user_message B e (svc_name v) t (svc_backend v) = Some (q, b, effs)" by blast
    show ?thesis
    proof (cases "echoes effs = []")
      case True
      have "completed ?k (v\<lparr>svc_backend := b\<rparr>) = after_call b effs v"
        unfolding fin using DoSend by (simp add: spawns_def after_call_def)
      moreover have "svc_step B D v ([], []) (after_call b effs v)"
        using svc_step.sends [OF service_send_of_call [OF q]] assms(3) True by simp
      ultimately show ?thesis using True by (intro quiet) simp_all
    next
      case False
      have "sending B ?k (v\<lparr>svc_backend := b\<rparr>) v"
        by (rule sendingI [where d = "[]", of _ t B e _ q b])
          (use DoSend q in \<open>simp_all add: after_call_def\<close>)
      with False assms(4,5) show ?thesis unfolding follows_def atomic_state_def by auto
    qed
  qed (use assms(2) in simp)
qed

lemma performed_state:
  assumes "atomic_state B m s" and k: "lc_holder m = Some k" "h_effects k = eff # effs"
    and "is_echo eff \<longrightarrow> length (svc_queue (lc_service m)) < svc_capacity (lc_service m)"
    and "lc_holder m' = Some (k\<lparr>h_effects := effs\<rparr>)" "lc_service m' = perform eff (lc_service m)"
  shows "\<exists>s'. follows B D s (echoes [eff], []) s' \<and> atomic_state B m' s'"
proof (cases "echoes (h_effects k) = []")
  case True
  then have "echoes [eff] = []" "echoes effs = []" using k(2) echoes_Cons [of eff effs] by auto
  with assms True show ?thesis
    unfolding follows_def atomic_state_def by (auto simp: completed_perform)
next
  case False
  with assms(1) k(1) have "sending B k (lc_service m) s" by (simp add: atomic_state_def)
  then obtain e t q d b where s: "h_op k = DoSend t" "echoes d = []" "lc_service m = after_call b d s"
      "send_user_message B e (svc_name s) t (svc_backend s) = Some (q, b, d @ h_effects k)"
    by (rule sendingE)
  have v: "perform eff (lc_service m) = after_call b (d @ [eff]) s"
    using after_call_append [of b d "[eff]" s b] s(3) by (simp add: perform_def)
  show ?thesis
  proof (cases "is_echo eff")
    case True
    then obtain x where eff: "eff = Echo x" by (cases eff) auto
    from send_echoes [OF s(4)] s(2) k(2) eff have e: "echoes effs = []" by auto
    have "completed (k\<lparr>h_effects := effs\<rparr>) (perform eff (lc_service m)) = after_call b (d @ eff # effs) s"
      unfolding completed_def v using after_call_append [of b "d @ [eff]" effs s b] s(1)
      by (simp add: spawns_def after_call_def)
    moreover have "svc_step B D s ([x], []) (after_call b (d @ eff # effs) s)"
      using svc_step.sends [OF service_send_of_call [OF s(4) [unfolded k(2)]]] assms(4) True s(2,3) eff e
      by (simp add: after_call_def)
    ultimately show ?thesis using assms(5,6) e eff unfolding follows_def atomic_state_def by auto
  next
    case False
    then have e: "echoes [eff] = []" "echoes effs \<noteq> []"
      using \<open>echoes (h_effects k) \<noteq> []\<close> k(2) echoes_Cons [of eff effs] by (auto simp: is_echo_iff)
    have "sending B (k\<lparr>h_effects := effs\<rparr>) (perform eff (lc_service m)) s"
      by (rule sendingI [where d = "d @ [eff]", of _ t B e _ q b]) (use s v k(2) e in simp_all)
    then show ?thesis using assms(5,6) e unfolding follows_def atomic_state_def by auto
  qed
qed

end

lemma single_loop:
  assumes "about_to_forward D m" and "length (svc_loops (lc_service m)) \<le> 1"
    and "lc_pending m j = Some x"
  shows "j = 0" and "\<exists>ev. handle_event D ev (svc_names (lc_service m)) = (svc_names (lc_service m), [x])"
  using assms by (fastforce simp: about_to_forward_def)+

lemma heard_names:
  assumes "about_to_forward D m" and "length (svc_loops (lc_service m)) \<le> 1"
    and "j < length (svc_loops (lc_service m))" and "lc_pending m j = None"
    and "handle_event D ev (svc_names (lc_service m)) = (names, out)"
  shows "about_to_forward D (m\<lparr>lc_service := (lc_service m)\<lparr>svc_names := names\<rparr>,
    lc_pending := (lc_pending m)(j := (case out of [] \<Rightarrow> None | x # _ \<Rightarrow> Some x))\<rparr>)"
proof -
  have "lc_pending m i = None" for i
    using single_loop(1) [OF assms(1,2), of i] assms(2,3,4) by (cases "lc_pending m i"; cases "i = j") auto
  then have "lc_pending m = (\<lambda>_. None)" by (rule ext)
  with assms(5) show ?thesis
    by (cases rule: handle_event_cases) (use assms(3,5) in \<open>auto simp: about_to_forward_def\<close>)
qed

text \<open>The loops of the atomic state are those of the state with locks, or more.\<close>

context relay_backend
begin

lemma atomic_state_loops:
  assumes "atomic_state B m s" and "svc_loops (lc_service m) \<noteq> []"
  shows "svc_loops s \<noteq> []"
proof (cases "lc_holder m")
  case None
  with assms show ?thesis by (simp add: atomic_state_def)
next
  case (Some k)
  show ?thesis
  proof (cases "echoes (h_effects k) = []")
    case True
    with assms Some show ?thesis by (simp add: atomic_state_def)
  next
    case False
    with assms(1) Some have "sending B k (lc_service m) s" by (simp add: atomic_state_def)
    then obtain e t q d b where "lc_service m = after_call b d s"
        "send_user_message B e (svc_name s) t (svc_backend s) = Some (q, b, d @ h_effects k)" by (rule sendingE)
    with send_starts_no_loop have "svc_loops (lc_service m) = svc_loops s" by (fastforce simp: after_call_def)
    with assms(2) show ?thesis by simp
  qed
qed

lemma lock_step_follows:
  assumes "lock_step B D m l m'" and "implements B D m s" and "svc_ok ok s"
    and "length (svc_loops (lc_service m)) \<le> 1"
  shows "\<exists>s'. follows B D s l s' \<and> implements B D m' s'"
proof -
  from assms(2) have I: "about_to_forward D m" "atomic_state B m s" by (simp_all add: implements_def)
  note same = atomic_state_same [OF I(2)]
  have room: "length (svc_queue (lc_service m)) \<le> svc_capacity (lc_service m)"
    using assms(3) same by (simp add: svc_ok_def)
  from assms(1) show ?thesis
  proof (cases rule: lock_step.cases)
    case (calls op i)
    with I have "implements B D m' s" by (simp add: implements_def atomic_state_def split: option.splits)
    with calls show ?thesis by (auto simp: follows_def)
  next
    case (acquires xs i op ys e r b effs)
    from acquires I(2) have "s = lc_service m" by (simp add: atomic_state_def)
    with acquired_state [OF acquires(6,5) room, of m' "Some i" D] acquires I(1) show ?thesis
      by (auto simp: implements_def about_to_forward_def)
  next
    case (spawned e r b effs)
    let ?v = "lc_service m"
    from spawned I(2) have s: "s = ?v" by (simp add: atomic_state_def)
    from backend_call_finishes [OF spawned(5)] obtain q where
      q: "finish_open_join_pending B e (svc_name ?v) (svc_backend ?v) = Some (q, b, effs)"
        "service_finish B e ?v = Some (after_call b effs (?v\<lparr>svc_spawned := svc_spawned ?v - 1\<rparr>))" .
    have "atomic_state B m' (after_call b effs (?v\<lparr>svc_spawned := svc_spawned ?v - 1\<rparr>))"
      using spawned(2) finish_joins [OF q(1)]
      by (simp add: atomic_state_def completed_def spawns_def after_call_def)
    moreover have "about_to_forward D m'" using spawned(2) I(1) by (simp add: about_to_forward_def)
    moreover note svc_step.finishes [OF spawned(4) [folded s] q(2) [folded s]]
    ultimately show ?thesis unfolding spawned(1) implements_def follows_def s by blast
  next
    case (performs k eff effs)
    with performed_state [OF I(2) performs(3,4,5), of m' D] about_to_forward_perform [OF I(1), of eff] show ?thesis
      by (auto simp: implements_def about_to_forward_def)
  next
    case (releases k)
    with I(2) have "s = completed k (lc_service m)" by (simp add: atomic_state_def)
    with releases I(1) have "implements B D m' s"
      by (simp add: implements_def atomic_state_def release_def completed_Nil about_to_forward_def)
    with releases show ?thesis by (auto simp: follows_def)
  next
    case (hears j ev names out)
    note about = heard_names [OF I(1) assms(4) hears(3,4,5)]
    from hears(5) show ?thesis
    proof (cases rule: handle_event_cases)
      case named
      have "svc_loops (lc_service m) \<noteq> []" using hears(3) by auto
      then have "svc_loops s \<noteq> []" by (rule atomic_state_loops [OF I(2)])
      moreover have ev: "service_event D ev s = s\<lparr>svc_names := names\<rparr>"
        using hears(5) same named by (simp add: service_event_def)
      ultimately have "svc_step B D s ([], []) (s\<lparr>svc_names := names\<rparr>)"
        using svc_step.receives [OF refl, of s D ev B] assms(3) by (simp add: svc_ok_def)
      moreover have "atomic_state B m' (s\<lparr>svc_names := names\<rparr>)"
        unfolding hears(2) by (rule atomic_state_names [OF I(2)])
      ultimately show ?thesis using about unfolding hears(1,2) implements_def follows_def by blast
    next
      case (heard x)
      then have "names = svc_names s" using same by simp
      then have "s\<lparr>svc_names := names\<rparr> = s" by simp
      then have "atomic_state B m' s"
        using atomic_state_names [OF I(2), where n = names] unfolding hears(2) by metis
      then show ?thesis using about unfolding hears(1,2) implements_def follows_def by blast
    qed
  next
    case (forwards j x)
    obtain ev where ev: "handle_event D ev (svc_names s) = (svc_names s, [x])"
      using single_loop(2) [OF I(1) assms(4) forwards(3)] same by auto
    have "svc_loops s \<noteq> []"
      using atomic_state_loops [OF I(2)] I(1) forwards(3) unfolding about_to_forward_def by fastforce
    moreover have "service_event D ev s = s\<lparr>svc_queue := svc_queue s @ [x]\<rparr>"
      unfolding service_event_def ev by simp
    moreover have "length (svc_queue s) < svc_capacity s" using forwards(4) same by simp
    ultimately have "svc_step B D s ([x], []) (s\<lparr>svc_queue := svc_queue s @ [x]\<rparr>)"
      using svc_step.receives [OF refl, of s D ev B] by simp
    moreover have "atomic_state B m' (s\<lparr>svc_queue := svc_queue s @ [x]\<rparr>)"
      using atomic_state_queue [OF I(2), where q = "svc_queue s @ [x]"] same unfolding forwards(2) by simp
    moreover have "about_to_forward D m'" using I(1) unfolding forwards(2) about_to_forward_def by simp
    ultimately show ?thesis unfolding forwards(1) implements_def follows_def by blast
  next
    case (delivers x v')
    from delivers(3) obtain ms where ms: "svc_queue (lc_service m) = x # ms" "v' = (lc_service m)\<lparr>svc_queue := ms\<rparr>"
      by (auto simp: service_next_message_Some)
    then have "svc_step B D s ([], [x]) (s\<lparr>svc_queue := ms\<rparr>)"
      using same by (intro svc_step.delivers) (simp add: service_next_message_Some)
    moreover have "atomic_state B m' (s\<lparr>svc_queue := ms\<rparr>)"
      using atomic_state_queue [OF I(2), where q = ms and p = "lc_pending m"] ms unfolding delivers(2) by simp
    moreover have "about_to_forward D m'" using I(1) ms unfolding delivers(2) about_to_forward_def by simp
    ultimately show ?thesis unfolding delivers(1) implements_def follows_def by blast
  qed
qed

end

lemma lock_step_loops: "lock_step B D m l m' \<Longrightarrow> length (svc_loops (lc_service m)) \<le> length (svc_loops (lc_service m'))"
  by (cases rule: lock_step.cases, assumption)
    (auto simp: perform_def release_def service_next_message_Some)

lemma svc_run_trans: "svc_run B D s tr s' \<Longrightarrow> follows B D s' l s'' \<Longrightarrow>
    \<exists>tr'. svc_run B D s tr' s'' \<and> concat (map fst tr') = concat (map fst tr) @ fst l
      \<and> concat (map snd tr') = concat (map snd tr) @ snd l"
  unfolding follows_def
proof (elim disjE conjE)
  assume "svc_run B D s tr s'" "svc_step B D s' l s''"
  from svc_run.more [OF this] show ?thesis by (intro exI [of _ "tr @ [l]"]) simp
qed auto

context relay_backend
begin

lemma lock_run_follows:
  assumes "lock_run B D (unlocked s0) tr m" and "svc_ok ok s0" and "length (svc_loops (lc_service m)) \<le> 1"
  shows "\<exists>tr' s. svc_run B D s0 tr' s \<and> implements B D m s
    \<and> concat (map fst tr') = concat (map fst tr) \<and> concat (map snd tr') = concat (map snd tr)"
  using assms(1,3)
proof (induction rule: lock_run.induct)
  case halt
  have "implements B D (unlocked s0) s0"
    by (simp add: implements_def unlocked_def about_to_forward_def atomic_state_def)
  then show ?case by (intro exI [of _ "[]"] exI [of _ s0]) (simp add: svc_run.none)
next
  case (more tr m l m')
  have loops: "length (svc_loops (lc_service m)) \<le> 1"
    using lock_step_loops [OF more.hyps(2)] more.prems by linarith
  with more.IH obtain tr' s where s: "svc_run B D s0 tr' s" "implements B D m s"
      "concat (map fst tr') = concat (map fst tr)" "concat (map snd tr') = concat (map snd tr)" by blast
  have "svc_ok ok s" using svc_run_ok [OF s(1) assms(2)] by simp
  from lock_step_follows [OF more.hyps(2) s(2) this loops] obtain s' where
    "follows B D s l s'" "implements B D m' s'" by blast
  with svc_run_trans [OF s(1) this(1)] s(3,4) show ?case by fastforce
qed

text \<open>No step leaves the backend's invariant, and a call from it answers.\<close>

lemma backend_call_safe:
  assumes "ok b" shows "\<exists>r b' effs. backend_call B e name op b = Some (r, b', effs) \<and> ok b'"
  using begin_safe [OF assms, of e] finish_safe [OF assms, of e name] join_safe [OF assms, of e _ name]
    send_safe [OF assms, of e name]
  by (cases op) (fastforce simp: backend_call_def safe_result_def split: option.splits)+

lemma lock_step_ok:
  assumes "lock_step B D m l m'" and "svc_ok ok (lc_service m)"
  shows "svc_ok ok (lc_service m') \<and> svc_capacity (lc_service m') = svc_capacity (lc_service m)"
  using assms(1)
proof (cases rule: lock_step.cases)
  case (acquires xs i op ys e r b effs)
  with assms(2) backend_call_safe [of "svc_backend (lc_service m)" e "svc_name (lc_service m)" op] show ?thesis
    by (auto simp: svc_ok_def)
next
  case (spawned e r b effs)
  with assms(2) backend_call_safe [of "svc_backend (lc_service m)" e "svc_name (lc_service m)" DoFinish] show ?thesis
    by (auto simp: svc_ok_def)
next
  case (performs k eff effs)
  with assms(2) show ?thesis by (cases eff) (auto simp: svc_ok_def perform_def)
qed (use assms(2) in \<open>auto simp: release_def service_next_message_Some svc_ok_def\<close>)

lemma lock_run_ok:
  "lock_run B D m tr m' \<Longrightarrow> svc_ok ok (lc_service m) \<Longrightarrow>
     svc_ok ok (lc_service m') \<and> svc_capacity (lc_service m') = svc_capacity (lc_service m)"
  by (induction rule: lock_run.induct) (auto dest: lock_step_ok)

end

section \<open>Lemmas: a call can always return\<close>

lemma make_room:
  assumes "0 < svc_capacity (lc_service m)" and "length (svc_queue (lc_service m)) \<le> svc_capacity (lc_service m)"
  obtains tr s where "lock_run B D m tr (m\<lparr>lc_service := s\<rparr>)" "length (svc_queue s) < svc_capacity s"
    "svc_capacity s = svc_capacity (lc_service m)" "svc_backend s = svc_backend (lc_service m)"
proof (cases "svc_queue (lc_service m)")
  case Nil
  have "lock_run B D m [] (m\<lparr>lc_service := lc_service m\<rparr>)" using lock_run.halt by simp
  with Nil assms(1) show ?thesis by (intro that) auto
next
  case (Cons x q)
  let ?s = "(lc_service m)\<lparr>svc_queue := q\<rparr>"
  have "lock_step B D m ([], [x]) (m\<lparr>lc_service := ?s\<rparr>)"
    by (rule lock_step.delivers) (simp add: service_next_message_Some Cons)
  from lock_run_step [OF this] show ?thesis
    by (rule that) (use assms(2) Cons in auto)
qed

text \<open>The holder runs to its end, with the application reading when the channel is full.\<close>

definition full_ok :: "'b client_chat_service \<Rightarrow> bool" where
  "full_ok s \<longleftrightarrow> 0 < svc_capacity s \<and> length (svc_queue s) \<le> svc_capacity s"

lemma holder_returns:
  assumes "lc_holder m = Some k" and "full_ok (lc_service m)"
  shows "\<exists>tr m'. lock_run B D m tr m' \<and> lc_holder m' = None \<and> full_ok (lc_service m')
    \<and> lc_waiting m' = lc_waiting m \<and> svc_backend (lc_service m') = svc_backend (lc_service m)
    \<and> lc_returned m' = lc_returned m @ (case h_caller k of None \<Rightarrow> [] | Some i \<Rightarrow> [(i, h_answer k)])"
  using assms
proof (induction "h_effects k" arbitrary: m k)
  case Nil
  from lock_run_step [OF lock_step.releases [OF Nil(2) Nil(1) [symmetric], of B D]] Nil(3) show ?case
    by (intro exI [of _ "[([], [])]"] exI [of _ "release k m"]) (auto simp: release_def full_ok_def)
next
  case (Cons eff effs)
  from Cons.prems(2) have "0 < svc_capacity (lc_service m)"
    "length (svc_queue (lc_service m)) \<le> svc_capacity (lc_service m)" by (simp_all add: full_ok_def)
  then obtain tr s where s: "lock_run B D m tr (m\<lparr>lc_service := s\<rparr>)" "length (svc_queue s) < svc_capacity s"
    "svc_capacity s = svc_capacity (lc_service m)" "svc_backend s = svc_backend (lc_service m)"
    by (rule make_room)
  let ?m = "m\<lparr>lc_service := s\<rparr>" and ?k = "k\<lparr>h_effects := effs\<rparr>"
  let ?m2 = "?m\<lparr>lc_holder := Some ?k, lc_service := perform eff (lc_service ?m)\<rparr>"
  have "lock_step B D ?m (echoes [eff], []) ?m2"
    by (rule lock_step.performs) (use Cons s in simp_all)
  from lock_run_trans [OF s(1) lock_run_step [OF this]]
  have run: "lock_run B D m (tr @ [(echoes [eff], [])]) ?m2" .
  have "full_ok (lc_service ?m2)" using s(2) by (cases eff) (auto simp: full_ok_def perform_def)
  with Cons.hyps(1) [of ?k ?m2] obtain tr' m' where "lock_run B D ?m2 tr' m'" "lc_holder m' = None"
    "full_ok (lc_service m')" "lc_waiting m' = lc_waiting m" "svc_backend (lc_service m') = svc_backend (lc_service m)"
    "lc_returned m' = lc_returned m @ (case h_caller k of None \<Rightarrow> [] | Some i \<Rightarrow> [(i, h_answer k)])"
    by (auto simp: s(4) cong: option.case_cong)
  with lock_run_trans [OF run] show ?case by blast
qed

context relay_backend
begin

lemma waiting_returns:
  assumes "(i, op) \<in> set (lc_waiting m)" and "op \<noteq> DoFinish" and "svc_ok ok (lc_service m)"
    and "0 < svc_capacity (lc_service m)"
  shows "\<exists>tr m' rs r. lock_run B D m tr m' \<and> lc_returned m' = lc_returned m @ rs @ [(i, r)]"
proof -
  have "\<exists>tr m1 rs. lock_run B D m tr m1 \<and> lc_holder m1 = None \<and> full_ok (lc_service m1)
    \<and> lc_waiting m1 = lc_waiting m \<and> lc_returned m1 = lc_returned m @ rs"
  proof (cases "lc_holder m")
    case None
    with assms(3,4) lock_run.halt show ?thesis by (fastforce simp: full_ok_def svc_ok_def)
  next
    case (Some k)
    from assms(3,4) have "full_ok (lc_service m)" by (simp add: full_ok_def svc_ok_def)
    from holder_returns [OF Some this] show ?thesis by blast
  qed
  then obtain tr m1 rs where m1: "lock_run B D m tr m1" "lc_holder m1 = None" "full_ok (lc_service m1)"
    "lc_waiting m1 = lc_waiting m" "lc_returned m1 = lc_returned m @ rs" by blast
  from split_list [OF assms(1)] obtain xs ys where split: "lc_waiting m1 = xs @ (i, op) # ys" using m1(4) by auto
  have "ok (svc_backend (lc_service m1))" using lock_run_ok [OF m1(1) assms(3)] by (simp add: svc_ok_def)
  then obtain r b effs where call: "backend_call B undefined (svc_name (lc_service m1)) op (svc_backend (lc_service m1))
      = Some (r, b, effs)" using backend_call_safe by blast
  let ?k = "\<lparr>h_caller = Some i, h_op = op, h_answer = r, h_effects = effs\<rparr>"
  let ?m2 = "m1\<lparr>lc_waiting := xs @ ys, lc_holder := Some ?k, lc_service := (lc_service m1)\<lparr>svc_backend := b\<rparr>\<rparr>"
  from lock_run_trans [OF m1(1) lock_run_step [OF lock_step.acquires [OF m1(2) split assms(2) call]]]
  have run: "lock_run B D m (tr @ [([], [])]) ?m2" .
  have "lc_holder ?m2 = Some ?k" "full_ok (lc_service ?m2)" using m1(3) by (simp_all add: full_ok_def)
  from holder_returns [OF this, of B D] obtain tr' m' where "lock_run B D ?m2 tr' m'"
    "lc_returned m' = lc_returned m1 @ [(i, r)]" by auto
  with lock_run_trans [OF run] m1(5) show ?thesis by fastforce
qed

end

section \<open>Lemmas: a full channel\<close>

text \<open>A call that is to echo into a full channel: nothing but a delivery moves it.\<close>

definition stalled :: "'b locked_chat \<Rightarrow> bool" where
  "stalled m \<longleftrightarrow> (\<exists>k x effs. lc_holder m = Some k \<and> h_effects k = Echo x # effs)
     \<and> svc_capacity (lc_service m) \<le> length (svc_queue (lc_service m))"

lemma stalled_step:
  assumes "lock_step B D m l m'" and "stalled m" and "snd l = []"
  shows "stalled m' \<and> fst l = [] \<and> lc_holder m' = lc_holder m \<and> lc_returned m' = lc_returned m
    \<and> svc_backend (lc_service m') = svc_backend (lc_service m)
    \<and> svc_queue (lc_service m') = svc_queue (lc_service m)
    \<and> (\<exists>ws. lc_waiting m' = lc_waiting m @ ws)"
  using assms(1)
  by (cases rule: lock_step.cases) (use assms(2,3) in \<open>auto simp: stalled_def\<close>)

lemma stalled_run:
  "lock_run B D m tr m' \<Longrightarrow> stalled m \<Longrightarrow> concat (map snd tr) = [] \<Longrightarrow>
     stalled m' \<and> concat (map fst tr) = [] \<and> lc_holder m' = lc_holder m \<and> lc_returned m' = lc_returned m
    \<and> svc_backend (lc_service m') = svc_backend (lc_service m)
    \<and> svc_queue (lc_service m') = svc_queue (lc_service m)
    \<and> (\<exists>ws. lc_waiting m' = lc_waiting m @ ws)"
proof (induction rule: lock_run.induct)
  case (more tr m' l m'')
  with stalled_step [OF more.hyps(2)] show ?case by fastforce
qed simp

section \<open>A concrete run\<close>


text \<open>One whole call when nobody holds the lock: it waits, gets the lock, echoes and returns.\<close>

lemma free_call:
  assumes "lc_holder m = None" and "lc_waiting m = []" and "op \<noteq> DoFinish"
    and "backend_call B e (svc_name (lc_service m)) op (svc_backend (lc_service m)) = Some (r, b, effs)"
  shows "\<exists>tr. lock_run B D m tr (m\<lparr>lc_waiting := [],
      lc_holder := Some \<lparr>h_caller = Some i, h_op = op, h_answer = r, h_effects = effs\<rparr>,
      lc_service := (lc_service m)\<lparr>svc_backend := b\<rparr>\<rparr>)"
proof -
  let ?m = "m\<lparr>lc_waiting := [(i, op)]\<rparr>"
  have "lock_step B D m ([], []) ?m" using lock_step.calls [OF assms(3), of B D m i] assms(2) by simp
  moreover have "lock_step B D ?m ([], []) (?m\<lparr>lc_waiting := [],
      lc_holder := Some \<lparr>h_caller = Some i, h_op = op, h_answer = r, h_effects = effs\<rparr>,
      lc_service := (lc_service ?m)\<lparr>svc_backend := b\<rparr>\<rparr>)"
    using lock_step.acquires [of ?m "[]" i op "[]" B e r b effs D] assms(1,3,4) by simp
  ultimately have "lock_run B D m [([], []), ([], [])] (?m\<lparr>lc_waiting := [],
      lc_holder := Some \<lparr>h_caller = Some i, h_op = op, h_answer = r, h_effects = effs\<rparr>,
      lc_service := (lc_service ?m)\<lparr>svc_backend := b\<rparr>\<rparr>)"
    using lock_run.more [OF lock_run_step] by fastforce
  then show ?thesis by (intro exI) simp
qed

lemma release_effects [simp]: "release (k\<lparr>h_effects := effs\<rparr>) m = release k m"
  by (simp add: release_def cong: option.case_cong)

lemma performs_all:
  assumes "lc_holder m = Some k" and "length (svc_queue (lc_service m)) + length (echoes (h_effects k)) \<le> svc_capacity (lc_service m)"
  shows "\<exists>tr. lock_run B D m tr (release k
    (m\<lparr>lc_service := after_call (svc_backend (lc_service m)) (h_effects k) (lc_service m)\<rparr>))"
  using assms
proof (induction "h_effects k" arbitrary: m k)
  case Nil
  with lock_run_step [OF lock_step.releases [OF Nil(2) Nil(1) [symmetric], of B D]] Nil(1) [symmetric] show ?case
    by auto
next
  case (Cons eff effs)
  let ?v = "lc_service m" and ?k = "k\<lparr>h_effects := effs\<rparr>"
  let ?m = "m\<lparr>lc_holder := Some ?k, lc_service := perform eff ?v\<rparr>"
  have len: "length (echoes (h_effects k)) = length (echoes [eff]) + length (echoes effs)"
    using echoes_Cons [of eff effs] Cons.hyps(2) by simp
  have "lock_step B D m (echoes [eff], []) ?m"
  proof (rule lock_step.performs [OF Cons.prems(1) Cons.hyps(2) [symmetric]], rule impI)
    assume "is_echo eff"
    with len Cons.prems(2) show "length (svc_queue ?v) < svc_capacity ?v" by (cases eff) auto
  qed
  note first = lock_run_step [OF this]
  have "length (svc_queue (perform eff ?v)) + length (echoes effs) \<le> svc_capacity (perform eff ?v)"
    using len Cons.prems(2) by (simp add: perform_def)
  with Cons.hyps(1) [of ?k ?m] obtain tr where "lock_run B D ?m tr (release ?k
      (?m\<lparr>lc_service := after_call (svc_backend (perform eff ?v)) effs (perform eff ?v)\<rparr>))" by auto
  from lock_run_trans [OF first this]
  have "lock_run B D m ([(echoes [eff], [])] @ tr) (release ?k
      (?m\<lparr>lc_service := after_call (svc_backend (perform eff ?v)) effs (perform eff ?v)\<rparr>))" .
  moreover have "release ?k (?m\<lparr>lc_service := after_call (svc_backend (perform eff ?v)) effs (perform eff ?v)\<rparr>)
      = release k (m\<lparr>lc_service := after_call (svc_backend ?v) (h_effects k) ?v\<rparr>)"
    unfolding Cons.hyps(2) [symmetric] after_call_perform [of ?v eff effs] release_effects by (simp add: release_def)
  ultimately show ?case by metis
qed

text \<open>Ann sends without ever reading: a hundred sends return, the next one does not.\<close>

definition unread :: "nat \<Rightarrow> iroh_backend locked_chat \<Rightarrow> bool" where
  "unread n m \<longleftrightarrow> lc_holder m = None \<and> lc_waiting m = []
     \<and> svc_backend (lc_service m) = svc_backend demo_joined \<and> svc_name (lc_service m) = Some ''ann''
     \<and> svc_capacity (lc_service m) = 100 \<and> length (svc_queue (lc_service m)) = n"

lemma demo_send_call:
  "backend_call (iroh_relay demo_iroh) demo_env (Some ''ann'') (DoSend ''hi'') (svc_backend demo_joined)
     = Some (Inr None, svc_backend demo_joined, [Broadcast [7] [1], Echo (demo_msg ''ann'')])"
  by (simp add: backend_call_def iroh_relay_def send_user_message_inner_def demo_env_def demo_iroh_def
      demo_joined_def demo_msg_def message_new_def map_ok_def Let_def)

definition ann_sends :: holder where
  "ann_sends = \<lparr>h_caller = Some 1, h_op = DoSend ''hi'', h_answer = Inr None,
     h_effects = [Broadcast [7] [1], Echo (demo_msg ''ann'')]\<rparr>"

lemma unread_sends:
  assumes "unread n m"
  shows "\<exists>tr. lock_run (iroh_relay demo_iroh) demo_iroh m tr (m\<lparr>lc_waiting := [], lc_holder := Some ann_sends,
      lc_service := (lc_service m)\<lparr>svc_backend := svc_backend demo_joined\<rparr>\<rparr>)"
  unfolding ann_sends_def
  by (rule free_call [where e = demo_env]) (use assms demo_send_call in \<open>simp_all add: unread_def\<close>)

lemma unread_grows:
  assumes "unread n m" and "n < 100"
  shows "\<exists>tr m'. lock_run (iroh_relay demo_iroh) demo_iroh m tr m' \<and> unread (Suc n) m'"
proof -
  from unread_sends [OF assms(1)] obtain tr where r1: "lock_run (iroh_relay demo_iroh) demo_iroh m tr
      (m\<lparr>lc_waiting := [], lc_holder := Some ann_sends, lc_service := (lc_service m)\<lparr>svc_backend := svc_backend demo_joined\<rparr>\<rparr>)"
      (is "lock_run _ _ _ _ ?m") by blast
  have "lc_holder ?m = Some ann_sends" by simp
  moreover have "length (svc_queue (lc_service ?m)) + length (echoes (h_effects ann_sends)) \<le> svc_capacity (lc_service ?m)"
    using assms by (simp add: unread_def ann_sends_def)
  ultimately obtain tr' where r2: "lock_run (iroh_relay demo_iroh) demo_iroh ?m tr' (release ann_sends
      (?m\<lparr>lc_service := after_call (svc_backend (lc_service ?m)) (h_effects ann_sends) (lc_service ?m)\<rparr>))"
    using performs_all by blast
  have "unread (Suc n) (release ann_sends
      (?m\<lparr>lc_service := after_call (svc_backend (lc_service ?m)) (h_effects ann_sends) (lc_service ?m)\<rparr>))"
    using assms(1) by (simp add: unread_def release_def ann_sends_def)
  with lock_run_trans [OF r1 r2] show ?thesis by blast
qed

lemma unread_reachable:
  "n \<le> 100 \<Longrightarrow> \<exists>tr m. lock_run (iroh_relay demo_iroh) demo_iroh (unlocked demo_joined) tr m \<and> unread n m"
proof (induction n)
  case 0
  have "unread 0 (unlocked demo_joined)"
    by (simp add: unread_def unlocked_def demo_joined_def chat_new_def wire_chat_for_clients_def client_chat_service_new_def)
  then show ?case using lock_run.halt by blast
next
  case (Suc n)
  then obtain tr m where m: "lock_run (iroh_relay demo_iroh) demo_iroh (unlocked demo_joined) tr m" "unread n m" by auto
  from unread_grows [OF m(2)] Suc.prems lock_run_trans [OF m(1)] show ?case by fastforce
qed



section \<open>Properties\<close>





text \<open>
  C34: A full channel stops the whole chat: when a send is about to echo into a channel that holds
  its hundred messages, then as long as no message is read nothing returns any more, not the
  send and not any \<open>open\<close>, \<open>join\<close> or \<open>send\<close> called before or after, because the send keeps the
  backend's lock.
\<close>

theorem full_channel_stops_the_chat:
  assumes "lock_run (iroh_relay D) D m tr m'" and "concat (map snd tr) = []"
    and "lc_holder m = Some k" and "h_effects k = Echo x # effs"
    and "svc_capacity (lc_service m) \<le> length (svc_queue (lc_service m))"
  shows "lc_holder m' = Some k \<and> lc_returned m' = lc_returned m
    \<and> svc_backend (lc_service m') = svc_backend (lc_service m)
    \<and> svc_queue (lc_service m') = svc_queue (lc_service m)
    \<and> (\<exists>ws. lc_waiting m' = lc_waiting m @ ws)"
proof -
  have "stalled m" using assms(3-5) by (auto simp: stalled_def)
  from stalled_run [OF assms(1) this assms(2)] assms(3) show ?thesis by simp
qed

text \<open>Such a state is reached by sending a hundred and one messages without reading any.\<close>

lemma stalled_reachable:
  "\<exists>tr m. lock_run (iroh_relay demo_iroh) demo_iroh (unlocked demo_joined) tr m
     \<and> lc_holder m = Some (ann_sends\<lparr>h_effects := [Echo (demo_msg ''ann'')]\<rparr>) \<and> lc_waiting m = []
     \<and> svc_capacity (lc_service m) = 100 \<and> length (svc_queue (lc_service m)) = 100"
proof -
  obtain tr m where m: "lock_run (iroh_relay demo_iroh) demo_iroh (unlocked demo_joined) tr m" "unread 100 m"
    using unread_reachable [of 100] by auto
  obtain tr2 where r2: "lock_run (iroh_relay demo_iroh) demo_iroh m tr2 (m\<lparr>lc_waiting := [], lc_holder := Some ann_sends,
      lc_service := (lc_service m)\<lparr>svc_backend := svc_backend demo_joined\<rparr>\<rparr>)" (is "lock_run _ _ _ _ ?m")
    using unread_sends [OF m(2)] by blast
  let ?m3 = "?m\<lparr>lc_holder := Some (ann_sends\<lparr>h_effects := [Echo (demo_msg ''ann'')]\<rparr>),
      lc_service := perform (Broadcast [7] [1]) (lc_service ?m)\<rparr>"
  have "lock_step (iroh_relay demo_iroh) demo_iroh ?m ([], []) ?m3"
    using lock_step.performs [of ?m ann_sends "Broadcast [7] [1]" "[Echo (demo_msg ''ann'')]" "iroh_relay demo_iroh" demo_iroh]
    by (simp add: ann_sends_def)
  from lock_run_trans [OF lock_run_trans [OF m(1) r2] lock_run_step [OF this]]
  have "lock_run (iroh_relay demo_iroh) demo_iroh (unlocked demo_joined) ((tr @ tr2) @ [([], [])]) ?m3" .
  moreover have "svc_capacity (lc_service ?m3) = 100" "length (svc_queue (lc_service ?m3)) = 100"
    using m(2) by (simp_all add: unread_def perform_def)
  moreover have "lc_holder ?m3 = Some (ann_sends\<lparr>h_effects := [Echo (demo_msg ''ann'')]\<rparr>)" "lc_waiting ?m3 = []"
    by simp_all
  ultimately show ?thesis by blast
qed

theorem full_channel_stops_the_chat_witness:
  "\<exists>m m'. (\<exists>tr. lock_run (iroh_relay demo_iroh) demo_iroh (unlocked demo_joined) tr m)
     \<and> lock_run (iroh_relay demo_iroh) demo_iroh m [([], [])] m'
     \<and> lc_waiting m' = [(2, DoOpen)] \<and> lc_returned m' = lc_returned m \<and> lc_holder m' = lc_holder m"
proof -
  obtain tr m where m: "lock_run (iroh_relay demo_iroh) demo_iroh (unlocked demo_joined) tr m"
      "lc_holder m = Some (ann_sends\<lparr>h_effects := [Echo (demo_msg ''ann'')]\<rparr>)" "lc_waiting m = []"
      "svc_capacity (lc_service m) \<le> length (svc_queue (lc_service m))"
    using stalled_reachable by auto
  have "lock_step (iroh_relay demo_iroh) demo_iroh m ([], []) (m\<lparr>lc_waiting := [(2, DoOpen)]\<rparr>)"
    using lock_step.calls [of DoOpen "iroh_relay demo_iroh" demo_iroh m 2] m(3) by simp
  note r = lock_run_step [OF this]
  from full_channel_stops_the_chat [OF r _ m(2) _ m(4)] r m(1) m(2) show ?thesis by fastforce
qed

end
