(* ===== verification/Sse_Stream.thy ===== *)
theory Sse_Stream
  imports Text
begin

text \<open>
  The event stream of the language-model client (\<^verbatim>\<open>guyos_core/src/llm.rs\<close>, from \<open>SseStream\<close>
  to \<open>find_event_delimiter\<close>): finding the blank line, parsing one event, and \<open>poll_next\<close> over
  an inner byte stream. JSON parsing of a chunk is the parameter \<open>parse_chunk\<close>. The lemmas show
  that the events depend only on the octets received; the properties also say when a poll
  waits, and whether anything will wake it.
\<close>

section \<open>Data\<close>

datatype chat_completions_stream_event = DeltaText string | Done

record chat_completions_delta =
  delta_content :: "string option"

record chat_completions_choice =
  choice_delta :: chat_completions_delta

record chat_completions_chunk =
  chunk_choices :: "chat_completions_choice list"

type_synonym parse_chunk = "string \<Rightarrow> string + chat_completions_chunk"
type_synonym stream_item = "string + chat_completions_stream_event"

section \<open>One event\<close>

function find_event_delimiter_from :: "bytes \<Rightarrow> nat \<Rightarrow> nat option" where
  "find_event_delimiter_from buf i =
     (if i + 1 < length buf then
        if i + 3 < length buf \<and> take 4 (drop i buf) = [0x0D, 0x0A, 0x0D, 0x0A] then Some i
        else if take 2 (drop i buf) = [0x0A, 0x0A] then Some i
        else find_event_delimiter_from buf (i + 1)
      else None)"
  by pat_completeness auto
termination
  by (relation "measure (\<lambda>(buf, i). length buf - i)") auto

declare find_event_delimiter_from.simps [simp del]

definition find_event_delimiter :: "bytes \<Rightarrow> nat option" where
  "find_event_delimiter buf = find_event_delimiter_from buf 0"

text \<open>The \<open>data:\<close> lines of an event, up to the first that decides it.\<close>

fun parse_event_lines :: "parse_chunk \<Rightarrow> string list \<Rightarrow> stream_item" where
  "parse_event_lines parse [] = Inr (DeltaText [])"
| "parse_event_lines parse (line # ls) =
     (case strip_prefix ''data:'' (trim_end_char CR line) of
        None \<Rightarrow> parse_event_lines parse ls
      | Some rest \<Rightarrow>
          let data = str_trim rest
          in if data = ''[DONE]'' then Inr Done
             else case parse data of
                    Inl e \<Rightarrow> Inl e
                  | Inr chunk \<Rightarrow>
                      let delta = (case chunk_choices chunk of
                            [] \<Rightarrow> None
                          | c # _ \<Rightarrow> delta_content (choice_delta c))
                      in case delta of
                           Some content \<Rightarrow> Inr (DeltaText content)
                         | None \<Rightarrow> parse_event_lines parse ls)"

definition try_parse_one_sse_event :: "parse_chunk \<Rightarrow> bytes \<Rightarrow> stream_item option \<times> bytes" where
  "try_parse_one_sse_event parse buf =
     (case find_event_delimiter buf of
        None \<Rightarrow> (None, buf)
      | Some idx \<Rightarrow>
          let event = take idx buf;
              buf = drop idx buf;
              delim_len = (if take 4 buf = [0x0D, 0x0A, 0x0D, 0x0A] then 4 else 2);
              buf = drop delim_len buf
          in (Some (parse_event_lines parse (str_lines (from_utf8_lossy event))), buf))"

section \<open>Polling\<close>

record sse_stream =
  sse_buf :: bytes
  sse_done :: bool

definition sse_new :: sse_stream where
  "sse_new = \<lparr>sse_buf = [], sse_done = False\<rparr>"

text \<open>
  What the inner stream answers to one poll, and what a poll answers. A stream that answers
  that it is pending has arranged to wake the task; \<open>poll_next\<close> relies on that and arranges
  nothing itself. The list holds the answers to come; the third component is what is left of it.
\<close>

datatype inner_answer = InnerChunk bytes | InnerError string | InnerEnd | InnerPending

datatype poll = Pending | Ready "stream_item option"

definition poll_next ::
    "parse_chunk \<Rightarrow> sse_stream \<Rightarrow> inner_answer list \<Rightarrow> poll \<times> sse_stream \<times> inner_answer list" where
  "poll_next parse s answers =
     (if sse_done s then (Ready None, s, answers)
      else case try_parse_one_sse_event parse (sse_buf s) of
        (Some ev, buf) \<Rightarrow> (Ready (Some ev), s\<lparr>sse_buf := buf\<rparr>, answers)
      | (None, buf) \<Rightarrow>
          let s = s\<lparr>sse_buf := buf\<rparr>
          in case answers of
               InnerChunk chunk # answers \<Rightarrow>
                 (case try_parse_one_sse_event parse (sse_buf s @ chunk) of
                    (Some ev, buf) \<Rightarrow> (Ready (Some ev), s\<lparr>sse_buf := buf\<rparr>, answers)
                  | (None, buf) \<Rightarrow> (Pending, s\<lparr>sse_buf := buf\<rparr>, answers))
             | InnerError e # answers \<Rightarrow> (Ready (Some (Inl e)), s\<lparr>sse_done := True\<rparr>, answers)
             | InnerEnd # answers \<Rightarrow> (Ready None, s\<lparr>sse_done := True\<rparr>, answers)
             | InnerPending # answers \<Rightarrow> (Pending, s, answers)
             | [] \<Rightarrow> (Pending, s, []))"

section \<open>Lemmas: the delimiter\<close>

definition delim_at :: "bytes \<Rightarrow> nat \<Rightarrow> bool" where
  "delim_at buf i \<longleftrightarrow> take 4 (drop i buf) = [0x0D, 0x0A, 0x0D, 0x0A] \<or> take 2 (drop i buf) = [0x0A, 0x0A]"

lemma take_eq_length: "take n xs = ys \<Longrightarrow> length ys = n \<Longrightarrow> n \<le> length xs"
  by auto

lemma delim_at_length: "delim_at buf i \<Longrightarrow> i + 2 \<le> length buf"
  by (auto simp: delim_at_def dest!: take_eq_length)

lemma find_event_delimiter_from_simp:
  "find_event_delimiter_from buf i =
     (if i + 1 < length buf then
        if delim_at buf i then Some i else find_event_delimiter_from buf (i + 1)
      else None)"
proof -
  have "take 4 (drop i buf) = [0x0D, 0x0A, 0x0D, 0x0A] \<Longrightarrow> i + 3 < length buf"
    by (auto dest!: take_eq_length)
  then show ?thesis
    by (subst find_event_delimiter_from.simps) (auto simp: delim_at_def)
qed

lemma find_event_delimiter_from_eq:
  "find_event_delimiter_from buf i = Some j \<longleftrightarrow> i \<le> j \<and> delim_at buf j \<and> (\<forall>k. i \<le> k \<and> k < j \<longrightarrow> \<not> delim_at buf k)"
proof (induction buf i rule: find_event_delimiter_from.induct)
  case (1 buf i)
  show ?case
  proof (cases "i + 1 < length buf")
    case False
    have "\<not> delim_at buf k" if "i \<le> k" for k
      using delim_at_length [of buf k] False that by auto
    with False show ?thesis by (subst find_event_delimiter_from_simp) auto
  next
    case True
    show ?thesis
    proof (cases "delim_at buf i")
      case True
      with \<open>i + 1 < length buf\<close> show ?thesis
        by (subst find_event_delimiter_from_simp) (auto simp: le_less)
    next
      case False
      with 1 True have "find_event_delimiter_from buf i = Some j \<longleftrightarrow>
          i + 1 \<le> j \<and> delim_at buf j \<and> (\<forall>k. i + 1 \<le> k \<and> k < j \<longrightarrow> \<not> delim_at buf k)"
        by (subst find_event_delimiter_from_simp) (auto simp: delim_at_def)
      moreover have "i \<le> k \<longleftrightarrow> k = i \<or> i + 1 \<le> k" for k by auto
      ultimately show ?thesis using False by auto
    qed
  qed
qed

lemma find_event_delimiter_eq:
  "find_event_delimiter buf = Some j \<longleftrightarrow> delim_at buf j \<and> (\<forall>k < j. \<not> delim_at buf k)"
  by (simp add: find_event_delimiter_def find_event_delimiter_from_eq)

text \<open>More octets do not move a delimiter that was found.\<close>

lemma take_drop_append: "n \<le> length xs - i \<Longrightarrow> take n (drop i (xs @ ys)) = take n (drop i xs)"
  by (cases "i \<le> length xs") auto

lemma delim_at_append:
  assumes "delim_at buf i" shows "delim_at (buf @ c) i"
proof -
  from assms consider "take 4 (drop i buf) = [0x0D, 0x0A, 0x0D, 0x0A]" | "take 2 (drop i buf) = [0x0A, 0x0A]"
    by (auto simp: delim_at_def)
  then show ?thesis
  proof cases
    case 1
    then have "4 \<le> length buf - i" by (auto dest: take_eq_length)
    with 1 show ?thesis unfolding delim_at_def by (simp only: take_drop_append simp_thms)
  next
    case 2
    then have "2 \<le> length buf - i" by (auto dest: take_eq_length)
    with 2 show ?thesis unfolding delim_at_def by (simp only: take_drop_append [of 2] simp_thms)
  qed
qed

lemma delim_at_prefix:
  assumes "delim_at (buf @ c) k" and "k + 4 \<le> length buf"
  shows "delim_at buf k"
  using assms by (simp add: delim_at_def)

lemma delim_at_nth:
  assumes "delim_at buf i"
  shows "buf ! i = 0x0D \<and> buf ! (i + 1) = 0x0A \<and> buf ! (i + 2) = 0x0D \<and> take 4 (drop i buf) = [0x0D, 0x0A, 0x0D, 0x0A]
    \<or> buf ! i = 0x0A \<and> buf ! (i + 1) = 0x0A \<and> take 2 (drop i buf) = [0x0A, 0x0A]"
proof -
  have nth: "buf ! (i + k) = xs ! k" if "take n (drop i buf) = xs" "k < n" "length xs = n" for n k xs
  proof -
    from take_eq_length [OF that(1,3)] that(2) have "i + k < length buf" by simp
    with that(2) show ?thesis by (simp flip: that(1))
  qed
  from assms consider "take 4 (drop i buf) = [0x0D, 0x0A, 0x0D, 0x0A]" | "take 2 (drop i buf) = [0x0A, 0x0A]"
    by (auto simp: delim_at_def)
  then show ?thesis
  proof cases
    case 1
    from nth [OF 1, of 0] nth [OF 1, of 1] nth [OF 1, of 2] 1 show ?thesis by simp
  next
    case 2
    from nth [OF 2, of 0] nth [OF 2, of 1] 2 show ?thesis by simp
  qed
qed

lemma find_event_delimiter_append:
  assumes "find_event_delimiter buf = Some j"
  shows "find_event_delimiter (buf @ c) = Some j"
proof -
  from assms have j: "delim_at buf j" "\<forall>k < j. \<not> delim_at buf k" by (simp_all add: find_event_delimiter_eq)
  have "\<not> delim_at (buf @ c) k" if "k < j" for k
  proof
    assume k: "delim_at (buf @ c) k"
    from delim_at_length [OF j(1)] have len: "j + 2 \<le> length buf" .
    have two: "take 2 (drop k (buf @ c)) = take 2 (drop k buf)"
      using len that by (intro take_drop_append) simp
    show False
    proof (cases "k + 4 \<le> length buf")
      case True
      from delim_at_prefix [OF k True] j(2) that show False by blast
    next
      case False
      with len that have kj: "j = k + 1" by simp
      have same: "(buf @ c) ! (k + 1) = buf ! j" "(buf @ c) ! (k + 2) = buf ! (j + 1)"
        using len kj by (simp_all add: nth_append)
      from delim_at_nth [OF k] show False
      proof
        assume "(buf @ c) ! k = 0x0D \<and> (buf @ c) ! (k + 1) = 0x0A \<and> (buf @ c) ! (k + 2) = 0x0D
          \<and> take 4 (drop k (buf @ c)) = [0x0D, 0x0A, 0x0D, 0x0A]"
        then have "buf ! j = 0x0A" "buf ! (j + 1) = 0x0D" unfolding same by auto
        with delim_at_nth [OF j(1)] show False by auto
      next
        assume "(buf @ c) ! k = 0x0A \<and> (buf @ c) ! (k + 1) = 0x0A \<and> take 2 (drop k (buf @ c)) = [0x0A, 0x0A]"
        then have "delim_at buf k" unfolding two delim_at_def by blast
        with j(2) that show False by blast
      qed
    qed
  qed
  with delim_at_append [OF j(1)] show ?thesis by (simp add: find_event_delimiter_eq)
qed

section \<open>Lemmas: one event and all events\<close>

text \<open>An event that was parsed stays the same when more octets follow.\<close>

lemma try_parse_cases:
  obtains (wait) "find_event_delimiter buf = None" "try_parse_one_sse_event parse buf = (None, buf)"
  | (event) i n where "find_event_delimiter buf = Some i" "n = 2 \<or> n = 4" "i + n \<le> length buf"
      "try_parse_one_sse_event parse buf
         = (Some (parse_event_lines parse (str_lines (from_utf8_lossy (take i buf)))), drop (i + n) buf)"
      "\<And>c. try_parse_one_sse_event parse (buf @ c)
         = (Some (parse_event_lines parse (str_lines (from_utf8_lossy (take i buf)))), drop (i + n) buf @ c)"
proof (cases "find_event_delimiter buf")
  case None
  then show thesis by (intro wait) (simp_all add: try_parse_one_sse_event_def)
next
  case (Some i)
  then have i: "delim_at buf i" by (simp add: find_event_delimiter_eq)
  define n :: nat where "n = (if take 4 (drop i buf) = [0x0D, 0x0A, 0x0D, 0x0A] then 4 else 2)"
  have n: "n = 2 \<or> n = 4" "i + n \<le> length buf"
    using delim_at_length [OF i] by (auto simp: n_def dest!: take_eq_length)
  have crlf: "take 4 (drop i (buf @ c)) = [0x0D, 0x0A, 0x0D, 0x0A] \<longleftrightarrow>
      take 4 (drop i buf) = [0x0D, 0x0A, 0x0D, 0x0A]" for c
  proof (cases "4 \<le> length buf - i")
    case True
    then show ?thesis by (simp only: take_drop_append)
  next
    case False
    have "take 4 (drop i buf) \<noteq> [0x0D, 0x0A, 0x0D, 0x0A]"
    proof
      assume h: "take 4 (drop i buf) = [0x0D, 0x0A, 0x0D, 0x0A]"
      have "length (take 4 (drop i buf)) = 4" unfolding h by simp
      with False show False by simp
    qed
    moreover from this delim_at_nth [OF i] have "buf ! i = 0x0A" by auto
    moreover from delim_at_length [OF i] have "take 4 (drop i (buf @ c)) ! 0 = buf ! i"
      by (simp add: nth_append)
    ultimately show ?thesis by auto
  qed
  show thesis
  proof (rule event [OF Some n])
    show "try_parse_one_sse_event parse buf
         = (Some (parse_event_lines parse (str_lines (from_utf8_lossy (take i buf)))), drop (i + n) buf)"
      by (simp add: try_parse_one_sse_event_def Some n_def Let_def add.commute)
    show "try_parse_one_sse_event parse (buf @ c)
         = (Some (parse_event_lines parse (str_lines (from_utf8_lossy (take i buf)))), drop (i + n) buf @ c)" for c
      unfolding try_parse_one_sse_event_def find_event_delimiter_append [OF Some] option.case Let_def crlf
        n_def [symmetric]
      using n(2) by (simp add: add.commute)
  qed
qed

lemma try_parse_shrinks: "try_parse_one_sse_event parse buf = (Some ev, buf') \<Longrightarrow> length buf' < length buf"
  by (cases rule: try_parse_cases [of buf parse]) auto

text \<open>All events of a buffer, and what is left.\<close>

function sse_events :: "parse_chunk \<Rightarrow> bytes \<Rightarrow> stream_item list \<times> bytes" where
  "sse_events parse buf =
     (case try_parse_one_sse_event parse buf of
        (None, buf') \<Rightarrow> ([], buf')
      | (Some ev, buf') \<Rightarrow> (case sse_events parse buf' of (evs, rest) \<Rightarrow> (ev # evs, rest)))"
  by pat_completeness auto
termination
  by (relation "measure (length \<circ> snd)") (auto dest: try_parse_shrinks [OF sym])

declare sse_events.simps [simp del]

lemma sse_events_append:
  "sse_events parse (buf @ c) =
     (case sse_events parse buf of (evs, rest) \<Rightarrow>
        (case sse_events parse (rest @ c) of (evs', rest') \<Rightarrow> (evs @ evs', rest')))"
proof (induction parse buf rule: sse_events.induct)
  case (1 parse buf)
  show ?case
  proof (cases rule: try_parse_cases [of buf parse])
    case wait
    then show ?thesis by (simp add: sse_events.simps [of parse buf] split: prod.split)
  next
    case (event i n)
    let ?ev = "parse_event_lines parse (str_lines (from_utf8_lossy (take i buf)))"
    have "sse_events parse (buf @ c)
        = (case sse_events parse (drop (i + n) buf @ c) of (evs, rest) \<Rightarrow> (?ev # evs, rest))"
      by (subst sse_events.simps) (simp add: event(5))
    moreover have "sse_events parse buf
        = (case sse_events parse (drop (i + n) buf) of (evs, rest) \<Rightarrow> (?ev # evs, rest))"
      by (subst sse_events.simps) (simp add: event(4))
    ultimately show ?thesis
      using "1.IH" [OF event(4) [symmetric] refl] by (simp split: prod.splits)
  qed
qed

text \<open>A reader that polls until the end of the stream, polling again after each pending answer.\<close>

lemma poll_next_progress:
  assumes "poll_next parse s answers = (r, s', answers')" and "r \<noteq> Ready None" and "\<not> (r = Pending \<and> answers = [])"
  shows "length answers' < length answers
    \<or> length answers' = length answers \<and> length (sse_buf s') < length (sse_buf s)"
  using assms
  by (auto simp: poll_next_def Let_def dest!: try_parse_shrinks
      split: if_splits prod.splits option.splits list.splits inner_answer.splits)

function poll_all :: "parse_chunk \<Rightarrow> sse_stream \<Rightarrow> inner_answer list \<Rightarrow> stream_item list" where
  "poll_all parse s answers =
     (case poll_next parse s answers of
        (Ready None, _, _) \<Rightarrow> []
      | (Ready (Some ev), s', answers') \<Rightarrow> ev # poll_all parse s' answers'
      | (Pending, s', answers') \<Rightarrow> if answers = [] then [] else poll_all parse s' answers')"
  by pat_completeness auto
termination
proof (relation "measures [\<lambda>(p, s, as). length as, \<lambda>(p, s, as). length (sse_buf s)]", goal_cases)
  case 1
  show ?case by simp
next
  case 2
  then show ?case by (auto dest!: sym [of _ "poll_next _ _ _"] dest: poll_next_progress)
next
  case 3
  then show ?case by (auto dest!: sym [of _ "poll_next _ _ _"] dest: poll_next_progress)
qed

declare poll_all.simps [simp del]

section \<open>Lemmas: whole streams\<close>

fun inner_octets :: "inner_answer list \<Rightarrow> bytes" where
  "inner_octets [] = []"
| "inner_octets (InnerChunk c # as) = c @ inner_octets as"
| "inner_octets (InnerPending # as) = inner_octets as"
| "inner_octets (InnerError e # as) = []"
| "inner_octets (InnerEnd # as) = []"

fun ends_cleanly :: "inner_answer list \<Rightarrow> bool" where
  "ends_cleanly [] \<longleftrightarrow> False"
| "ends_cleanly (InnerChunk c # as) \<longleftrightarrow> ends_cleanly as"
| "ends_cleanly (InnerPending # as) \<longleftrightarrow> ends_cleanly as"
| "ends_cleanly (InnerError e # as) \<longleftrightarrow> False"
| "ends_cleanly (InnerEnd # as) \<longleftrightarrow> True"

lemma poll_all_ready:
  "poll_next parse s answers = (Ready (Some ev), s', answers') \<Longrightarrow>
     poll_all parse s answers = ev # poll_all parse s' answers'"
  by (subst poll_all.simps) simp

lemma poll_all_pending:
  "poll_next parse s answers = (Pending, s', answers') \<Longrightarrow> answers \<noteq> [] \<Longrightarrow>
     poll_all parse s answers = poll_all parse s' answers'"
  by (subst poll_all.simps) simp

lemma sse_events_parsed:
  assumes "try_parse_one_sse_event parse buf = (Some ev, buf')"
  shows "fst (sse_events parse (buf @ c)) = ev # fst (sse_events parse (buf' @ c))"
proof -
  have "try_parse_one_sse_event parse (buf @ c) = (Some ev, buf' @ c)"
    using assms by (cases rule: try_parse_cases [of buf parse]) auto
  then show ?thesis by (subst sse_events.simps) (simp split: prod.split)
qed

lemma poll_all_events:
  "\<not> sse_done s \<Longrightarrow> ends_cleanly answers \<Longrightarrow>
     poll_all parse s answers = fst (sse_events parse (sse_buf s @ inner_octets answers))"
proof (induction "(length answers, length (sse_buf s))" arbitrary: answers s rule: wf_induct [OF wf_lex_prod [OF wf_less_than wf_less_than]])
  case (1 answers s)
  have IH: "poll_all parse s' answers' = fst (sse_events parse (sse_buf s' @ inner_octets answers'))"
    if "length answers' < length answers \<or> length answers' = length answers \<and> length (sse_buf s') < length (sse_buf s)"
      "\<not> sse_done s'" "ends_cleanly answers'" for s' answers'
    using 1(1) that by auto
  show ?case
  proof (cases "try_parse_one_sse_event parse (sse_buf s)")
    case (Pair r buf')
    show ?thesis
    proof (cases r)
      case (Some ev)
      with Pair 1(2) have "poll_next parse s answers = (Ready (Some ev), s\<lparr>sse_buf := buf'\<rparr>, answers)"
        by (simp add: poll_next_def)
      moreover have "length buf' < length (sse_buf s)" using try_parse_shrinks Pair Some by simp
      ultimately show ?thesis
        using IH [of answers "s\<lparr>sse_buf := buf'\<rparr>"] 1(2,3) sse_events_parsed [OF Pair [unfolded Some]]
        by (simp add: poll_all_ready)
    next
      case None
      with Pair have same: "buf' = sse_buf s"
        by (cases rule: try_parse_cases [of "sse_buf s" parse]) auto
      note none = Pair [unfolded None same]
      from 1(3) obtain a as where a: "answers = a # as" by (cases answers) auto
      show ?thesis
      proof (cases a)
        case (InnerChunk c)
        have as: "ends_cleanly as" using 1(3) a InnerChunk by simp
        show ?thesis
        proof (cases "try_parse_one_sse_event parse (sse_buf s @ c)")
          case (Pair q buf2)
          show ?thesis
          proof (cases q)
            case (Some ev)
            have "poll_next parse s answers = (Ready (Some ev), s\<lparr>sse_buf := buf2\<rparr>, as)"
              using 1(2) none a InnerChunk Pair Some by (simp add: poll_next_def Let_def)
            then show ?thesis
              using IH [of as "s\<lparr>sse_buf := buf2\<rparr>"] 1(2) as a InnerChunk
                sse_events_parsed [OF Pair [unfolded Some], of "inner_octets as"]
              by (simp add: poll_all_ready)
          next
            case None
            with Pair have "buf2 = sse_buf s @ c"
              by (cases rule: try_parse_cases [of "sse_buf s @ c" parse]) auto
            with Pair None have "poll_next parse s answers = (Pending, s\<lparr>sse_buf := sse_buf s @ c\<rparr>, as)"
              using 1(2) none a InnerChunk by (simp add: poll_next_def Let_def)
            then show ?thesis
              using IH [of as "s\<lparr>sse_buf := sse_buf s @ c\<rparr>"] 1(2) as a InnerChunk
              by (simp add: poll_all_pending)
          qed
        qed
      next
        case (InnerError e)
        with 1(3) a show ?thesis by simp
      next
        case InnerEnd
        then have "poll_next parse s answers = (Ready None, s\<lparr>sse_done := True\<rparr>, as)"
          using 1(2) none a by (simp add: poll_next_def Let_def)
        then have "poll_all parse s answers = []" by (subst poll_all.simps) simp
        moreover have "sse_events parse (sse_buf s) = ([], sse_buf s)"
          by (subst sse_events.simps) (simp add: none)
        ultimately show ?thesis using a InnerEnd by simp
      next
        case InnerPending
        then have "poll_next parse s answers = (Pending, s, as)"
          using 1(2) none a by (simp add: poll_next_def Let_def)
        then show ?thesis
          using IH [of as s] 1(2,3) a InnerPending by (simp add: poll_all_pending)
      qed
    qed
  qed
qed

definition blank_lines :: "bytes set" where
  "blank_lines = {[0x0A, 0x0A], [0x0D, 0x0A, 0x0D, 0x0A]}"

lemma printable_delimiter:
  assumes "\<And>b. b \<in> set bs \<Longrightarrow> b \<noteq> 0x0A \<and> b \<noteq> 0x0D" and "d \<in> blank_lines"
  shows "find_event_delimiter (bs @ d @ rest) = Some (length bs)"
proof -
  let ?buf = "bs @ d @ rest"
  have "\<not> delim_at ?buf k" if "k < length bs" for k
  proof
    assume "delim_at ?buf k"
    then have "?buf ! k = 0x0D \<or> ?buf ! k = 0x0A" by (auto dest: delim_at_nth)
    moreover have "?buf ! k \<in> set bs" using that by (simp add: nth_append)
    ultimately show False using assms(1) by blast
  qed
  moreover have "delim_at ?buf (length bs)" using assms(2) by (auto simp: delim_at_def blank_lines_def)
  ultimately show ?thesis by (simp add: find_event_delimiter_eq)
qed

lemma try_parse_terminated:
  assumes "\<And>b. b \<in> set bs \<Longrightarrow> b \<noteq> 0x0A \<and> b \<noteq> 0x0D" and "d \<in> blank_lines"
  shows "try_parse_one_sse_event parse (bs @ d @ rest)
    = (Some (parse_event_lines parse (str_lines (from_utf8_lossy bs))), rest)"
proof -
  have "find_event_delimiter (bs @ d @ rest) = Some (length bs)"
    using assms by (rule printable_delimiter)
  then show ?thesis using assms(2) unfolding try_parse_one_sse_event_def by (auto simp: Let_def blank_lines_def)
qed

lemma trim_end_char_id: "s \<noteq> [] \<Longrightarrow> last s \<noteq> c \<Longrightarrow> trim_end_char c s = s"
  by (cases s rule: rev_cases) (auto simp: trim_end_char_def)

section \<open>Properties\<close>

text \<open>
  The delimiter search returns the first position at which a blank line, LF LF or CR LF CR LF,
  starts, and nothing exactly when there is none.
\<close>

lemma sse_delimiter_exactly:
  "find_event_delimiter buf = (if \<exists>i. delim_at buf i then Some (LEAST i. delim_at buf i) else None)"
proof (cases "\<exists>i. delim_at buf i")
  case True
  then have "delim_at buf (LEAST i. delim_at buf i)" by (rule LeastI_ex)
  moreover have "\<not> delim_at buf k" if "k < (LEAST i. delim_at buf i)" for k
    using that by (rule not_less_Least)
  ultimately have "find_event_delimiter buf = Some (LEAST i. delim_at buf i)"
    unfolding find_event_delimiter_eq by blast
  with True show ?thesis by (simp only: if_True)
next
  case False
  then have "find_event_delimiter buf \<noteq> Some j" for j unfolding find_event_delimiter_eq by blast
  with False show ?thesis by (simp only: if_False) (meson not_Some_eq)
qed

text \<open>
  C24: A reader that polls to the end of the response gets the events of the whole body, in order,
  however the body was cut into chunks and whenever the inner stream was pending in between:
  what follows the last blank line is dropped.
\<close>

theorem sse_events_any_chunking:
  assumes "ends_cleanly answers"
  shows "poll_all parse sse_new answers = fst (sse_events parse (inner_octets answers))"
  using poll_all_events [OF _ assms, of sse_new parse] by (simp add: sse_new_def)

theorem sse_events_any_chunking_witness:
  "poll_all (\<lambda>_. Inl ''json'') sse_new [InnerChunk [10], InnerPending, InnerChunk [10, 10, 10, 65], InnerEnd]
     = fst (sse_events (\<lambda>_. Inl ''json'') [10, 10, 10, 10, 65])"
  using sse_events_any_chunking [of "[InnerChunk [10], InnerPending, InnerChunk [10, 10, 10, 65], InnerEnd]"]
  by simp

text \<open>
  One event: the line \<open>data: \<close> followed by printable text and a blank line is that text's
  event, \<open>[DONE]\<close> or the first choice of the chunk it parses to, and the rest of the buffer is
  kept for the next one.
\<close>

lemma sse_data_event:
  assumes "s \<noteq> []" and "\<forall>c \<in> set s. 32 \<le> char_code c \<and> char_code c < 127"
    and "char_code (hd s) \<noteq> 32" and "char_code (last s) \<noteq> 32" and "d \<in> blank_lines"
  shows "try_parse_one_sse_event parse (as_bytes (''data: '' @ s) @ d @ rest) =
     (Some (if s = ''[DONE]'' then Inr Done
            else case parse s of
                   Inl e \<Rightarrow> Inl e
                 | Inr chunk \<Rightarrow> Inr (DeltaText (case chunk_choices chunk of
                      [] \<Rightarrow> []
                    | c # _ \<Rightarrow> (case delta_content (choice_delta c) of None \<Rightarrow> [] | Some t \<Rightarrow> t)))), rest)"
proof -
  let ?line = "''data: '' @ s"
  have printable: "32 \<le> char_code c \<and> char_code c < 127" if "c \<in> set ?line" for c
    using that assms(2) by auto
  have ctrl: "CR \<notin> set ?line" "LF \<notin> set ?line" using printable [of CR] printable [of LF] by auto
  have bytes: "b \<noteq> 0x0A \<and> b \<noteq> 0x0D" if b: "b \<in> set (as_bytes ?line)" for b
  proof -
    obtain c where c: "b = byte_of_char c" "c \<in> set ?line" using b by (auto simp: as_bytes_def)
    from printable [OF c(2)] have "32 \<le> unat b" by (simp add: c(1))
    then show ?thesis by auto
  qed
  have "utf8_string ?line" using printable by (intro utf8_string_ascii) force
  note lossy = from_utf8_lossy_as_bytes [OF this]
  have lines: "str_lines ?line = [?line]" using ctrl(2) by (intro str_lines_one) simp_all
  have "last ?line \<noteq> CR" using ctrl(1) last_in_set [of ?line] by auto
  then have cr: "trim_end_char CR ?line = ?line" by (intro trim_end_char_id) simp_all
  have pre: "strip_prefix ''data:'' ?line = Some (CHR '' '' # s)"
    using strip_prefix_append [of "''data:''" "CHR '' '' # s"] by simp
  have hd: "33 \<le> char_code (hd s) \<and> char_code (hd s) < 127"
    using bspec [OF assms(2) hd_in_set [OF assms(1)]] assms(3) by linarith
  have last: "33 \<le> char_code (last s) \<and> char_code (last s) < 127"
    using bspec [OF assms(2) last_in_set [OF assms(1)]] assms(4) by linarith
  note trim = trim_printable(2) [OF assms(1) hd last]
  have parsed: "parse_event_lines parse (str_lines (from_utf8_lossy (as_bytes ?line))) =
     (if s = ''[DONE]'' then Inr Done
      else case parse s of
             Inl e \<Rightarrow> Inl e
           | Inr chunk \<Rightarrow> Inr (DeltaText (case chunk_choices chunk of
                [] \<Rightarrow> []
              | c # _ \<Rightarrow> (case delta_content (choice_delta c) of None \<Rightarrow> [] | Some t \<Rightarrow> t))))"
    unfolding lossy lines parse_event_lines.simps cr pre option.case trim Let_def
    by (auto split: sum.split list.split option.split)
  show ?thesis
    unfolding parsed [symmetric] by (rule try_parse_terminated [OF _ assms(5)]) (rule bytes)
qed


end
