(* ===== verification/Llm_Relay.thy ===== *)
theory Llm_Relay
  imports Sse_Stream Chat_Service
begin

text \<open>
  The language-model relay of the command line: the request and the throttled streaming reply
  (\<^verbatim>\<open>guyos_core/src/llm.rs\<close>, \<open>run_streaming_reply\<close>) and the loop over incoming messages
  with its rolling history and self-loop guard, and the input thread (\<^verbatim>\<open>guyos_core/src/main.rs\<close>).
  HTTP is third party: what the model server answers is an input. Time is the millisecond
  reading of the clock at each point where the code reads it. The texts given to \<open>chat.send\<close>,
  whose result the code ignores, are the log a function returns.
\<close>

section \<open>Configuration and requests\<close>

record llm_relay_config =
  cfg_assistant_name :: string
  cfg_base_url :: string
  cfg_model :: string
  cfg_system_prompt :: "string option"
  cfg_context :: nat
  cfg_stream :: bool
  cfg_stream_chunk_min_chars :: nat
  cfg_stream_interval :: nat

record history_message =
  hist_from :: string
  hist_text :: string

datatype openai_role = System | User | Assistant

record openai_message =
  msg_role :: openai_role
  msg_content :: string

record chat_completions_request =
  req_model :: string
  req_messages :: "openai_message list"
  req_stream :: bool

definition request_messages :: "llm_relay_config \<Rightarrow> history_message list \<Rightarrow> openai_message list" where
  "request_messages cfg history =
     (case cfg_system_prompt cfg of
        None \<Rightarrow> []
      | Some system \<Rightarrow> [\<lparr>msg_role = System, msg_content = system\<rparr>])
     @ map (\<lambda>m. \<lparr>msg_role = if hist_from m = cfg_assistant_name cfg then Assistant else User,
                 msg_content = hist_text m\<rparr>) history"

section \<open>The HTTP client\<close>

text \<open>
  URLs and HTTP are third party: \<open>url_ops\<close> are the operations on URLs the code uses, and the
  answer to a request is an input. An error is shown by its outermost context.
\<close>

record 'u url_ops =
  url_parse :: "string \<Rightarrow> 'u option"
  url_path_segments :: "'u \<Rightarrow> string list option"
  url_with_segments :: "'u \<Rightarrow> string list \<Rightarrow> 'u"

definition pop_if_empty :: "string list \<Rightarrow> string list" where
  "pop_if_empty segs = (if segs \<noteq> [] \<and> last segs = [] then butlast segs else segs)"

definition completions_url :: "'u url_ops \<Rightarrow> string \<Rightarrow> string + 'u" where
  "completions_url U base_url =
     and_then (ok_or ''invalid --llm-base-url'' (url_parse U base_url)) (\<lambda>url.
     and_then (ok_or ''invalid --llm-base-url path'' (url_path_segments U url)) (\<lambda>segs.
       Inr (url_with_segments U url (pop_if_empty segs @ [''chat'', ''completions'']))))"

record http_response =
  resp_status :: nat
  resp_text :: "string + string"

definition checked_response :: "string + http_response \<Rightarrow> string + http_response" where
  "checked_response answer =
     and_then (map_err (\<lambda>_. ''failed to call OpenAI-compatible API'') answer) (\<lambda>resp.
       if \<not> (200 \<le> resp_status resp \<and> resp_status resp < 300) then
         let body = (case resp_text resp of Inl _ \<Rightarrow> [] | Inr t \<Rightarrow> t)
         in Inl (''llm http error '' @ dec_of_nat (resp_status resp) @ '': '' @ body)
       else Inr resp)"

record chat_completions_response_message =
  rmsg_content :: string

record chat_completions_response_choice =
  rchoice_message :: chat_completions_response_message

record chat_completions_response =
  resp_choices :: "chat_completions_response_choice list"

text \<open>
  A plain completion: \<open>post\<close> is the server's answer for a URL and a request, \<open>parse_response\<close> the
  JSON reading of the response.
\<close>

definition chat_completions ::
    "'u url_ops \<Rightarrow> ('u \<Rightarrow> chat_completions_request \<Rightarrow> string + http_response)
     \<Rightarrow> (http_response \<Rightarrow> string + chat_completions_response) \<Rightarrow> string \<Rightarrow> chat_completions_request \<Rightarrow> string + string" where
  "chat_completions U post parse_response base_url req =
     and_then (completions_url U base_url) (\<lambda>url.
     and_then (checked_response (post url req)) (\<lambda>resp.
     and_then (map_err (\<lambda>_. ''failed to parse chat completions response'') (parse_response resp))
       (\<lambda>parsed. Inr (case resp_choices parsed of [] \<Rightarrow> [] | c # _ \<Rightarrow> rmsg_content (rchoice_message c)))))"

text \<open>A streaming one: the byte stream of the response under \<open>SseStream\<close>.\<close>

definition stream_chat_completions ::
    "'u url_ops \<Rightarrow> ('u \<Rightarrow> chat_completions_request \<Rightarrow> string + http_response)
     \<Rightarrow> string \<Rightarrow> chat_completions_request \<Rightarrow> string + sse_stream" where
  "stream_chat_completions U post base_url req =
     and_then (completions_url U base_url) (\<lambda>url.
     and_then (checked_response (post url req)) (\<lambda>resp. Inr sse_new))"

section \<open>The reply\<close>

text \<open>
  One turn of the streaming loop: an item of the stream, the clock when \<open>last_send.elapsed()\<close>
  is asked and the clock when \<open>last_send\<close> is set again.
\<close>

type_synonym stream_turn = "stream_item \<times> nat \<times> nat"

record reply_state =
  rs_acc :: string
  rs_last_send :: nat
  rs_sent_any_partial :: bool
  rs_sends :: "string list"

definition partial_text :: "string \<Rightarrow> string" where
  "partial_text s = ''(partial) '' @ s"

definition on_delta :: "llm_relay_config \<Rightarrow> string \<Rightarrow> nat \<Rightarrow> nat \<Rightarrow> reply_state \<Rightarrow> reply_state" where
  "on_delta cfg delta now now' st =
     (let acc = rs_acc st @ delta;
          should_send = (cfg_stream_chunk_min_chars cfg \<le> length acc
            \<and> cfg_stream_interval cfg \<le> now - rs_last_send st)
      in if should_send
         then st\<lparr>rs_acc := [], rs_last_send := now', rs_sent_any_partial := True,
                 rs_sends := rs_sends st @ [partial_text acc]\<rparr>
         else st\<lparr>rs_acc := acc\<rparr>)"

fun stream_turns :: "llm_relay_config \<Rightarrow> stream_turn list \<Rightarrow> reply_state \<Rightarrow> (string + unit) \<times> reply_state" where
  "stream_turns cfg [] st = (Inr (), st)"
| "stream_turns cfg ((Inl e, now, now') # turns) st = (Inl e, st)"
| "stream_turns cfg ((Inr Done, now, now') # turns) st = (Inr (), st)"
| "stream_turns cfg ((Inr (DeltaText delta), now, now') # turns) st =
     stream_turns cfg turns (on_delta cfg delta now now' st)"

definition flush_remainder :: "reply_state \<Rightarrow> string list" where
  "flush_remainder st =
     (if rs_acc st = [] then rs_sends st
      else if rs_sent_any_partial st then rs_sends st @ [partial_text (rs_acc st)]
      else rs_sends st @ [rs_acc st])"

definition streaming_reply ::
    "llm_relay_config \<Rightarrow> nat \<Rightarrow> stream_turn list \<Rightarrow> (string + unit) \<times> string list" where
  "streaming_reply cfg start turns =
     (let st = \<lparr>rs_acc = [],
          rs_last_send = (if cfg_stream_interval cfg \<le> start then start - cfg_stream_interval cfg else start),
          rs_sent_any_partial = False, rs_sends = []\<rparr>
      in case stream_turns cfg turns st of
           (Inl e, st) \<Rightarrow> (Inl e, rs_sends st)
         | (Inr _, st) \<Rightarrow> (Inr (), flush_remainder st))"

text \<open>
  The whole reply. \<open>complete\<close> is the server's answer to a plain request, \<open>open_stream\<close> its
  answer to a streaming one, with the turns that follow when it accepts.
\<close>

definition run_streaming_reply ::
    "llm_relay_config \<Rightarrow> history_message list \<Rightarrow> (chat_completions_request \<Rightarrow> string + string)
     \<Rightarrow> (chat_completions_request \<Rightarrow> string + stream_turn list) \<Rightarrow> nat \<Rightarrow> (string + unit) \<times> string list" where
  "run_streaming_reply cfg history complete open_stream start =
     (let messages = request_messages cfg history
      in if \<not> cfg_stream cfg then
           (case complete \<lparr>req_model = cfg_model cfg, req_messages = messages, req_stream = False\<rparr> of
              Inl e \<Rightarrow> (Inl e, [])
            | Inr answer \<Rightarrow> (Inr (), if answer \<noteq> [] then [answer] else []))
         else
           (case open_stream \<lparr>req_model = cfg_model cfg, req_messages = messages, req_stream = True\<rparr> of
              Inl e \<Rightarrow> (Inl e, [])
            | Inr turns \<Rightarrow> streaming_reply cfg start turns))"

section \<open>The command line\<close>

datatype command = Open | Join string

record args =
  arg_name :: "string option"
  arg_llm_enable :: bool
  arg_llm_base_url :: string
  arg_llm_model :: "string option"
  arg_llm_system_prompt :: "string option"
  arg_llm_context :: nat
  arg_llm_stream_chunk_min_chars :: nat
  arg_llm_stream_interval_ms :: nat
  arg_llm_stream :: bool
  arg_command :: command

definition llm_config_of_args :: "args \<Rightarrow> string + llm_relay_config option" where
  "llm_config_of_args a =
     (if arg_llm_enable a then
        and_then (ok_or ''--name is required when --llm-enable is set'' (arg_name a)) (\<lambda>assistant_name.
        and_then (ok_or ''--llm-model is required when --llm-enable is set'' (arg_llm_model a)) (\<lambda>model.
          Inr (Some
            \<lparr>cfg_assistant_name = assistant_name,
             cfg_base_url = arg_llm_base_url a,
             cfg_model = model,
             cfg_system_prompt = arg_llm_system_prompt a,
             cfg_context = arg_llm_context a,
             cfg_stream = arg_llm_stream a,
             cfg_stream_chunk_min_chars = arg_llm_stream_chunk_min_chars a,
             cfg_stream_interval = arg_llm_stream_interval_ms a\<rparr>)))
      else Inr None)"

section \<open>The loops of the command line\<close>

text \<open>
  One incoming message: the next history, and the snapshot a new generation starts from (the
  running one is aborted), or none.
\<close>

fun pop_to :: "nat \<Rightarrow> history_message list \<Rightarrow> history_message list" where
  "pop_to n [] = []"
| "pop_to n (m # ms) = (if n < length (m # ms) then pop_to n ms else m # ms)"

definition on_incoming ::
    "llm_relay_config \<Rightarrow> chat_message \<Rightarrow> history_message list \<Rightarrow> history_message list \<times> history_message list option" where
  "on_incoming cfg msg history =
     (let history = history @ [\<lparr>hist_from = chat_from msg, hist_text = chat_text msg\<rparr>];
          history = pop_to (cfg_context cfg) history
      in if chat_from msg = cfg_assistant_name cfg then (history, None) else (history, Some history))"

fun incoming_loop ::
    "llm_relay_config \<Rightarrow> chat_message list \<Rightarrow> history_message list \<Rightarrow> history_message list list \<times> history_message list" where
  "incoming_loop cfg [] history = ([], history)"
| "incoming_loop cfg (msg # msgs) history =
     (case on_incoming cfg msg history of
        (history', snapshot) \<Rightarrow>
          (case incoming_loop cfg msgs history' of
             (snapshots, history'') \<Rightarrow>
               ((case snapshot of None \<Rightarrow> snapshots | Some h \<Rightarrow> h # snapshots), history'')))"

text \<open>
  The input thread: the answers of \<open>read_line\<close> (the text appended to the buffer, which is empty
  at the end of input) and whether the channel still takes the line.
\<close>

fun input_loop :: "(string + string) list \<Rightarrow> bool list \<Rightarrow> (string + unit) option \<times> string list" where
  "input_loop [] takes = (None, [])"
| "input_loop (Inl e # reads) takes = (Some (Inl e), [])"
| "input_loop (Inr line # reads) [] = (None, [])"
| "input_loop (Inr line # reads) (ok # takes) =
     (if ok then (case input_loop reads takes of (r, sent) \<Rightarrow> (r, line # sent))
      else (Some (Inl ''channel closed''), []))"

section \<open>Lemmas\<close>

text \<open>The text of a reply: the deltas up to the end, \<open>[DONE]\<close> or an error.\<close>

fun delta_text :: "stream_turn list \<Rightarrow> string" where
  "delta_text [] = []"
| "delta_text ((Inr (DeltaText d), now, now') # turns) = d @ delta_text turns"
| "delta_text ((Inr Done, now, now') # turns) = []"
| "delta_text ((Inl e, now, now') # turns) = []"

text \<open>The clock readings around each partial update: asked before, set after.\<close>

fun partial_times :: "llm_relay_config \<Rightarrow> stream_turn list \<Rightarrow> reply_state \<Rightarrow> (nat \<times> nat) list" where
  "partial_times cfg [] st = []"
| "partial_times cfg ((Inl e, now, now') # turns) st = []"
| "partial_times cfg ((Inr Done, now, now') # turns) st = []"
| "partial_times cfg ((Inr (DeltaText delta), now, now') # turns) st =
     (let st' = on_delta cfg delta now now' st
      in (if length (rs_sends st') = length (rs_sends st) then [] else [(now, now')])
         @ partial_times cfg turns st')"

lemma on_delta_cases:
  obtains (keep) "on_delta cfg d now now' st = st\<lparr>rs_acc := rs_acc st @ d\<rparr>"
  | (emit) "cfg_stream_chunk_min_chars cfg \<le> length (rs_acc st @ d)"
      "cfg_stream_interval cfg \<le> now - rs_last_send st"
      "on_delta cfg d now now' st = st\<lparr>rs_acc := [], rs_last_send := now', rs_sent_any_partial := True,
         rs_sends := rs_sends st @ [partial_text (rs_acc st @ d)]\<rparr>"
proof (cases "cfg_stream_chunk_min_chars cfg \<le> length (rs_acc st @ d)
    \<and> cfg_stream_interval cfg \<le> now - rs_last_send st")
  case True
  then show thesis by (intro emit) (simp_all add: on_delta_def)
next
  case False
  then show thesis by (intro keep) (simp only: on_delta_def Let_def if_False)
qed

text \<open>What the turns add to the messages sent: long enough pieces of the text.\<close>

lemma stream_turns_parts:
  assumes "stream_turns cfg turns st = (r, st')"
  shows "\<exists>parts. rs_sends st' = rs_sends st @ map partial_text parts
    \<and> concat parts @ rs_acc st' = rs_acc st @ delta_text turns
    \<and> (\<forall>p \<in> set parts. cfg_stream_chunk_min_chars cfg \<le> length p)
    \<and> (rs_sent_any_partial st' \<longleftrightarrow> rs_sent_any_partial st \<or> parts \<noteq> [])
    \<and> length parts = length (partial_times cfg turns st)"
  using assms
proof (induction cfg turns st rule: stream_turns.induct)
  case (4 cfg d now now' turns st)
  let ?st = "on_delta cfg d now now' st"
  from 4 obtain parts where IH: "rs_sends st' = rs_sends ?st @ map partial_text parts"
    "concat parts @ rs_acc st' = rs_acc ?st @ delta_text turns"
    "\<forall>p \<in> set parts. cfg_stream_chunk_min_chars cfg \<le> length p"
    "rs_sent_any_partial st' \<longleftrightarrow> rs_sent_any_partial ?st \<or> parts \<noteq> []"
    "length parts = length (partial_times cfg turns ?st)" by auto
  show ?case
  proof (cases rule: on_delta_cases [of cfg d now now' st])
    case keep
    with IH show ?thesis by (intro exI [of _ parts]) simp
  next
    case emit
    with IH show ?thesis by (intro exI [of _ "(rs_acc st @ d) # parts"]) simp
  qed
qed auto

lemma partial_times_throttled:
  "successively (\<lambda>(_, reset) (asked, _). cfg_stream_interval cfg \<le> asked - reset) (partial_times cfg turns st)
   \<and> (case partial_times cfg turns st of [] \<Rightarrow> True
      | (asked, _) # _ \<Rightarrow> cfg_stream_interval cfg \<le> asked - rs_last_send st)"
proof (induction cfg turns st rule: partial_times.induct)
  case (4 cfg d now now' turns st)
  let ?st = "on_delta cfg d now now' st"
  have IH: "successively (\<lambda>(_, reset) (asked, _). cfg_stream_interval cfg \<le> asked - reset) (partial_times cfg turns ?st)"
    "case partial_times cfg turns ?st of [] \<Rightarrow> True
      | (asked, _) # _ \<Rightarrow> cfg_stream_interval cfg \<le> asked - rs_last_send ?st"
    using 4 by simp_all
  show ?case
  proof (cases rule: on_delta_cases [of cfg d now now' st])
    case keep
    with IH show ?thesis by (cases "partial_times cfg turns ?st") auto
  next
    case emit
    with IH show ?thesis by (cases "partial_times cfg turns ?st") auto
  qed
qed auto

lemma pop_to_eq: "pop_to n xs = drop (length xs - n) xs"
  by (induction n xs rule: pop_to.induct) (auto simp: Suc_diff_le)

definition hist_of :: "chat_message \<Rightarrow> history_message" where
  "hist_of m = \<lparr>hist_from = chat_from m, hist_text = chat_text m\<rparr>"

definition window :: "llm_relay_config \<Rightarrow> chat_message list \<Rightarrow> history_message list" where
  "window cfg msgs = drop (length msgs - cfg_context cfg) (map hist_of msgs)"

lemma on_incoming_window:
  "on_incoming cfg msg (window cfg msgs) =
     (window cfg (msgs @ [msg]),
      if chat_from msg = cfg_assistant_name cfg then None else Some (window cfg (msgs @ [msg])))"
proof -
  have "pop_to (cfg_context cfg) (window cfg msgs @ [hist_of msg]) = window cfg (msgs @ [msg])"
    by (cases "length msgs \<le> cfg_context cfg") (auto simp: pop_to_eq window_def Suc_diff_le)
  then show ?thesis unfolding on_incoming_def Let_def hist_of_def [symmetric] by simp
qed

lemma incoming_loop_window:
  "incoming_loop cfg msgs (window cfg old) =
     (map (\<lambda>i. window cfg (old @ take (Suc i) msgs))
        (filter (\<lambda>i. chat_from (msgs ! i) \<noteq> cfg_assistant_name cfg) [0 ..< length msgs]),
      window cfg (old @ msgs))"
proof (induction msgs arbitrary: old)
  case (Cons m msgs)
  have up: "[0 ..< length (m # msgs)] = 0 # map Suc [0 ..< length msgs]"
    by (simp add: upt_conv_Cons map_Suc_upt del: upt_Suc)
  show ?case
    unfolding up using Cons.IH [of "old @ [m]"]
    by (simp add: on_incoming_window filter_map comp_def del: upt_Suc)
qed simp

section \<open>Properties\<close>

text \<open>
  C25: A streamed reply loses and repeats nothing: when it ends without an error, the messages
  sent are the pieces of the model's text, in order, all of them. It is one plain message if no
  partial update was due, otherwise every piece is marked partial and every piece but the last
  has the configured length. After an error the pieces sent are a prefix of the text.
\<close>

theorem streamed_reply_is_the_text:
  "case streaming_reply cfg start turns of
     (Inr _, sends) \<Rightarrow> \<exists>parts. concat parts = delta_text turns
        \<and> (sends = map partial_text parts \<or> sends = parts \<and> length parts \<le> 1)
        \<and> (\<forall>p \<in> set (butlast parts). cfg_stream_chunk_min_chars cfg \<le> length p)
   | (Inl _, sends) \<Rightarrow> \<exists>parts rest. concat parts @ rest = delta_text turns
        \<and> sends = map partial_text parts"
proof -
  define st where "st = \<lparr>rs_acc = [],
      rs_last_send = (if cfg_stream_interval cfg \<le> start then start - cfg_stream_interval cfg else start),
      rs_sent_any_partial = False, rs_sends = []\<rparr>"
  obtain r st' where run: "stream_turns cfg turns st = (r, st')" by (cases "stream_turns cfg turns st")
  from stream_turns_parts [OF run] obtain parts where
    parts: "rs_sends st' = map partial_text parts" "concat parts @ rs_acc st' = delta_text turns"
      "\<forall>p \<in> set parts. cfg_stream_chunk_min_chars cfg \<le> length p"
      "rs_sent_any_partial st' \<longleftrightarrow> parts \<noteq> []"
    by (auto simp: st_def)
  have eq: "streaming_reply cfg start turns
      = (case r of Inl e \<Rightarrow> (Inl e, rs_sends st') | Inr _ \<Rightarrow> (Inr (), flush_remainder st'))"
    using run by (auto simp: streaming_reply_def st_def Let_def split: sum.split)
  show ?thesis
  proof (cases r)
    case (Inl e)
    with eq parts(1,2) show ?thesis by auto
  next
    case (Inr u)
    have "\<exists>ps. concat ps = delta_text turns
        \<and> (flush_remainder st' = map partial_text ps \<or> flush_remainder st' = ps \<and> length ps \<le> 1)
        \<and> (\<forall>p \<in> set (butlast ps). cfg_stream_chunk_min_chars cfg \<le> length p)"
    proof (cases "rs_acc st' = []")
      case True
      then have "flush_remainder st' = map partial_text parts" by (simp add: flush_remainder_def parts(1))
      then show ?thesis
        using parts(2,3) True by (intro exI [of _ parts]) (auto dest: in_set_butlastD)
    next
      case False
      then show ?thesis
        using parts by (intro exI [of _ "parts @ [rs_acc st']"]) (cases "parts = []", auto simp: flush_remainder_def)
    qed
    with eq Inr show ?thesis by simp
  qed
qed

definition demo_cfg :: llm_relay_config where
  "demo_cfg = \<lparr>cfg_assistant_name = ''bot'', cfg_base_url = ''u'', cfg_model = ''m'', cfg_system_prompt = None, cfg_context = 2,
     cfg_stream = True, cfg_stream_chunk_min_chars = 2, cfg_stream_interval = 10\<rparr>"

definition demo_turns :: "stream_turn list" where
  "demo_turns = [(Inr (DeltaText ''ab''), 100, 101), (Inr (DeltaText ''cd''), 105, 106), (Inr (DeltaText ''e''), 111, 112),
     (Inr (DeltaText ''f''), 112, 113), (Inr Done, 114, 115)]"

lemma demo_reply:
  "streaming_reply demo_cfg 100 demo_turns = (Inr (), [partial_text ''ab'', partial_text ''cde'', partial_text ''f''])"
  by (simp add: streaming_reply_def demo_turns_def on_delta_def demo_cfg_def flush_remainder_def Let_def)

theorem streamed_reply_is_the_text_witness:
  "\<exists>parts. concat parts = ''abcdef''
     \<and> ([partial_text ''ab'', partial_text ''cde'', partial_text ''f''] = map partial_text parts
        \<or> [partial_text ''ab'', partial_text ''cde'', partial_text ''f''] = parts \<and> length parts \<le> 1)
     \<and> (\<forall>p \<in> set (butlast parts). 2 \<le> length p)"
proof -
  have "delta_text demo_turns = ''abcdef''" by (simp add: demo_turns_def)
  moreover have "cfg_stream_chunk_min_chars demo_cfg = 2" by (simp add: demo_cfg_def)
  ultimately show ?thesis
    using streamed_reply_is_the_text [where cfg = demo_cfg and start = 100 and turns = demo_turns] unfolding demo_reply prod.case sum.case
    by (simp only:)
qed

text \<open>
  Partial updates are throttled: between setting the clock after one update and asking it
  before the next at least the configured interval has passed, and there is one such pair of
  readings for every partial update before the flush.
\<close>

lemma partial_updates_throttled:
  assumes "stream_turns cfg turns st = (r, st')"
  shows "successively (\<lambda>(_, reset) (asked, _). cfg_stream_interval cfg \<le> asked - reset) (partial_times cfg turns st)
    \<and> length (rs_sends st') = length (rs_sends st) + length (partial_times cfg turns st)"
  using partial_times_throttled stream_turns_parts [OF assms] by fastforce

text \<open>
  The rolling history: after any messages the history is the last \<open>--llm-context\<close> of them, and
  a generation is started exactly for the messages that are not the assistant's own, each from
  the window that ends with that message.
\<close>

lemma history_window:
  "incoming_loop cfg msgs [] =
     (map (\<lambda>i. drop (length (take (Suc i) msgs) - cfg_context cfg) (map hist_of (take (Suc i) msgs)))
        (filter (\<lambda>i. chat_from (msgs ! i) \<noteq> cfg_assistant_name cfg) [0 ..< length msgs]),
      drop (length msgs - cfg_context cfg) (map hist_of msgs))"
proof -
  have "window cfg [] = []" by (simp add: window_def)
  with incoming_loop_window [of cfg msgs "[]"] show ?thesis by (simp add: window_def)
qed

text \<open>
  C26: No self-loop: with the configuration the command line builds, what the relay sends comes
  back on its own message channel under the assistant's name, and such a message never starts
  a generation.
\<close>

theorem no_self_loop:
  assumes "llm_config_of_args a = Inr (Some cfg)"
    and "svc_run (iroh_relay D) D (chat_new (arg_name a)) tr s"
    and "chat_send D e text s = Some (r, s')"
  shows "\<exists>echoed. svc_queue s' = svc_queue s @ echoed
    \<and> (\<forall>m \<in> set echoed. chat_text m = text \<and> snd (on_incoming cfg m history) = None)"
proof -
  have "svc_name s = arg_name a" using assms(2) by (simp add: svc_run_name chat_new_name)
  with assms(1) have name: "svc_name s = Some (cfg_assistant_name cfg)"
    by (auto simp: llm_config_of_args_def result_simps split: if_splits)
  show ?thesis
  proof (cases rule: send_user_message_cases [of "svc_backend s" D e "svc_name s" "text"])
    case idle
    with assms(3) show ?thesis by (auto simp: chat_send_def service_send_def iroh_relay_def)
  next
    case failed
    with assms(3) show ?thesis by (auto simp: chat_send_def service_send_def iroh_relay_def)
  next
    case (sent topic ep)
    with assms(3) name show ?thesis
      by (auto simp: chat_send_def service_send_def iroh_relay_def on_incoming_def Let_def)
  qed
qed

definition demo_args :: args where
  "demo_args = \<lparr>arg_name = Some ''bot'', arg_llm_enable = True, arg_llm_base_url = ''u'', arg_llm_model = Some ''m'',
     arg_llm_system_prompt = None, arg_llm_context = 2, arg_llm_stream_chunk_min_chars = 2,
     arg_llm_stream_interval_ms = 10, arg_llm_stream = True, arg_command = Open\<rparr>"

theorem no_self_loop_witness:
  "\<exists>s r s'. chat_send demo_iroh demo_env ''hi'' s = Some (r, s')
    \<and> svc_queue s = [] \<and> svc_queue s' \<noteq> [] \<and> (\<forall>m \<in> set (svc_queue s'). snd (on_incoming demo_cfg m []) = None)"
proof -
  have cfg: "llm_config_of_args demo_args = Inr (Some demo_cfg)" "arg_name demo_args = Some ''bot''"
    by (simp_all add: llm_config_of_args_def demo_args_def demo_cfg_def)
  have "ticket_from_str demo_iroh (ticket_to_string demo_iroh demo_ticket) = Inr demo_ticket"
    by (rule ticket_parses_back [OF demo_ticket_ok refl])
  then have "\<exists>r s. service_join (iroh_relay demo_iroh) demo_env (ticket_to_string demo_iroh demo_ticket)
        (chat_new (Some ''bot'')) = Some (r, s)
      \<and> ib_sender (svc_backend s) = Some [7] \<and> ib_endpoint (svc_backend s) = Some [9] \<and> svc_queue s = []"
    by (simp add: service_join_def iroh_relay_def join_room_inner_def join_internal_def ensure_stack_def
        chat_new_def wire_chat_for_clients_def client_chat_service_new_def iroh_new_def demo_env_def
        demo_ticket_def message_new_def Let_def)
  then obtain q s where s: "service_join (iroh_relay demo_iroh) demo_env (ticket_to_string demo_iroh demo_ticket)
        (chat_new (Some ''bot'')) = Some (q, s)"
      "ib_sender (svc_backend s) = Some [7]" "ib_endpoint (svc_backend s) = Some [9]" "svc_queue s = []"
    by blast
  have run: "svc_run (iroh_relay demo_iroh) demo_iroh (chat_new (arg_name demo_args)) [([], [])] s"
    using svc_run.more [OF svc_run.none svc_step.joins [OF s(1)]] cfg(2) by simp
  have "\<exists>r s'. chat_send demo_iroh demo_env ''hi'' s = Some (r, s') \<and> svc_queue s' \<noteq> []"
    using s(2,3) by (simp add: chat_send_def service_send_def iroh_relay_def send_user_message_inner_def
        demo_env_def Let_def)
  then obtain r s' where sent: "chat_send demo_iroh demo_env ''hi'' s = Some (r, s')" "svc_queue s' \<noteq> []"
    by blast
  from no_self_loop [OF cfg(1) run sent(1), where history = "[]"] s(4)
  have "\<forall>m \<in> set (svc_queue s'). snd (on_incoming demo_cfg m []) = None" by auto
  with sent s(4) show ?thesis by blast
qed

text \<open>
  The input thread sends each line it reads, and at the end of the input, where \<open>read_line\<close>
  appends nothing, it does not stop: it sends empty messages for as long as the channel takes
  them.
\<close>

lemma input_loop_never_ends:
  "input_loop (map Inr ls @ replicate k (Inr [])) (replicate (length ls + k) True) = (None, ls @ replicate k [])"
proof (induction ls)
  case Nil
  show ?case by (induction k) simp_all
qed simp

end
