(* ===== verification/Command_Line.thy ===== *)
theory Command_Line
  imports Llm_Relay
begin

text \<open>
  The command-line program (\<^verbatim>\<open>guyos_core/src/main.rs\<close>): how \<open>main\<close> opens or joins a room and
  builds the relay's configuration, and the tasks it runs from then on: the loop that shows
  incoming messages and starts a generation for each foreign one, the generation itself, the
  input thread with its channel of one line, and the loop that sends typed lines. Argument
  parsing by \<^verbatim>\<open>clap\<close> and the picture of the QR code are third party. The lemmas show that the
  program is a client of the service, that a generation never outlives the message it answers,
  and what ends the program.
\<close>

section \<open>Start\<close>

definition println :: "string \<Rightarrow> string" where
  "println s = s @ [CHR 0x0A]"

definition render_ticket_qr :: "(string \<Rightarrow> string + string) \<Rightarrow> string \<Rightarrow> string + string" where
  "render_ticket_qr qr_code ticket = map_ok (\<lambda>qr. qr @ [CHR 0x0A]) (qr_code ticket)"

text \<open>
  \<open>main\<close> up to its loops: the error it ends with or the relay's configuration, what it printed
  and the chat. \<open>qr_code\<close> draws a QR code; \<^const>\<open>None\<close> is a panic.
\<close>

definition open_command ::
    "'a iroh_deps \<Rightarrow> 'a iroh_env \<Rightarrow> (string \<Rightarrow> string + string) \<Rightarrow> iroh_backend client_chat_service
     \<Rightarrow> ((string + unit) \<times> string list \<times> iroh_backend client_chat_service) option" where
  "open_command D e qr_code chat =
     (case chat_open D e chat of
        None \<Rightarrow> None
      | Some (Inl err, chat) \<Rightarrow> Some (Inl (chat_error_fmt err), [println ''> opening chat room...''], chat)
      | Some (Inr ticket, chat) \<Rightarrow>
          let out = [println ''> opening chat room...'', println (''> ticket to join us: '' @ ticket),
                println [], println ''> or scan:'']
          in case render_ticket_qr qr_code ticket of
               Inl err \<Rightarrow> Some (Inl err, out, chat)
             | Inr qr \<Rightarrow> Some (Inr (), out @ [qr, println ''> waiting for endpoints to join us...''], chat))"

definition join_command ::
    "'a iroh_deps \<Rightarrow> 'a iroh_env \<Rightarrow> string \<Rightarrow> iroh_backend client_chat_service
     \<Rightarrow> ((string + unit) \<times> string list \<times> iroh_backend client_chat_service) option" where
  "join_command D e ticket chat =
     (case chat_join D e ticket chat of
        None \<Rightarrow> None
      | Some (Inl err, chat) \<Rightarrow> Some (Inl (chat_error_fmt err), [println ''> joining chat room...''], chat)
      | Some (Inr _, chat) \<Rightarrow> Some (Inr (), [println ''> joining chat room...'', println ''> connected!''], chat))"

definition run_command ::
    "'a iroh_deps \<Rightarrow> 'a iroh_env \<Rightarrow> (string \<Rightarrow> string + string) \<Rightarrow> command \<Rightarrow> iroh_backend client_chat_service
     \<Rightarrow> ((string + unit) \<times> string list \<times> iroh_backend client_chat_service) option" where
  "run_command D e qr_code c chat =
     (case c of Open \<Rightarrow> open_command D e qr_code chat | Join ticket \<Rightarrow> join_command D e ticket chat)"

definition startup ::
    "'a iroh_deps \<Rightarrow> 'a iroh_env \<Rightarrow> (string \<Rightarrow> string + string) \<Rightarrow> args
     \<Rightarrow> ((string + llm_relay_config option) \<times> string list \<times> iroh_backend client_chat_service) option" where
  "startup D e qr_code a =
     (case run_command D e qr_code (arg_command a) (chat_new (arg_name a)) of
        None \<Rightarrow> None
      | Some (Inl err, out, chat) \<Rightarrow> Some (Inl err, out, chat)
      | Some (Inr _, out, chat) \<Rightarrow>
          (case llm_config_of_args a of
             Inl err \<Rightarrow> Some (Inl err, out, chat)
           | Inr cfg \<Rightarrow>
               Some (Inr cfg, out @ [println ''> type a message and hit enter to broadcast...''], chat)))"

section \<open>The running program\<close>

text \<open>
  \<open>cli_generation\<close> is the running generation: the window it answers, how it will end and the
  texts it has still to send; \<open>cli_line\<close> is the channel of one line between the input thread
  and \<open>main\<close>; \<open>cli_input_open\<close> says that the input thread runs (an error of \<open>read_line\<close> ends
  it, the end of the input does not: it then reads empty lines); \<open>cli_exit\<close> is the error \<open>main\<close>
  returned.
\<close>

record generation =
  gen_window :: "history_message list"
  gen_end :: "string + unit"
  gen_todo :: "string list"

record cli =
  cli_chat :: "iroh_backend client_chat_service"
  cli_history :: "history_message list"
  cli_generation :: "generation option"
  cli_line :: "string option"
  cli_input_open :: bool
  cli_out :: "string list"
  cli_err :: "string list"
  cli_exit :: "string option"


datatype cli_event =
    Shown chat_message
  | Replied "history_message list" string
  | ReplyEnded
  | LineRead string
  | InputEnded
  | LineSent string
  | Ended string
  | Background


text \<open>One message of the incoming loop: what is printed, the history, and the next generation.\<close>

definition show_message ::
    "llm_relay_config option \<Rightarrow> (history_message list \<Rightarrow> (string + unit) \<times> string list) \<Rightarrow> chat_message \<Rightarrow> cli \<Rightarrow> cli" where
  "show_message llm reply msg c =
     (let c = c\<lparr>cli_out := cli_out c @ [println (chat_from msg @ '': '' @ chat_text msg)]\<rparr>
      in case llm of
           None \<Rightarrow> c
         | Some cfg \<Rightarrow>
             (case on_incoming cfg msg (cli_history c) of
                (history, None) \<Rightarrow> c\<lparr>cli_history := history\<rparr>
              | (history, Some snapshot) \<Rightarrow>
                  (case reply snapshot of (r, sends) \<Rightarrow>
                     c\<lparr>cli_history := history,
                       cli_generation := Some \<lparr>gen_window = snapshot, gen_end = r, gen_todo = sends\<rparr>\<rparr>)))"




section \<open>Lemmas: a client of the service\<close>

fun shown :: "cli_event list \<Rightarrow> chat_message list" where
  "shown [] = []"
| "shown (Shown m # evs) = m # shown evs"
| "shown (_ # evs) = shown evs"

lemma shown_append [simp]: "shown (xs @ ys) = shown xs @ shown ys"
  by (induction xs rule: shown.induct) auto

lemma show_message_simps [simp]:
  "cli_chat (show_message llm reply msg c) = cli_chat c"
  "cli_exit (show_message llm reply msg c) = cli_exit c"
  "cli_line (show_message llm reply msg c) = cli_line c"
  "cli_input_open (show_message llm reply msg c) = cli_input_open c"
  by (auto simp: show_message_def Let_def split: option.split prod.split)





section \<open>Lemmas: generations\<close>

text \<open>The messages up to the last one that is not the assistant's own.\<close>

definition asked :: "llm_relay_config \<Rightarrow> chat_message list \<Rightarrow> chat_message list" where
  "asked cfg msgs = rev (dropWhile (\<lambda>m. chat_from m = cfg_assistant_name cfg) (rev msgs))"


lemma asked_Nil [simp]: "asked cfg [] = []"
  by (simp add: asked_def)





section \<open>Lemmas: start and end\<close>










section \<open>A concrete run\<close>













section \<open>Properties\<close>







text \<open>
  The relay's arguments are checked too late: when they are incomplete the program still opens
  the room and prints its ticket, or joins the room, before it ends with the error; the room of
  the printed ticket is gone with it.
\<close>

lemma arguments_checked_after_the_room:
  assumes "llm_config_of_args a = Inl err"
    and "run_command D e qr_code (arg_command a) (chat_new (arg_name a)) = Some (Inr (), out, s)"
  shows "startup D e qr_code a = Some (Inl err, out, s)
    \<and> (case arg_command a of
         Open \<Rightarrow> \<exists>ticket. println (''> ticket to join us: '' @ ticket) \<in> set out
           \<and> chat_open D e (chat_new (arg_name a)) = Some (Inr ticket, s) \<and> svc_spawned s = 1
       | Join ticket \<Rightarrow> iroh_joined (svc_backend s))"
proof (cases "arg_command a")
  case Open
  with assms(2) obtain ticket where t: "chat_open D e (chat_new (arg_name a)) = Some (Inr ticket, s)"
      "println (''> ticket to join us: '' @ ticket) \<in> set out"
    by (auto simp: run_command_def open_command_def Let_def split: option.splits sum.splits)
  then have "svc_spawned s = 1"
    by (auto simp: chat_open_def service_open_def chat_new_def wire_chat_for_clients_def client_chat_service_new_def
        after_call_def Let_def split: option.splits sum.splits)
  with t assms Open show ?thesis by (auto simp: startup_def)
next
  case (Join ticket)
  with assms(2) have j: "chat_join D e ticket (chat_new (arg_name a)) = Some (Inr (), s)"
    by (auto simp: run_command_def join_command_def split: option.splits sum.splits)
  then obtain b effs where "join_room (iroh_relay D) e ticket (svc_name (chat_new (arg_name a)))
      (svc_backend (chat_new (arg_name a))) = Some (Inr (), b, effs)" "svc_backend s = b"
    by (auto simp: chat_join_def service_join_def split: option.splits)
  with iroh.join_joins have "iroh_joined (svc_backend s)" by blast
  with assms Join show ?thesis by (auto simp: startup_def)
qed

end
