(* ===== verification/Attach_Verifier.thy ===== *)
theory Attach_Verifier
  imports Wire_Dispatch "HOL-Library.State_Monad"
begin

text \<open>
  The injected \<open>AttachTicketVerifier\<close> (\<^verbatim>\<open>guyos_core/src/domain/guyos_wire_attach.rs\<close>) as an object with
  a state of its own: a call of \<open>verify_ticket\<close> may change it, as the counting verifier of the
  crate's tests does through an atomic. \<open>accept_attach_with\<close> and \<open>handle_client_message_with\<close> are
  \<open>accept_attach\<close> and \<open>handle_client_message\<close> with that effect; for a verifier that answers by its
  ticket only they agree with the functions of \<^verbatim>\<open>Wire_Attach\<close> and \<^verbatim>\<open>Wire_Dispatch\<close>.
\<close>

section \<open>Handshake and dispatch over a verifier with state\<close>

type_synonym 's verifier = "string \<Rightarrow> ('s, reference_ticket_error + string) state"

definition accept_attach_with ::
    "attach \<Rightarrow> attach_policy \<Rightarrow> 's verifier \<Rightarrow> ('s, attach_handshake_error + attach_ack) state" where
  "accept_attach_with a p verify_ticket =
     (case map_err (\<lambda>_. HsInvalidAttach) (validate_attach_preamble a) of
        Inl e \<Rightarrow> State_Monad.return (Inl e)
      | Inr _ \<Rightarrow>
          (case ok_or HsProtocolMajorUnsupported (hub_protocol_minor_ceiling p (att_protocol_major a)) of
             Inl e \<Rightarrow> State_Monad.return (Inl e)
           | Inr h \<Rightarrow> do {
               verified \<leftarrow> verify_ticket (att_ticket a);
               State_Monad.return (and_then (map_err HsTicket verified) (\<lambda>room_id.
                 let server_minor = min (att_protocol_minor a) h
                 in Inr \<lparr>ack_room_id = room_id,
                         ack_max_frame_bytes = pol_max_frame_bytes p,
                         ack_max_message_bytes = pol_max_message_bytes p,
                         ack_protocol_major = att_protocol_major a,
                         ack_server_protocol_minor = server_minor,
                         ack_keepalive_interval_seconds = pol_keepalive_interval_seconds p\<rparr>)) }))"

fun handle_client_message_with ::
    "guyos_wire_session \<Rightarrow> 'ts guyos_wire_v1_message \<Rightarrow> attach_policy \<Rightarrow> 's verifier \<Rightarrow> 'l ledger_op \<Rightarrow> 'l
     \<Rightarrow> ('s, (guyos_wire_session \<times> 'ts guyos_wire_inbound_outcome \<times> 'l) option) state" where
  "handle_client_message_with AwaitingAttach msg policy verifier accept ledger =
     (case msg of
        MDetach \<Rightarrow> State_Monad.return (Some (AwaitingAttach, NoReply, ledger))
      | MKeepalive \<Rightarrow> State_Monad.return (Some (AwaitingAttach, NoReply, ledger))
      | MAttach attach \<Rightarrow> do {
          accepted \<leftarrow> accept_attach_with attach policy verifier;
          State_Monad.return (case accepted of
             Inr ack \<Rightarrow>
               Some (Attached (ack_room_id ack) (ack_max_frame_bytes ack) (ack_max_message_bytes ack),
                     Reply (MAttachAck ack), ledger)
           | Inl e \<Rightarrow>
               let (code, message) = attach_handshake_portable e
               in Some (AwaitingAttach, Reply (outbound_wire_error code message), ledger)) }
      | _ \<Rightarrow> State_Monad.return (Some (AwaitingAttach,
               Reply (outbound_wire_error ''attach_required'' error_message_attach_required), ledger)))"
| "handle_client_message_with (Attached room_id max_frame_bytes max_message_bytes) msg policy verifier accept ledger =
     (let session = Attached room_id max_frame_bytes max_message_bytes
      in State_Monad.return (case msg of
           MAttach _ \<Rightarrow> Some (session,
             Reply (outbound_wire_error ''invalid_attach'' error_message_invalid_attach_duplicate), ledger)
         | MPublish publish \<Rightarrow>
             (case dispatch_publish_for_room room_id publish max_message_bytes accept ledger of
                None \<Rightarrow> None
              | Some (out, ledger') \<Rightarrow> Some (session, out, ledger'))
         | MDetach \<Rightarrow> Some (session, NoReply, ledger)
         | MKeepalive \<Rightarrow> Some (session, NoReply, ledger)
         | _ \<Rightarrow> Some (session, NoReply, ledger)))"

text \<open>The messages of one stream, one call after another, up to a panic of the ledger.\<close>

fun handle_stream ::
    "guyos_wire_session \<Rightarrow> 'ts guyos_wire_v1_message list \<Rightarrow> attach_policy \<Rightarrow> 's verifier \<Rightarrow> 'l ledger_op \<Rightarrow> 'l
     \<Rightarrow> ('s, (guyos_wire_session \<times> 'l) option) state" where
  "handle_stream s [] policy verifier accept ledger = State_Monad.return (Some (s, ledger))"
| "handle_stream s (msg # msgs) policy verifier accept ledger = do {
     r \<leftarrow> handle_client_message_with s msg policy verifier accept ledger;
     (case r of
        None \<Rightarrow> State_Monad.return None
      | Some (s', _, ledger') \<Rightarrow> handle_stream s' msgs policy verifier accept ledger') }"

section \<open>The counting verifier\<close>

record counting_verifier =
  cv_calls :: u64
  cv_ok_room :: string

text \<open>\<open>fetch_add\<close> of an \<open>AtomicUsize\<close> wraps.\<close>

definition counting_verify_ticket :: "counting_verifier verifier" where
  "counting_verify_ticket ticket = do {
     v \<leftarrow> State_Monad.get;
     State_Monad.set (v\<lparr>cv_calls := cv_calls v + 1\<rparr>);
     State_Monad.return (Inr (cv_ok_room v)) }"

section \<open>Verifiers that answer by the ticket\<close>

locale answering_verifier =
  fixes verify :: "'s verifier" and ok :: "'s \<Rightarrow> bool" and answers :: ticket_verifier
  assumes verify_answers: "ok x \<Longrightarrow> run_state (verify t) x = (r, x') \<Longrightarrow> r = answers t \<and> ok x'"
begin

lemma run_verify:
  assumes "ok x"
  obtains x' where "run_state (verify t) x = (answers t, x')" "ok x'"
  using verify_answers [OF assms, of t] by (cases "run_state (verify t) x") auto

lemma accept_attach_answers:
  assumes "ok x"
  obtains x' where "run_state (accept_attach_with a p verify) x = (accept_attach a p answers, x')" "ok x'"
proof -
  from run_verify [OF assms, of "att_ticket a"] obtain x' where
    "run_state (verify (att_ticket a)) x = (answers (att_ticket a), x')" "ok x'" .
  with assms that show thesis
    by (cases "validate_attach_preamble a"; cases "hub_protocol_minor_ceiling p (att_protocol_major a)")
      (simp_all add: accept_attach_with_def accept_attach_def)
qed

lemma handle_answers:
  assumes "ok x"
  obtains x' where "run_state (handle_client_message_with s msg p verify accept l) x
      = (handle_client_message s msg p answers accept l, x')" "ok x'"
proof (cases s)
  case AwaitingAttach
  show ?thesis
  proof (cases msg)
    case (MAttach a)
    from accept_attach_answers [OF assms, of a p] obtain x' where
      "run_state (accept_attach_with a p verify) x = (accept_attach a p answers, x')" "ok x'" .
    with AwaitingAttach MAttach that [of x'] show ?thesis by simp
  qed (use AwaitingAttach assms that in auto)
next
  case (Attached r f k)
  with assms that [of x] show ?thesis by (simp add: Let_def)
qed

end

interpretation counting: answering_verifier counting_verify_ticket "\<lambda>v. cv_ok_room v = room" "\<lambda>_. Inr room" for room
  by unfold_locales (auto simp: counting_verify_ticket_def)

section \<open>What a verifier is asked\<close>

text \<open>A verifier that keeps, beside the state of another, what that one was asked and answered.\<close>

type_synonym verdict = "string \<times> (reference_ticket_error + string)"

definition recording :: "'s verifier \<Rightarrow> ('s \<times> verdict list) verifier" where
  "recording verify ticket = State (\<lambda>(x, log). case run_state (verify ticket) x of (r, x') \<Rightarrow> (r, (x', log @ [(ticket, r)])))"

text \<open>The tickets of a stream's attaches that pass the checks before the ticket.\<close>

definition presented :: "attach_policy \<Rightarrow> 'ts guyos_wire_v1_message list \<Rightarrow> string list" where
  "presented p msgs = concat (map (\<lambda>msg. case msg of
     MAttach a \<Rightarrow> if attach_in_range a \<and> att_protocol_major a = pol_supported_major p then [att_ticket a] else []
   | _ \<Rightarrow> []) msgs)"


lemma presented_simps [simp]:
  "presented p [] = []"
  "presented p (MAttach a # msgs) = (if attach_in_range a \<and> att_protocol_major a = pol_supported_major p
     then att_ticket a # presented p msgs else presented p msgs)"
  "(\<And>a. msg \<noteq> MAttach a) \<Longrightarrow> presented p (msg # msgs) = presented p msgs"
  by (simp_all add: presented_def split: guyos_wire_v1_message.split)

lemma accept_recording:
  assumes "run_state (accept_attach_with a p (recording verify)) (x, log) = (r, (x', log'))"
  obtains (refused) "\<not> (attach_in_range a \<and> att_protocol_major a = pol_supported_major p)" "log' = log" "isl r"
    | (rejected) t where "attach_in_range a \<and> att_protocol_major a = pol_supported_major p"
        "log' = log @ [(att_ticket a, Inl t)]" "r = Inl (HsTicket t)"
    | (accepted) ack where "attach_in_range a \<and> att_protocol_major a = pol_supported_major p"
        "log' = log @ [(att_ticket a, Inr (ack_room_id ack))]" "r = Inr ack"
proof (cases "attach_in_range a \<and> att_protocol_major a = pol_supported_major p")
  case False
  with assms show ?thesis
    by (intro refused) (auto simp: accept_attach_with_def validate_attach_preamble_eq hub_protocol_minor_ceiling_def split: if_splits)
next
  case True
  obtain q y where q: "run_state (verify (att_ticket a)) x = (q, y)" by (cases "run_state (verify (att_ticket a)) x")
  show ?thesis
  proof (cases q)
    case (Inl t)
    with assms True q show ?thesis
      by (intro rejected [of t])
        (auto simp: accept_attach_with_def validate_attach_preamble_eq hub_protocol_minor_ceiling_def recording_def)
  next
    case (Inr room)
    with assms True q show ?thesis
      by (intro accepted [of "projr r"])
        (auto simp: accept_attach_with_def validate_attach_preamble_eq hub_protocol_minor_ceiling_def recording_def)
  qed
qed

lemma attached_asks_nothing:
  assumes "run_state (handle_stream s msgs p verify accept l) y = (Some (s', l'), y')" and "s \<noteq> AwaitingAttach"
  shows "y' = y \<and> s' = s"
  using assms
proof (induction msgs arbitrary: l)
  case (Cons msg msgs)
  then obtain r f k where s: "s = Attached r f k" by (cases s) auto
  with Cons.prems(1) obtain out l1 where
    "run_state (handle_stream (Attached r f k) msgs p verify accept l1) y = (Some (s', l'), y')"
    by (auto simp: Let_def split: guyos_wire_v1_message.splits option.splits)
  with Cons.IH [of l1] s show ?case by simp
qed simp

lemma stream_asks:
  assumes "run_state (handle_stream AwaitingAttach msgs p (recording verify) accept l) (x, log) = (Some (s', l'), (x', log'))"
  shows "\<exists>new rest. log' = log @ new \<and> presented p msgs = map fst new @ rest
    \<and> (if s' = AwaitingAttach then rest = [] \<and> (\<forall>q \<in> set new. isl (snd q))
       else new \<noteq> [] \<and> (\<forall>q \<in> set (butlast new). isl (snd q)) \<and> snd (last new) = Inr (session_room s'))"
  using assms
proof (induction msgs arbitrary: l x log)
  case (Cons msg msgs)
  have pass: ?case if "presented p (msg # msgs) = presented p msgs"
    and "run_state (handle_stream AwaitingAttach msgs p (recording verify) accept l) (x1, log) = (Some (s', l'), (x', log'))" for x1
    using Cons.IH [OF that(2)] that(1) by simp
  show ?case
  proof (cases "\<exists>a. msg = MAttach a")
    case True
    then obtain a where MAttach: "msg = MAttach a" by blast
    obtain r x1 log1 where acc: "run_state (accept_attach_with a p (recording verify)) (x, log) = (r, (x1, log1))"
      by (cases "run_state (accept_attach_with a p (recording verify)) (x, log)") auto
    from acc show ?thesis
    proof (cases rule: accept_recording)
      case refused
      with Cons.prems acc MAttach show ?thesis
        by (intro pass [of x1]) (auto split: sum.splits prod.splits)
    next
      case (rejected t)
      with Cons.prems acc MAttach have
        "run_state (handle_stream AwaitingAttach msgs p (recording verify) accept l) (x1, log1) = (Some (s', l'), (x', log'))"
        by (auto split: prod.splits)
      from Cons.IH [OF this] obtain new rest where "log' = log1 @ new" "presented p msgs = map fst new @ rest"
        "if s' = AwaitingAttach then rest = [] \<and> (\<forall>q \<in> set new. isl (snd q))
         else new \<noteq> [] \<and> (\<forall>q \<in> set (butlast new). isl (snd q)) \<and> snd (last new) = Inr (session_room s')" by blast
      with rejected MAttach show ?thesis
        by (intro exI [of _ "(att_ticket a, Inl t) # new"] exI [of _ rest]) (auto split: if_splits)
    next
      case (accepted ack)
      let ?s = "Attached (ack_room_id ack) (ack_max_frame_bytes ack) (ack_max_message_bytes ack)"
      from accepted Cons.prems acc MAttach have
        "run_state (handle_stream ?s msgs p (recording verify) accept l) (x1, log1) = (Some (s', l'), (x', log'))" by simp
      from attached_asks_nothing [OF this] accepted MAttach show ?thesis
        by (intro exI [of _ "[(att_ticket a, Inr (ack_room_id ack))]"] exI [of _ "presented p msgs"]) auto
    qed
  next
    case False
    then have "presented p (msg # msgs) = presented p msgs" by simp
    moreover from False Cons.prems have
      "run_state (handle_stream AwaitingAttach msgs p (recording verify) accept l) (x, log) = (Some (s', l'), (x', log'))"
      by (cases msg) auto
    ultimately show ?thesis by (rule pass)
  qed
qed (intro exI [of _ "[]"], simp)

section \<open>Properties\<close>

text \<open>
  C15: The verifier is asked exactly the tickets it must be: whatever verifier with whatever state, on a
  stream the tickets it is asked are those of the attaches that pass the checks before the ticket, in
  their order, up to and including the first it accepts; the stream is attached to the room of that
  answer, and is unattached as long as every ticket was rejected. After it no message makes the hub
  ask again.
\<close>

theorem tickets_asked_exactly:
  assumes "run_state (handle_stream AwaitingAttach msgs p (recording verify) accept l) (x, []) = (Some (s', l'), (x', log))"
  shows "\<exists>rest. presented p msgs = map fst log @ rest
    \<and> (if s' = AwaitingAttach then rest = [] \<and> (\<forall>q \<in> set log. isl (snd q))
       else log \<noteq> [] \<and> (\<forall>q \<in> set (butlast log). isl (snd q)) \<and> snd (last log) = Inr (session_room s'))"
  using stream_asks [OF assms] by auto

definition attach_to :: "string \<Rightarrow> unit guyos_wire_v1_message" where
  "attach_to t = MAttach \<lparr>att_protocol_major = 1, att_protocol_minor = 0, att_ticket = t\<rparr>"

lemma asked_run:
  "run_state (handle_stream AwaitingAttach [attach_to ''t'', attach_to ''u''] (single_major 1 7 1048576 65536 None)
      (recording counting_verify_ticket) accept_or_replay room_publish_state_default) (\<lparr>cv_calls = 0, cv_ok_room = ''r''\<rparr>, [])
    = (Some (Attached ''r'' 1048576 65536, room_publish_state_default), (\<lparr>cv_calls = 1, cv_ok_room = ''r''\<rparr>, [(''t'', Inr ''r'')]))"
  by (simp add: attach_to_def accept_attach_with_def validate_attach_preamble_def U31_MAX_def hub_protocol_minor_ceiling_def
      single_major_def recording_def counting_verify_ticket_def)

theorem tickets_asked_exactly_witness:
  "\<exists>rest. presented (single_major 1 7 1048576 65536 None) [attach_to ''t'', attach_to ''u''] = [''t''] @ rest"
  using tickets_asked_exactly [OF asked_run] by auto

end
