(* ===== verification/Test_Support.thy ===== *)
theory Test_Support
  imports Prelude "HOL-Library.Monad_Syntax"
begin

text \<open>
  The shape of the crate's unit tests (the \<open>#[cfg(test)]\<close> modules): a test is a computation that
  ends in \<^term>\<open>Some ()\<close> when every assertion holds and in \<^const>\<open>None\<close> when one fails or an
  \<open>unwrap\<close> panics. The theories \<^verbatim>\<open>Dispatch_Tests\<close>, \<^verbatim>\<open>Session_Tests\<close>, \<^verbatim>\<open>Wire_Tests\<close> and
  \<^verbatim>\<open>Client_Tests\<close> run the tests on the model.
\<close>

definition assert_that :: "bool \<Rightarrow> unit option" where
  "assert_that b = (if b then Some () else None)"

definition unwrap :: "'e + 'a \<Rightarrow> 'a option" where
  "unwrap r = (case r of Inl _ \<Rightarrow> None | Inr x \<Rightarrow> Some x)"

definition unwrap_err :: "'e + 'a \<Rightarrow> 'e option" where
  "unwrap_err r = (case r of Inl e \<Rightarrow> Some e | Inr _ \<Rightarrow> None)"

text \<open>\<open>matches!(r, Err(e) if p)\<close> and \<open>matches!(r, Ok(x) if p)\<close>.\<close>

definition is_err :: "('e \<Rightarrow> bool) \<Rightarrow> 'e + 'a \<Rightarrow> bool" where
  "is_err p r = (case r of Inl e \<Rightarrow> p e | Inr _ \<Rightarrow> False)"

definition is_ok :: "('a \<Rightarrow> bool) \<Rightarrow> 'e + 'a \<Rightarrow> bool" where
  "is_ok p r = (case r of Inl _ \<Rightarrow> False | Inr x \<Rightarrow> p x)"

lemma test_simps [simp]:
  "assert_that True = Some ()" "assert_that False = None"
  "unwrap (Inl e :: 'e + 'a) = None" "unwrap (Inr x :: 'e + 'a) = Some x"
  "unwrap_err (Inl e :: 'e + 'a) = Some e" "unwrap_err (Inr x :: 'e + 'a) = None"
  "is_err p (Inl e :: 'e + 'a) = p e" "is_err p (Inr x :: 'e + 'a) = False"
  "is_ok q (Inl e :: 'e + 'a) = False" "is_ok q (Inr x :: 'e + 'a) = q x"
  by (simp_all add: assert_that_def unwrap_def unwrap_err_def is_err_def is_ok_def)

lemma assert_that_Some_iff [simp]: "assert_that b = Some u \<longleftrightarrow> b"
  by (simp add: assert_that_def)

end
