(* ===== verification/Dispatch_Tests.thy ===== *)
theory Dispatch_Tests
  imports Attach_Verifier Test_Support
begin

text \<open>
  The unit tests of attach and dispatch (\<^verbatim>\<open>guyos_core/src/domain/guyos_wire_attach.rs\<close> and
  \<^verbatim>\<open>guyos_core/src/domain/guyos_wire_v1.rs\<close>, module \<open>tests\<close>) run on the model. The attach tests use
  the counting verifier, whose calls are effects (\<^verbatim>\<open>Attach_Verifier\<close>). A UUID literal that a test
  parses is the 128-bit word of its digits.
\<close>

section \<open>Attach tests\<close>

definition policy_v1 :: attach_policy where
  "policy_v1 = single_major 1 5 1048576 65536 (Some 30)"

text \<open>A verifier that answers a fixed room for every ticket.\<close>

definition stub_verifier :: "string \<Rightarrow> ticket_verifier" where
  "stub_verifier room_id = (\<lambda>_. Inr room_id)"

abbreviation accepts_counting where
  "accepts_counting a policy v \<equiv> run_state (accept_attach_with a policy counting_verify_ticket) v"

definition negotiation_uses_min_client_and_hub_minor :: "unit option" where
  "negotiation_uses_min_client_and_hub_minor = do {
     let policy = policy_v1;
     let v = \<lparr>cv_calls = 0, cv_ok_room = ''room-a''\<rparr>;
     let attach = \<lparr>att_protocol_major = 1, att_protocol_minor = 10, att_ticket = ''t''\<rparr>;
     let (r, v) = accepts_counting attach policy v;
     ack \<leftarrow> unwrap r;
     assert_that (ack_server_protocol_minor ack = 5);
     assert_that (ack_protocol_major ack = 1);
     assert_that (ack_room_id ack = ''room-a'');
     assert_that (cv_calls v = 1) }"

definition negotiation_when_client_minor_lower_than_hub :: "unit option" where
  "negotiation_when_client_minor_lower_than_hub = do {
     let policy = policy_v1;
     let v = \<lparr>cv_calls = 0, cv_ok_room = ''r''\<rparr>;
     let attach = \<lparr>att_protocol_major = 1, att_protocol_minor = 3, att_ticket = ''t''\<rparr>;
     let (r, v) = accepts_counting attach policy v;
     ack \<leftarrow> unwrap r;
     assert_that (ack_server_protocol_minor ack = 3) }"

definition unsupported_major_after_preamble :: "unit option" where
  "unsupported_major_after_preamble = do {
     let policy = policy_v1;
     let v = \<lparr>cv_calls = 0, cv_ok_room = ''r''\<rparr>;
     let attach = \<lparr>att_protocol_major = 2, att_protocol_minor = 0, att_ticket = ''t''\<rparr>;
     let (r, v) = accepts_counting attach policy v;
     e \<leftarrow> unwrap_err r;
     assert_that (e = HsProtocolMajorUnsupported);
     assert_that (cv_calls v = 0) }"

definition ticket_failure_mapping :: "unit option" where
  "ticket_failure_mapping = do {
     let bad_ticket = (\<lambda>_. Inl TicketDecodeFailed);
     let policy = policy_v1;
     let attach = \<lparr>att_protocol_major = 1, att_protocol_minor = 0, att_ticket = ''x''\<rparr>;
     e \<leftarrow> unwrap_err (accept_attach attach policy bad_ticket);
     let (code, msg) = attach_handshake_portable e;
     assert_that (code = ''ticket_decode_failed'');
     assert_that (msg = error_message_ticket_decode_failed) }"

definition preamble_u31_rejection :: "unit option" where
  "preamble_u31_rejection = do {
     let policy = policy_v1;
     let v = \<lparr>cv_calls = 0, cv_ok_room = ''r''\<rparr>;
     let attach = \<lparr>att_protocol_major = 1, att_protocol_minor = 2147483648, att_ticket = ''t''\<rparr>;
     let (r, v) = accepts_counting attach policy v;
     assert_that (is_err (\<lambda>e. e = HsInvalidAttach) r) }"

section \<open>Dispatch tests\<close>

definition test_attach_policy :: attach_policy where
  "test_attach_policy = single_major 1 7 1048576 65536 None"

definition test_attach_policy_with_keepalive :: "u32 \<Rightarrow> attach_policy" where
  "test_attach_policy_with_keepalive seconds = single_major 1 7 1048576 65536 (Some seconds)"

text \<open>\<open>550e8400-e29b-41d4-a716-446655440000\<close> and the two other ids.\<close>

definition test_id :: uuid where
  "test_id = 0x550e8400e29b41d4a716446655440000"

definition test_id1 :: uuid where
  "test_id1 = 0x6ba7b8109dad11d180b400c04fd430c8"

definition test_id2 :: uuid where
  "test_id2 = 0x6ba7b8119dad11d180b400c04fd430c8"

text \<open>The call under test, on the in-memory ledger.\<close>

abbreviation handles where
  "handles st msg policy v ledger \<equiv>
     handle_client_message st (msg :: unit guyos_wire_v1_message) policy v accept_or_replay ledger"

abbreviation attach_with :: "u32 \<Rightarrow> u32 \<Rightarrow> string \<Rightarrow> unit guyos_wire_v1_message" where
  "attach_with major minor ticket \<equiv>
     MAttach \<lparr>att_protocol_major = major, att_protocol_minor = minor, att_ticket = ticket\<rparr>"

abbreviation publish_with :: "uuid \<Rightarrow> string \<Rightarrow> unit guyos_wire_v1_message" where
  "publish_with u t \<equiv> MPublish \<lparr>pub_client_message_id = u, pub_text = t\<rparr>"

definition attached_to :: "string \<Rightarrow> guyos_wire_session \<Rightarrow> bool" where
  "attached_to room st = (case st of Attached room_id _ _ \<Rightarrow> room_id = room | AwaitingAttach \<Rightarrow> False)"

definition expect_error :: "string \<Rightarrow> unit guyos_wire_inbound_outcome \<Rightarrow> unit option" where
  "expect_error code out = (case out of Reply (MError e) \<Rightarrow> assert_that (err_code e = code) | _ \<Rightarrow> None)"

definition dispatch_attach_success_yields_attach_ack :: "unit option" where
  "dispatch_attach_success_yields_attach_ack = do {
     let policy = test_attach_policy;
     let v = stub_verifier ''room-x'';
     let attach = attach_with 1 10 ''opaque'';
     let ledger = room_publish_state_default;
     (st, out, ledger) \<leftarrow> handles AwaitingAttach attach policy v ledger;
     assert_that (attached_to ''room-x'' st);
     (case out of
        Reply (MAttachAck a) \<Rightarrow> do {
          assert_that (ack_room_id a = ''room-x'');
          assert_that (ack_server_protocol_minor a = 7);
          assert_that (ack_max_frame_bytes a = 1048576);
          assert_that (ack_max_message_bytes a = 65536);
          assert_that (ack_keepalive_interval_seconds a = None) }
      | _ \<Rightarrow> None) }"

definition dispatch_attach_ack_includes_keepalive_when_configured :: "unit option" where
  "dispatch_attach_ack_includes_keepalive_when_configured = do {
     let policy = test_attach_policy_with_keepalive 45;
     let v = stub_verifier ''room-k'';
     let attach = attach_with 1 0 ''opaque'';
     let ledger = room_publish_state_default;
     (_, out, ledger) \<leftarrow> handles AwaitingAttach attach policy v ledger;
     (case out of
        Reply (MAttachAck a) \<Rightarrow> assert_that (ack_keepalive_interval_seconds a = Some 45)
      | _ \<Rightarrow> None) }"

definition dispatch_second_attach_after_ack_is_invalid_attach :: "unit option" where
  "dispatch_second_attach_after_ack_is_invalid_attach = do {
     let policy = test_attach_policy;
     let v = stub_verifier ''r'';
     let attach = attach_with 1 0 ''t'';
     let ledger = room_publish_state_default;
     (st, _, ledger) \<leftarrow> handles AwaitingAttach attach policy v ledger;
     assert_that (attached_to ''r'' st);
     (st2, out2, ledger) \<leftarrow> handles st attach policy v ledger;
     assert_that (attached_to ''r'' st2);
     expect_error ''invalid_attach'' out2 }"

definition dispatch_pre_attach_publish_is_attach_required :: "unit option" where
  "dispatch_pre_attach_publish_is_attach_required = do {
     let policy = test_attach_policy;
     let v = stub_verifier ''r'';
     let pub_msg = publish_with test_id ''hi'';
     let ledger = room_publish_state_default;
     (st, out, ledger) \<leftarrow> handles AwaitingAttach pub_msg policy v ledger;
     assert_that (st = AwaitingAttach);
     expect_error ''attach_required'' out }"

definition dispatch_pre_attach_detach_and_keepalive_are_no_ops :: "unit option" where
  "dispatch_pre_attach_detach_and_keepalive_are_no_ops = do {
     let policy = test_attach_policy;
     let v = stub_verifier ''r'';
     let ledger = room_publish_state_default;
     (st, out, ledger) \<leftarrow> handles AwaitingAttach MDetach policy v ledger;
     assert_that (st = AwaitingAttach);
     assert_that (out = NoReply);
     (st, out, ledger) \<leftarrow> handles AwaitingAttach MKeepalive policy v ledger;
     assert_that (st = AwaitingAttach);
     assert_that (out = NoReply) }"

definition dispatch_unsupported_major_after_preamble :: "unit option" where
  "dispatch_unsupported_major_after_preamble = do {
     let policy = test_attach_policy;
     let v = stub_verifier ''r'';
     let attach = attach_with 99 0 ''t'';
     let ledger = room_publish_state_default;
     (_, out, ledger) \<leftarrow> handles AwaitingAttach attach policy v ledger;
     expect_error ''protocol_major_unsupported'' out }"

section \<open>Publish tests\<close>

definition dispatch_publish_first_acceptance_seq_zero_ack_and_observer_chat :: "unit option" where
  "dispatch_publish_first_acceptance_seq_zero_ack_and_observer_chat = do {
     let policy = test_attach_policy;
     let v = stub_verifier ''room-a'';
     let attach = attach_with 1 0 ''t'';
     let ledger = room_publish_state_default;
     (st, _, ledger) \<leftarrow> handles AwaitingAttach attach policy v ledger;
     let pub_msg = publish_with test_id ''hello observers'';
     (_, out, ledger) \<leftarrow> handles st pub_msg policy v ledger;
     (case out of
        PublishHandled publisher_ack observer_chat \<Rightarrow> do {
          assert_that (pa_seq publisher_ack = 0);
          assert_that (pa_client_message_id publisher_ack = test_id);
          assert_that (pa_server_timestamp publisher_ack = None);
          chat \<leftarrow> observer_chat;
          assert_that (cm_seq chat = 0);
          assert_that (cm_client_message_id chat = test_id);
          assert_that (cm_text chat = ''hello observers'');
          assert_that (cm_sender_endpoint_id chat = None);
          assert_that (cm_server_timestamp chat = None) }
      | _ \<Rightarrow> None) }"

definition dispatch_publish_duplicate_client_id_replays_seq_without_observer_fan_out :: "unit option" where
  "dispatch_publish_duplicate_client_id_replays_seq_without_observer_fan_out = do {
     let policy = test_attach_policy;
     let v = stub_verifier ''room-dup'';
     let attach = attach_with 1 0 ''t'';
     let ledger = room_publish_state_default;
     (st, _, ledger) \<leftarrow> handles AwaitingAttach attach policy v ledger;
     let pub_msg = publish_with test_id ''first'';
     (st, out1, ledger) \<leftarrow> handles st pub_msg policy v ledger;
     seq_first \<leftarrow> (case out1 of
        PublishHandled publisher_ack observer_chat \<Rightarrow> do {
          assert_that (observer_chat \<noteq> None);
          Some (pa_seq publisher_ack) }
      | _ \<Rightarrow> None);
     let pub_retry = publish_with test_id ''different text ignored'';
     (_, out2, ledger) \<leftarrow> handles st pub_retry policy v ledger;
     (case out2 of
        PublishHandled publisher_ack observer_chat \<Rightarrow> do {
          assert_that (pa_seq publisher_ack = seq_first);
          assert_that (observer_chat = None) }
      | _ \<Rightarrow> None) }"

text \<open>The loop over the ids with their indices.\<close>

fun publish_in_turn ::
    "attach_policy \<Rightarrow> ticket_verifier \<Rightarrow> nat \<Rightarrow> uuid list \<Rightarrow> guyos_wire_session \<Rightarrow> room_publish_state \<Rightarrow> unit option" where
  "publish_in_turn policy v i [] st ledger = Some ()"
| "publish_in_turn policy v i (u # us) st ledger = do {
     let msg = publish_with u (''m'' @ dec_of_nat i);
     (st_next, out, ledger) \<leftarrow> handles st msg policy v ledger;
     (case out of
        PublishHandled publisher_ack _ \<Rightarrow> assert_that (pa_seq publisher_ack = word_of_nat i)
      | _ \<Rightarrow> None);
     publish_in_turn policy v (Suc i) us st_next ledger }"

definition dispatch_publish_sequence_increases_per_room_across_distinct_ids :: "unit option" where
  "dispatch_publish_sequence_increases_per_room_across_distinct_ids = do {
     let policy = test_attach_policy;
     let v = stub_verifier ''room-seq'';
     let attach = attach_with 1 0 ''t'';
     let ledger = room_publish_state_default;
     (st, _, ledger) \<leftarrow> handles AwaitingAttach attach policy v ledger;
     publish_in_turn policy v 0 [test_id, test_id1, test_id2] st ledger }"

definition dispatch_publish_oversized_text_returns_message_too_large_error :: "unit option" where
  "dispatch_publish_oversized_text_returns_message_too_large_error = do {
     let policy = test_attach_policy;
     let v = stub_verifier ''room-big'';
     let attach = attach_with 1 0 ''t'';
     let ledger = room_publish_state_default;
     (st, _, ledger) \<leftarrow> handles AwaitingAttach attach policy v ledger;
     let pub_msg = publish_with test_id (replicate (MAX_MESSAGE_BYTES_ADR_V1 + 1) CHR ''x'');
     (_, out, ledger) \<leftarrow> handles st pub_msg policy v ledger;
     expect_error ''message_too_large'' out }"

text \<open>\<open>matches!(out, PublishHandled { publisher_ack, .. } if publisher_ack.seq == 0)\<close>.\<close>

definition handled_with_seq :: "u64 \<Rightarrow> unit guyos_wire_inbound_outcome \<Rightarrow> bool" where
  "handled_with_seq seq out = (case out of PublishHandled publisher_ack _ \<Rightarrow> pa_seq publisher_ack = seq | _ \<Rightarrow> False)"

definition ledger_independent_sequences_per_room_id :: "unit option" where
  "ledger_independent_sequences_per_room_id = do {
     let policy = test_attach_policy;
     let ledger = room_publish_state_default;
     let attach_a = attach_with 1 0 ''ta'';
     let va = stub_verifier ''alpha'';
     (st_a, _, ledger) \<leftarrow> handles AwaitingAttach attach_a policy va ledger;
     let attach_b = attach_with 1 0 ''tb'';
     let vb = stub_verifier ''beta'';
     (st_b, _, ledger) \<leftarrow> handles AwaitingAttach attach_b policy vb ledger;
     let pub_a = publish_with test_id ''a1'';
     (_, out_a, ledger) \<leftarrow> handles st_a pub_a policy va ledger;
     assert_that (handled_with_seq 0 out_a);
     let pub_b = publish_with test_id ''b1'';
     (_, out_b, ledger) \<leftarrow> handles st_b pub_b policy vb ledger;
     assert_that (handled_with_seq 0 out_b) }"

definition dispatch_publish_respects_strict_max_message_bytes_from_ack :: "unit option" where
  "dispatch_publish_respects_strict_max_message_bytes_from_ack = do {
     let policy = single_major 1 0 1048576 16 None;
     let v = stub_verifier ''strict'';
     let attach = attach_with 1 0 ''t'';
     let ledger = room_publish_state_default;
     (st, _, ledger) \<leftarrow> handles AwaitingAttach attach policy v ledger;
     let pub_msg = publish_with test_id (replicate 17 CHR ''x'');
     (_, out, ledger) \<leftarrow> handles st pub_msg policy v ledger;
     expect_error ''message_too_large'' out }"

definition error_code_is :: "string \<Rightarrow> 'ts guyos_wire_v1_message \<Rightarrow> unit option" where
  "error_code_is code msg = (case msg of MError e \<Rightarrow> assert_that (err_code e = code) | _ \<Rightarrow> None)"

definition outbound_error_from_message_error_maps_portable_codes :: "'ts deps \<Rightarrow> unit option" where
  "outbound_error_from_message_error_maps_portable_codes D = do {
     error_code_is ''malformed_json'' (outbound_error_from_message_error D MalformedJson);
     error_code_is ''unknown_message_type''
       (outbound_error_from_message_error D (UnknownMessageType (Some ''nope'')));
     error_code_is ''invalid_attach'' (outbound_error_from_message_error D InvalidAttach);
     error_code_is ''message_too_large'' (outbound_error_from_message_error D (MessageTooLarge 9 8));
     error_code_is ''invalid_client_message_id''
       (outbound_error_from_message_error D (InvalidClientMessageId ''bad'')) }"

section \<open>The model passes them\<close>

lemmas dispatch_test_defs = policy_v1_def stub_verifier_def test_attach_policy_def
  test_attach_policy_with_keepalive_def attached_to_def expect_error_def handled_with_seq_def
  single_major_def accept_attach_Inr_iff accept_or_replay_def room_publish_state_default_def
  room_shard_default_def checked_add_u64_def dispatch_publish_cases outbound_wire_error_def
  outbound_message_too_large_def hub_protocol_minor_ceiling_def validate_attach_preamble_def
  U31_MAX_def accept_attach_def Let_def

lemma attach_tests_pass:
  "negotiation_uses_min_client_and_hub_minor = Some ()"
  "unsupported_major_after_preamble = Some ()"
  "negotiation_when_client_minor_lower_than_hub = Some ()"
  "ticket_failure_mapping = Some ()"
  "preamble_u31_rejection = Some ()"
  by (simp_all add: negotiation_uses_min_client_and_hub_minor_def unsupported_major_after_preamble_def
      negotiation_when_client_minor_lower_than_hub_def ticket_failure_mapping_def
      preamble_u31_rejection_def accept_attach_with_def counting_verify_ticket_def dispatch_test_defs)

lemma attach_dispatch_tests_pass:
  "dispatch_attach_success_yields_attach_ack = Some ()"
  "dispatch_attach_ack_includes_keepalive_when_configured = Some ()"
  "dispatch_second_attach_after_ack_is_invalid_attach = Some ()"
  "dispatch_pre_attach_publish_is_attach_required = Some ()"
  "dispatch_pre_attach_detach_and_keepalive_are_no_ops = Some ()"
  "dispatch_unsupported_major_after_preamble = Some ()"
  by (simp_all add: dispatch_attach_success_yields_attach_ack_def
      dispatch_attach_ack_includes_keepalive_when_configured_def
      dispatch_second_attach_after_ack_is_invalid_attach_def
      dispatch_pre_attach_publish_is_attach_required_def
      dispatch_pre_attach_detach_and_keepalive_are_no_ops_def
      dispatch_unsupported_major_after_preamble_def dispatch_test_defs)

lemma publish_tests_pass:
  "dispatch_publish_first_acceptance_seq_zero_ack_and_observer_chat = Some ()"
  "dispatch_publish_duplicate_client_id_replays_seq_without_observer_fan_out = Some ()"
  "ledger_independent_sequences_per_room_id = Some ()"
  by (simp_all add: dispatch_publish_first_acceptance_seq_zero_ack_and_observer_chat_def
      dispatch_publish_duplicate_client_id_replays_seq_without_observer_fan_out_def
      ledger_independent_sequences_per_room_id_def dispatch_test_defs)

lemma oversized_tests_pass:
  "dispatch_publish_oversized_text_returns_message_too_large_error = Some ()"
  "dispatch_publish_respects_strict_max_message_bytes_from_ack = Some ()"
  by (simp_all add: dispatch_publish_oversized_text_returns_message_too_large_error_def
      dispatch_publish_respects_strict_max_message_bytes_from_ack_def dispatch_test_defs
      MAX_MESSAGE_BYTES_ADR_V1_def del: replicate.simps)

lemma sequence_test_passes:
  "dispatch_publish_sequence_increases_per_room_across_distinct_ids = Some ()"
  by (simp add: dispatch_publish_sequence_increases_per_room_across_distinct_ids_def dispatch_test_defs
      test_id_def test_id1_def test_id2_def dec_of_nat.simps)

lemma portable_codes_test_passes: "outbound_error_from_message_error_maps_portable_codes D = Some ()"
  by (simp add: outbound_error_from_message_error_maps_portable_codes_def error_code_is_def
      outbound_wire_error_def outbound_message_too_large_def Let_def)

section \<open>All of them\<close>

definition dispatch_tests :: "unit option list" where
  "dispatch_tests = [
     negotiation_uses_min_client_and_hub_minor, unsupported_major_after_preamble,
     negotiation_when_client_minor_lower_than_hub, ticket_failure_mapping, preamble_u31_rejection,
     dispatch_attach_success_yields_attach_ack,
     dispatch_attach_ack_includes_keepalive_when_configured,
     dispatch_second_attach_after_ack_is_invalid_attach, dispatch_pre_attach_publish_is_attach_required,
     dispatch_pre_attach_detach_and_keepalive_are_no_ops, dispatch_unsupported_major_after_preamble,
     dispatch_publish_first_acceptance_seq_zero_ack_and_observer_chat,
     dispatch_publish_duplicate_client_id_replays_seq_without_observer_fan_out,
     dispatch_publish_sequence_increases_per_room_across_distinct_ids,
     dispatch_publish_oversized_text_returns_message_too_large_error,
     ledger_independent_sequences_per_room_id,
     dispatch_publish_respects_strict_max_message_bytes_from_ack]"

text \<open>
  The model passes the crate's own tests of the attach handshake and of the dispatch of
  publishes: each ends without a failed assertion or a panic.
\<close>

lemma dispatch_tests_pass: "list_all (\<lambda>t. t = Some ()) dispatch_tests"
  by (simp add: dispatch_tests_def attach_tests_pass attach_dispatch_tests_pass publish_tests_pass
      oversized_tests_pass sequence_test_passes)

end
