(* ===== verification/Session_Tests.thy ===== *)
theory Session_Tests
  imports Wire_Session Test_Support
begin

text \<open>
  The unit tests of the framing and of the in-memory session
  (\<^verbatim>\<open>guyos_core/src/ports/outbound/f1_framing.rs\<close> and \<^verbatim>\<open>fake_guyos_wire_v1_session.rs\<close>, modules
  \<open>tests\<close>) run on the model. Between two calls of a test the channel hands over what one end sent
  (\<open>deliver\<close>), or its closing (\<open>drop_end\<close>); a read that would wait for ever fails the test.
\<close>

section \<open>Framing tests\<close>

definition doc_ping :: string where
  \<open>doc_ping = ''{"type":"ping"}''\<close>

definition round_trip_small_json_object_string :: "unit option" where
  "round_trip_small_json_object_string = do {
     let limit = 1024;
     let body = doc_ping;
     wire \<leftarrow> unwrap (encode_application_frame body limit);
     let d = f1_new limit;
     let d = f1_feed d wire;
     let (r, d) = pop_complete_frame d;
     got \<leftarrow> unwrap r;
     got \<leftarrow> got;
     assert_that (got = body);
     assert_that (\<not> has_buffered_data d) }"

definition declared_length_over_limit_returns_frame_too_large_before_body :: "unit option" where
  "declared_length_over_limit_returns_frame_too_large_before_body = do {
     let limit = 8;
     let d = f1_new limit;
     let declared = 999;
     let d = f1_feed d (u32_to_be_bytes declared);
     err \<leftarrow> unwrap_err (fst (pop_complete_frame d));
     assert_that (err = FrameTooLarge 999 8) }"

definition encode_rejects_body_len_over_limit :: "unit option" where
  "encode_rejects_body_len_over_limit = do {
     let limit = 4;
     let body = ''hello'';
     err \<leftarrow> unwrap_err (encode_application_frame body limit);
     assert_that (err = FrameTooLarge 5 4) }"

definition invalid_utf8_payload_returns_invalid_utf8 :: "unit option" where
  "invalid_utf8_payload_returns_invalid_utf8 = do {
     let limit = 64;
     let d = f1_new limit;
     let declared = 2;
     let wire = u32_to_be_bytes declared @ [0xFF, 0xFE];
     let d = f1_feed d wire;
     err \<leftarrow> unwrap_err (fst (pop_complete_frame d));
     assert_that (err = InvalidUtf8) }"

definition empty_body_frame_round_trips :: "unit option" where
  "empty_body_frame_round_trips = do {
     let limit = 16;
     wire \<leftarrow> unwrap (encode_application_frame [] limit);
     assert_that (length wire = 4);
     let d = f1_new limit;
     let d = f1_feed d wire;
     got \<leftarrow> unwrap (fst (pop_complete_frame d));
     got \<leftarrow> got;
     assert_that (got = []) }"

section \<open>Session tests\<close>

definition deliver :: "fake_session \<Rightarrow> fake_session \<Rightarrow> fake_session \<times> fake_session" where
  "deliver s r = (s\<lparr>fs_tx := []\<rparr>, r\<lparr>fs_rx := fs_rx r @ map Some (fs_tx s)\<rparr>)"

definition drop_end :: "fake_session \<Rightarrow> fake_session \<Rightarrow> fake_session" where
  "drop_end s r = r\<lparr>fs_rx := fs_rx r @ map Some (fs_tx s) @ [None], fs_tx_closed := True\<rparr>"

definition awaits_read :: "fake_session \<Rightarrow> ((guyos_wire_v1_session_error + string option) \<times> fake_session) option" where
  "awaits_read s = (case read_application_frame_inner s of (None, _) \<Rightarrow> None | (Some r, s) \<Rightarrow> Some (r, s))"

definition doc_hello :: string where
  \<open>doc_hello = ''{"type":"hello"}''\<close>

definition doc_world :: string where
  \<open>doc_world = ''{"type":"world"}''\<close>

definition paired_ends_exchange_frames_independently :: "unit option" where
  "paired_ends_exchange_frames_independently = do {
     let (alice, bob) = paired [] [];
     let msg = doc_hello;
     let (r, alice) = write_application_frame_inner alice msg;
     unwrap r;
     let (alice, bob) = deliver alice bob;
     (r, bob) \<leftarrow> awaits_read bob;
     got \<leftarrow> unwrap r;
     got \<leftarrow> got;
     assert_that (got = msg);
     let reply = doc_world;
     let (r, bob) = write_application_frame_inner bob reply;
     unwrap r;
     let (bob, alice) = deliver bob alice;
     (r, alice) \<leftarrow> awaits_read alice;
     got2 \<leftarrow> unwrap r;
     got2 \<leftarrow> got2;
     assert_that (got2 = reply) }"

definition clean_close_between_frames_returns_none :: "unit option" where
  "clean_close_between_frames_returns_none = do {
     let (alice, bob) = paired_with_max_frame_bytes [] [] 1024;
     let bob = drop_end alice bob;
     (r, bob) \<leftarrow> awaits_read bob;
     got \<leftarrow> unwrap r;
     assert_that (got = None) }"

definition truncated_payload_returns_unexpected_eof :: "unit option" where
  "truncated_payload_returns_unexpected_eof = do {
     let (alice, bob) = paired_with_max_frame_bytes [] [] 1024;
     let declared = 100;
     let partial = u32_to_be_bytes declared;
     let partial = partial @ as_bytes ''short'';
     let (r, alice) = send_raw_chunk alice partial;
     unwrap r;
     let bob = drop_end alice bob;
     (r, bob) \<leftarrow> awaits_read bob;
     err \<leftarrow> unwrap_err r;
     assert_that (err = UnexpectedEof) }"

definition write_payload_over_limit_returns_frame_too_large :: "unit option" where
  "write_payload_over_limit_returns_frame_too_large = do {
     let (alice, bob) = paired_with_max_frame_bytes [] [] 4;
     err \<leftarrow> unwrap_err (fst (write_application_frame_inner alice ''abcde''));
     assert_that (err = FrameTooLarge 5 4) }"

section \<open>The model passes them\<close>

lemma wire_body [simp]: "utf8_string doc_ping" "utf8_string doc_hello" "utf8_string doc_world"
  by (rule utf8_string_ascii, simp add: doc_ping_def doc_hello_def doc_world_def)+

lemma wire_body_length [simp]: "length doc_ping = 15" "length doc_hello = 16" "length doc_world = 16"
  by (simp_all add: doc_ping_def doc_hello_def doc_world_def)

lemma pop_frame_of_body:
  assumes "encode_application_frame body (dec_max_frame_bytes d) = Inr w" and "utf8_string body"
    and "dec_buf d = []"
  shows "pop_complete_frame (f1_feed d w) = (Inr (Some body), d)"
  using pop_encoded_frame [of body "f1_feed d w" w "[]"] assms by (simp add: f1_feed_def)

lemma pop_empty_buffer: "dec_buf d = [] \<Longrightarrow> pop_complete_frame d = (Inr None, d)"
  by (simp add: pop_complete_frame_def)

lemma awaits_frame:
  assumes "encode_application_frame body (dec_max_frame_bytes (fs_decoder s)) = Inr w" and "utf8_string body"
    and "dec_buf (fs_decoder s) = []" and "fs_rx s = Some w # rx"
  shows "awaits_read s = Some (Inr (Some body), s\<lparr>fs_rx := rx\<rparr>)"
proof -
  have "read_loop (f1_feed (fs_decoder s) w) rx = (Some (Inr (Some body)), fs_decoder s, rx)"
    using pop_frame_of_body [OF assms(1-3)] by (simp add: read_loop.simps [of "f1_feed (fs_decoder s) w"])
  then have "read_loop (fs_decoder s) (fs_rx s) = (Some (Inr (Some body)), fs_decoder s, rx)"
    using pop_empty_buffer [OF assms(3)] assms(4) by (simp add: read_loop.simps [of "fs_decoder s"])
  then show ?thesis by (simp add: awaits_read_def read_application_frame_inner_def)
qed

text \<open>One frame from one end to the other, both with empty buffers.\<close>

definition clear :: "u32 \<Rightarrow> fake_session \<Rightarrow> bool" where
  "clear l s \<longleftrightarrow> fs_max_frame_bytes s = l \<and> fs_decoder s = f1_new l \<and> fs_rx s = [] \<and> fs_tx s = []
     \<and> \<not> fs_tx_closed s"

lemma frame_passes:
  assumes "clear l s" and "clear l r" and "length body \<le> unat l" and "utf8_string body"
  shows "\<exists>s1 s2 r1 r2. write_application_frame_inner s body = (Inr (), s1) \<and> deliver s1 r = (s2, r1)
    \<and> awaits_read r1 = Some (Inr (Some body), r2) \<and> clear l s2 \<and> clear l r2"
proof -
  let ?w = "u32_to_be_bytes (word_of_nat (length body)) @ as_bytes body"
  have w: "encode_application_frame body l = Inr ?w"
    using assms(3) by (simp add: encode_application_frame_Inr_iff)
  let ?s1 = "s\<lparr>fs_tx := [?w]\<rparr>" and ?r1 = "r\<lparr>fs_rx := [Some ?w]\<rparr>"
  have "write_application_frame_inner s body = (Inr (), ?s1)"
    using assms(1) w by (simp add: write_application_frame_inner_def tx_send_def clear_def)
  moreover have "deliver ?s1 r = (s\<lparr>fs_tx := []\<rparr>, ?r1)"
    using assms(2) by (simp add: deliver_def clear_def)
  moreover have "awaits_read ?r1 = Some (Inr (Some body), ?r1\<lparr>fs_rx := []\<rparr>)"
    by (rule awaits_frame [where w = ?w]) (use assms w in \<open>simp_all add: clear_def f1_new_def\<close>)
  ultimately show ?thesis using assms(1,2) by (fastforce simp: clear_def)
qed

lemma framing_tests_pass:
  "round_trip_small_json_object_string = Some ()"
  "declared_length_over_limit_returns_frame_too_large_before_body = Some ()"
  "encode_rejects_body_len_over_limit = Some ()"
  "invalid_utf8_payload_returns_invalid_utf8 = Some ()"
  "empty_body_frame_round_trips = Some ()"
proof -
  let ?w = "\<lambda>body. u32_to_be_bytes (word_of_nat (length body)) @ as_bytes body"
  have "encode_application_frame doc_ping 1024 = Inr (?w doc_ping)"
    by (simp add: encode_application_frame_Inr_iff)
  moreover from this have "pop_complete_frame (f1_feed (f1_new 1024) (?w doc_ping)) = (Inr (Some doc_ping), f1_new 1024)"
    by (intro pop_frame_of_body) (simp_all add: f1_new_def)
  ultimately show "round_trip_small_json_object_string = Some ()"
    by (simp add: round_trip_small_json_object_string_def has_buffered_data_def f1_new_def)
  have "encode_application_frame [] 16 = Inr (?w [])" by (simp add: encode_application_frame_Inr_iff)
  moreover from this have "pop_complete_frame (f1_feed (f1_new 16) (?w [])) = (Inr (Some []), f1_new 16)"
    by (intro pop_frame_of_body) (simp_all add: f1_new_def)
  ultimately show "empty_body_frame_round_trips = Some ()"
    by (simp add: empty_body_frame_round_trips_def)
  show "declared_length_over_limit_returns_frame_too_large_before_body = Some ()"
    by (simp add: declared_length_over_limit_returns_frame_too_large_before_body_def pop_complete_frame_def
        f1_new_def Let_def)
  show "encode_rejects_body_len_over_limit = Some ()"
    by (simp add: encode_rejects_body_len_over_limit_def encode_application_frame_def u32_try_from_usize_def)
  have "\<not> utf8_valid [0xFF, 0xFE]" by (simp add: utf8_valid.simps [of "[0xFF, 0xFE]"] utf8_step_def)
  then show "invalid_utf8_payload_returns_invalid_utf8 = Some ()"
    by (simp add: invalid_utf8_payload_returns_invalid_utf8_def pop_complete_frame_def f1_new_def Let_def
        from_utf8_def usize_saturating_add_def)
qed

lemma session_tests_pass:
  "paired_ends_exchange_frames_independently = Some ()"
  "clean_close_between_frames_returns_none = Some ()"
  "truncated_payload_returns_unexpected_eof = Some ()"
  "write_payload_over_limit_returns_frame_too_large = Some ()"
proof -
  let ?e = "fake_end MAX_FRAME_BYTES_ADR_V1 [] False"
  have pair: "paired [] [] = (?e, ?e)" by (simp add: paired_def paired_with_max_frame_bytes_def)
  have e: "clear MAX_FRAME_BYTES_ADR_V1 ?e" by (simp add: fake_end_def clear_def)
  from frame_passes [OF e e, of doc_hello] obtain s1 s2 r1 r2 where
    1: "write_application_frame_inner ?e doc_hello = (Inr (), s1)" "deliver s1 ?e = (s2, r1)"
      "awaits_read r1 = Some (Inr (Some doc_hello), r2)"
    and c: "clear MAX_FRAME_BYTES_ADR_V1 s2" "clear MAX_FRAME_BYTES_ADR_V1 r2"
    by (auto simp: MAX_FRAME_BYTES_ADR_V1_def)
  from frame_passes [OF c(2,1), of doc_world] obtain s3 s4 r3 r4 where
    2: "write_application_frame_inner r2 doc_world = (Inr (), s3)" "deliver s3 s2 = (s4, r3)"
      "awaits_read r3 = Some (Inr (Some doc_world), r4)"
    by (auto simp: MAX_FRAME_BYTES_ADR_V1_def)
  from pair 1 2 show "paired_ends_exchange_frames_independently = Some ()"
    by (simp add: paired_ends_exchange_frames_independently_def)
  show "clean_close_between_frames_returns_none = Some ()"
    by (simp add: clean_close_between_frames_returns_none_def paired_with_max_frame_bytes_def fake_end_def
        drop_end_def awaits_read_def read_application_frame_inner_def read_loop.simps pop_complete_frame_def
        f1_new_def has_buffered_data_def)
  show "truncated_payload_returns_unexpected_eof = Some ()"
    by (simp add: truncated_payload_returns_unexpected_eof_def paired_with_max_frame_bytes_def fake_end_def
        send_raw_chunk_def tx_send_def drop_end_def awaits_read_def read_application_frame_inner_def
        read_loop.simps usize_saturating_add_def as_bytes_def pop_complete_frame_def f1_new_def has_buffered_data_def Let_def)
  show "write_payload_over_limit_returns_frame_too_large = Some ()"
    by (simp add: write_payload_over_limit_returns_frame_too_large_def paired_with_max_frame_bytes_def
        fake_end_def write_application_frame_inner_def encode_application_frame_def u32_try_from_usize_def)
qed

end
