(* ===== verification/Wire_Tests.thy ===== *)
theory Wire_Tests
  imports Dispatch_Tests Session_Tests "HOL-Library.Sublist"
begin

text \<open>
  The unit tests of the codec and of the hub's error frame
  (\<^verbatim>\<open>guyos_core/src/domain/guyos_wire_v1.rs\<close>, module \<open>tests\<close>) run on the model. The documents the
  tests parse and the JSON values they mean are in \<open>test_documents\<close>; that the JSON library reads
  them so, and reads back the lines it writes, are the hypotheses of the lemmas.
\<close>

section \<open>Documents\<close>

definition test_id_text :: string where
  "test_id_text = ''550e8400-e29b-41d4-a716-446655440000''"

definition test_id_upper :: string where
  "test_id_upper = ''550E8400-E29B-41D4-A716-446655440000''"

definition doc_future_key :: string where
  \<open>doc_future_key = ''{"type":"publish","client_message_id":"550e8400-e29b-41d4-a716-446655440000","text":"","future_key":true}''\<close>

definition doc_attach_no_minor :: string where
  \<open>doc_attach_no_minor = ''{"type":"attach","protocol_major":1,"ticket":"x"}''\<close>

definition doc_publish_text_list :: string where
  \<open>doc_publish_text_list = ''{"type":"publish","client_message_id":"550e8400-e29b-41d4-a716-446655440000","text":[]}''\<close>

definition doc_nope :: string where
  \<open>doc_nope = ''{"type":"nope"}''\<close>

definition doc_seq_number :: string where
  \<open>doc_seq_number = ''{"type":"publish_ack","client_message_id":"550e8400-e29b-41d4-a716-446655440000","seq":1}''\<close>

definition doc_seq_01 :: string where
  \<open>doc_seq_01 = ''{"type":"publish_ack","client_message_id":"550e8400-e29b-41d4-a716-446655440000","seq":"01"}''\<close>

definition doc_upper_id :: string where
  \<open>doc_upper_id = ''{"type":"publish","client_message_id":"550E8400-E29B-41D4-A716-446655440000","text":""}''\<close>

definition doc_details_list :: string where
  \<open>doc_details_list = ''{"type":"error","error":{"code":"x","message":"y","details":[]}}''\<close>

definition doc_detach_extra :: string where
  \<open>doc_detach_extra = ''{"type":"detach","extra":1}''\<close>

definition doc_major_text :: string where
  \<open>doc_major_text = ''{"type":"attach","protocol_major":"1","protocol_minor":0,"ticket":"x"}''\<close>

definition doc_keepalive_noise :: string where
  \<open>doc_keepalive_noise = ''{"type":"keepalive","noise":true}''\<close>

definition doc_hi :: string where
  \<open>doc_hi = ''"hi"''\<close>

lemmas doc_defs = doc_future_key_def doc_attach_no_minor_def doc_publish_text_list_def doc_nope_def
  doc_seq_number_def doc_seq_01_def doc_upper_id_def doc_details_list_def doc_detach_extra_def
  doc_major_text_def doc_keepalive_noise_def doc_hi_def

definition test_documents :: "(string \<times> json) list" where
  "test_documents = [
     (doc_future_key, JObject [''type'' \<mapsto> JString ''publish'', ''client_message_id'' \<mapsto> JString test_id_text,
        ''text'' \<mapsto> JString [], ''future_key'' \<mapsto> JBool True]),
     (doc_attach_no_minor, JObject [''type'' \<mapsto> JString ''attach'', ''protocol_major'' \<mapsto> JNumber (PosInt 1),
        ''ticket'' \<mapsto> JString ''x'']),
     (doc_publish_text_list, JObject [''type'' \<mapsto> JString ''publish'',
        ''client_message_id'' \<mapsto> JString test_id_text, ''text'' \<mapsto> JArray []]),
     (doc_nope, JObject [''type'' \<mapsto> JString ''nope'']),
     (doc_seq_number, JObject [''type'' \<mapsto> JString ''publish_ack'',
        ''client_message_id'' \<mapsto> JString test_id_text, ''seq'' \<mapsto> JNumber (PosInt 1)]),
     (doc_seq_01, JObject [''type'' \<mapsto> JString ''publish_ack'',
        ''client_message_id'' \<mapsto> JString test_id_text, ''seq'' \<mapsto> JString ''01'']),
     (''[]'', JArray []),
     (doc_hi, JString ''hi''),
     (doc_upper_id, JObject [''type'' \<mapsto> JString ''publish'', ''client_message_id'' \<mapsto> JString test_id_upper,
        ''text'' \<mapsto> JString []]),
     (doc_details_list, JObject [''type'' \<mapsto> JString ''error'', ''error'' \<mapsto> JObject
        [''code'' \<mapsto> JString ''x'', ''message'' \<mapsto> JString ''y'', ''details'' \<mapsto> JArray []]]),
     (doc_detach_extra, JObject [''type'' \<mapsto> JString ''detach'', ''extra'' \<mapsto> JNumber (PosInt 1)]),
     (doc_major_text, JObject [''type'' \<mapsto> JString ''attach'', ''protocol_major'' \<mapsto> JString ''1'',
        ''protocol_minor'' \<mapsto> JNumber (PosInt 0), ''ticket'' \<mapsto> JString ''x'']),
     (doc_keepalive_noise, JObject [''type'' \<mapsto> JString ''keepalive'', ''noise'' \<mapsto> JBool True])]"

section \<open>Decoding tests\<close>

definition unknown_top_level_keys_ignored_on_dispatch_shapes :: "'ts deps \<Rightarrow> unit option" where
  "unknown_top_level_keys_ignored_on_dispatch_shapes D = do {
     m \<leftarrow> unwrap (decode_guyos_wire_v1_json D doc_future_key);
     (case m of MPublish p \<Rightarrow> assert_that (pub_text p = []) | _ \<Rightarrow> None) }"

definition attach_missing_key_invalid_attach :: "'ts deps \<Rightarrow> unit option" where
  "attach_missing_key_invalid_attach D =
     assert_that (is_err (\<lambda>e. e = InvalidAttach) (decode_guyos_wire_v1_json D doc_attach_no_minor))"

definition publish_wrong_type_malformed :: "'ts deps \<Rightarrow> unit option" where
  "publish_wrong_type_malformed D =
     assert_that (is_err (\<lambda>e. e = MalformedJson) (decode_guyos_wire_v1_json D doc_publish_text_list))"

definition unknown_message_type_variant :: "'ts deps \<Rightarrow> unit option" where
  "unknown_message_type_variant D =
     assert_that (is_err (\<lambda>e. case e of UnknownMessageType _ \<Rightarrow> True | _ \<Rightarrow> False)
       (decode_guyos_wire_v1_json D doc_nope))"

definition seq_as_json_number_rejected :: "'ts deps \<Rightarrow> unit option" where
  "seq_as_json_number_rejected D =
     assert_that (is_err (\<lambda>e. e = MalformedJson) (decode_guyos_wire_v1_json D doc_seq_number))"

definition seq_leading_zero_rejected :: "'ts deps \<Rightarrow> unit option" where
  "seq_leading_zero_rejected D =
     assert_that (is_err (\<lambda>e. e = MalformedJson) (decode_guyos_wire_v1_json D doc_seq_01))"

definition malformed_json_not_object :: "'ts deps \<Rightarrow> unit option" where
  "malformed_json_not_object D = do {
     assert_that (is_err (\<lambda>e. e = MalformedJson) (decode_guyos_wire_v1_json D ''[]''));
     assert_that (is_err (\<lambda>e. e = MalformedJson) (decode_guyos_wire_v1_json D doc_hi)) }"

definition non_canonical_uuid_rejected :: "'ts deps \<Rightarrow> unit option" where
  "non_canonical_uuid_rejected D =
     assert_that (is_err (\<lambda>e. case e of InvalidClientMessageId _ \<Rightarrow> True | _ \<Rightarrow> False)
       (decode_guyos_wire_v1_json D doc_upper_id))"

definition error_details_must_be_object :: "'ts deps \<Rightarrow> unit option" where
  "error_details_must_be_object D =
     assert_that (is_err (\<lambda>e. e = MalformedJson) (decode_guyos_wire_v1_json D doc_details_list))"

definition detach_tolerates_unknown_top_level_keys :: "'ts deps \<Rightarrow> unit option" where
  "detach_tolerates_unknown_top_level_keys D =
     assert_that (is_ok (\<lambda>m. m = MDetach) (decode_guyos_wire_v1_json D doc_detach_extra))"

definition attach_wrong_field_kind_invalid_attach :: "'ts deps \<Rightarrow> unit option" where
  "attach_wrong_field_kind_invalid_attach D =
     assert_that (is_err (\<lambda>e. e = InvalidAttach) (decode_guyos_wire_v1_json D doc_major_text))"

definition keepalive_tolerates_unknown_top_level_keys :: "'ts deps \<Rightarrow> unit option" where
  "keepalive_tolerates_unknown_top_level_keys D =
     assert_that (is_ok (\<lambda>m. m = MKeepalive) (decode_guyos_wire_v1_json D doc_keepalive_noise))"

definition decode_tests :: "'ts deps \<Rightarrow> unit option list" where
  "decode_tests D = [
     unknown_top_level_keys_ignored_on_dispatch_shapes D, attach_missing_key_invalid_attach D,
     publish_wrong_type_malformed D, unknown_message_type_variant D, seq_as_json_number_rejected D,
     seq_leading_zero_rejected D, malformed_json_not_object D, non_canonical_uuid_rejected D,
     error_details_must_be_object D, detach_tolerates_unknown_top_level_keys D,
     attach_wrong_field_kind_invalid_attach D, keepalive_tolerates_unknown_top_level_keys D]"

section \<open>The model passes the decoding tests\<close>

definition test_ids_ok :: "'ts deps \<Rightarrow> bool" where
  "test_ids_ok D \<longleftrightarrow> uuid_parse_str D test_id_text = Some test_id
     \<and> uuid_parse_str D test_id_upper = Some test_id \<and> uuid_to_string D test_id = test_id_text"

definition reads_documents :: "'ts deps \<Rightarrow> bool" where
  "reads_documents D \<longleftrightarrow> list_all (\<lambda>(s, v). serde_from_str D s = Some v) test_documents"

lemma seq_01: "parse_seq_wire ''01'' = Inl MalformedJson"
proof -
  have "\<not> canonical_dec ''01''" by (simp add: canonical_dec_def)
  then show ?thesis by (simp add: parse_seq_wire_canonical)
qed

lemma reads_document:
  assumes "reads_documents D"
  shows "list_all (\<lambda>(s, v). decode_guyos_wire_v1_json D s = (case v of
      JObject m \<Rightarrow> (case m ''type'' of Some (JString t) \<Rightarrow> decode_by_type D m t | Some _ \<Rightarrow> Inl MalformedJson
        | None \<Rightarrow> Inl (UnknownMessageType None))
    | _ \<Rightarrow> Inl MalformedJson)) test_documents"
  using assms unfolding reads_documents_def
  by (rule list.pred_mono_strong) (auto simp: decode_guyos_wire_v1_json_def split: json.split)

lemmas decode_test_defs = unknown_top_level_keys_ignored_on_dispatch_shapes_def
  attach_missing_key_invalid_attach_def publish_wrong_type_malformed_def unknown_message_type_variant_def
  seq_as_json_number_rejected_def seq_leading_zero_rejected_def malformed_json_not_object_def
  non_canonical_uuid_rejected_def error_details_must_be_object_def
  detach_tolerates_unknown_top_level_keys_def attach_wrong_field_kind_invalid_attach_def
  keepalive_tolerates_unknown_top_level_keys_def

lemma decode_tests_pass:
  assumes "reads_documents D" and "test_ids_ok D"
  shows "list_all (\<lambda>t. t = Some ()) (decode_tests D)"
proof -
  have "test_id_upper \<noteq> test_id_text" by (simp add: test_id_upper_def test_id_text_def)
  then show ?thesis
    using reads_document [OF assms(1)] assms(2)
    by (simp add: decode_tests_def decode_test_defs test_documents_def test_ids_ok_def decode_by_type_def
        decode_publish_def decode_publish_ack_def decode_attach_def decode_error_message_def
        decode_detach_def decode_keepalive_def attach_from_decoded_map_def require_attach_u31_def
        require_string_def require_seq_def parse_uuid_canonical_def seq_01 u32_try_from_u64_def U31_MAX_def)
qed

section \<open>Encoding tests\<close>

definition rt :: "'ts deps \<Rightarrow> 'ts guyos_wire_v1_message \<Rightarrow> unit option" where
  "rt D msg = do {
     enc \<leftarrow> unwrap (encode_guyos_wire_v1_json D msg);
     assert_that (CHR 0x0A \<notin> set enc \<and> CHR 0x0D \<notin> set enc);
     dec \<leftarrow> unwrap (decode_guyos_wire_v1_json D enc);
     assert_that (dec = msg) }"

definition test_ts_text :: string where
  "test_ts_text = ''2026-05-02T14:32:01.234Z''"

definition msg_attach :: "'ts guyos_wire_v1_message" where
  "msg_attach = MAttach \<lparr>att_protocol_major = 1, att_protocol_minor = 0, att_ticket = ''opaque''\<rparr>"

definition msg_attach_ack :: "u32 option \<Rightarrow> 'ts guyos_wire_v1_message" where
  "msg_attach_ack keepalive = MAttachAck \<lparr>ack_room_id = ''room-1'', ack_max_frame_bytes = 1048576,
     ack_max_message_bytes = 65536, ack_protocol_major = 1, ack_server_protocol_minor = 0,
     ack_keepalive_interval_seconds = keepalive\<rparr>"

definition msg_publish :: "uuid \<Rightarrow> string \<Rightarrow> 'ts guyos_wire_v1_message" where
  "msg_publish u t = MPublish \<lparr>pub_client_message_id = u, pub_text = t\<rparr>"

definition msg_publish_ack :: "u64 \<Rightarrow> uuid \<Rightarrow> 'ts option \<Rightarrow> 'ts guyos_wire_v1_message" where
  "msg_publish_ack seq u ts = MPublishAck \<lparr>pa_seq = seq, pa_client_message_id = u, pa_server_timestamp = ts\<rparr>"

definition msg_chat :: "uuid \<Rightarrow> 'ts \<Rightarrow> 'ts guyos_wire_v1_message" where
  "msg_chat u ts = MChatMessage \<lparr>cm_seq = 99, cm_client_message_id = u, cm_text = ''hello'',
     cm_sender_endpoint_id = Some ''ep1'', cm_server_timestamp = Some ts\<rparr>"

definition msg_error :: "'ts guyos_wire_v1_message" where
  "msg_error = MError \<lparr>err_code = ''invalid_attach'', err_message = ''bad'',
     err_details = Some [''k'' \<mapsto> JNumber (PosInt 1)]\<rparr>"

definition round_trip_attach :: "'ts deps \<Rightarrow> unit option" where
  "round_trip_attach D = rt D msg_attach"

definition round_trip_attach_ack_minimal :: "'ts deps \<Rightarrow> unit option" where
  "round_trip_attach_ack_minimal D = rt D (msg_attach_ack None)"

definition round_trip_attach_ack_with_keepalive :: "'ts deps \<Rightarrow> unit option" where
  "round_trip_attach_ack_with_keepalive D = rt D (msg_attach_ack (Some 30))"

definition round_trip_publish_empty_text :: "'ts deps \<Rightarrow> unit option" where
  "round_trip_publish_empty_text D = do {
     u \<leftarrow> uuid_parse_str D test_id_text;
     rt D (msg_publish u []) }"

definition round_trip_publish_ack_with_optional_ts :: "'ts deps \<Rightarrow> unit option" where
  "round_trip_publish_ack_with_optional_ts D = do {
     ts \<leftarrow> rfc3339_parse D test_ts_text;
     u \<leftarrow> uuid_parse_str D test_id_text;
     rt D (msg_publish_ack 42 u (Some ts)) }"

definition round_trip_chat_message_full_optionals :: "'ts deps \<Rightarrow> unit option" where
  "round_trip_chat_message_full_optionals D = do {
     ts \<leftarrow> rfc3339_parse D test_ts_text;
     u \<leftarrow> uuid_parse_str D test_id_text;
     rt D (msg_chat u ts) }"

definition round_trip_detach_keepalive_error :: "'ts deps \<Rightarrow> unit option" where
  "round_trip_detach_keepalive_error D = do { rt D MDetach; rt D MKeepalive; rt D msg_error }"

definition round_trip_seq_max_u64 :: "'ts deps \<Rightarrow> unit option" where
  \<open>round_trip_seq_max_u64 D = do {
     u \<leftarrow> uuid_parse_str D test_id_text;
     enc \<leftarrow> unwrap (encode_guyos_wire_v1_json D (msg_publish_ack (- 1) u None));
     assert_that (sublist ''"18446744073709551615"'' enc);
     dec \<leftarrow> unwrap (decode_guyos_wire_v1_json D enc);
     (case dec of MPublishAck p \<Rightarrow> assert_that (pa_seq p = - 1) | _ \<Rightarrow> None) }\<close>

definition encode_publish_rejects_oversized_text :: "'ts deps \<Rightarrow> unit option" where
  "encode_publish_rejects_oversized_text D = do {
     let t = replicate (MAX_MESSAGE_BYTES_ADR_V1 + 1) CHR ''x'';
     u \<leftarrow> uuid_parse_str D test_id_text;
     assert_that (is_err (\<lambda>e. case e of MessageTooLarge _ _ \<Rightarrow> True | _ \<Rightarrow> False)
       (encode_guyos_wire_v1_json D (msg_publish u t))) }"

definition encode_within_limits_rejects_oversized_json_body :: "'ts deps \<Rightarrow> unit option" where
  "encode_within_limits_rejects_oversized_json_body D = do {
     u \<leftarrow> uuid_parse_str D test_id_text;
     assert_that (is_err (\<lambda>e. case e of JsonBodyTooLarge _ _ \<Rightarrow> True | _ \<Rightarrow> False)
       (encode_guyos_wire_v1_json_within_limits D (msg_publish u ''ok'') 8 65536)) }"

definition oversized_publish_decodes_then_dispatch_emits_message_too_large :: "unit deps \<Rightarrow> unit option" where
  \<open>oversized_publish_decodes_then_dispatch_emits_message_too_large D = do {
     let t = replicate (MAX_MESSAGE_BYTES_ADR_V1 + 1) CHR ''x'';
     quoted \<leftarrow> serde_to_string D (JString t);
     let json = ''{"type":"publish","client_message_id":"550e8400-e29b-41d4-a716-446655440000","text":''
       @ quoted @ ''}'';
     msg \<leftarrow> unwrap (decode_guyos_wire_v1_json D json);
     let policy = test_attach_policy;
     let v = stub_verifier ''r'';
     let attach = attach_with 1 0 ''t'';
     let ledger = room_publish_state_default;
     (st, _, ledger) \<leftarrow> handles AwaitingAttach attach policy v ledger;
     (_, out, ledger) \<leftarrow> handles st msg policy v ledger;
     expect_error ''message_too_large'' out }\<close>

definition publish_handled_outbound_encodes_within_session_limits :: "unit deps \<Rightarrow> unit option" where
  "publish_handled_outbound_encodes_within_session_limits D = do {
     let policy = test_attach_policy;
     let v = stub_verifier ''room-a'';
     let ledger = room_publish_state_default;
     (st, _, ledger) \<leftarrow> handles AwaitingAttach (attach_with 1 0 ''t'') policy v ledger;
     (case st of
        AwaitingAttach \<Rightarrow> None
      | Attached _ max_frame_bytes max_message_bytes \<Rightarrow> do {
          u \<leftarrow> uuid_parse_str D test_id_text;
          (_, out, ledger) \<leftarrow> handles st (publish_with u ''hello'') policy v ledger;
          (case out of
             PublishHandled publisher_ack observer_chat \<Rightarrow> do {
               let pa = MPublishAck publisher_ack;
               unwrap (encode_guyos_wire_v1_json_within_limits D pa max_frame_bytes max_message_bytes);
               chat \<leftarrow> observer_chat;
               let chat = MChatMessage chat;
               unwrap (encode_guyos_wire_v1_json_within_limits D chat max_frame_bytes max_message_bytes);
               Some () }
           | _ \<Rightarrow> None) }) }"

definition framed_round_trip_with_fake_session :: "'ts deps \<Rightarrow> unit option" where
  "framed_round_trip_with_fake_session D = do {
     let (a, b) = paired [] [];
     u \<leftarrow> uuid_parse_str D test_id_text;
     let msg = msg_publish u ''hi'';
     body \<leftarrow> unwrap (encode_guyos_wire_v1_json D msg);
     let (r, a) = write_application_frame_inner a body;
     unwrap r;
     let (a, b) = deliver a b;
     (r, b) \<leftarrow> awaits_read b;
     got \<leftarrow> unwrap r;
     got \<leftarrow> got;
     decoded \<leftarrow> unwrap (decode_guyos_wire_v1_json D got);
     assert_that (decoded = msg);
     assert_that (got = body) }"

definition codec_round_trip_then_reference_ticket_accept :: "crypto \<Rightarrow> unit deps \<Rightarrow> unit option" where
  "codec_round_trip_then_reference_ticket_accept C D = do {
     let k_mac = replicate 32 9;
     let room_bytes = [0x55, 0x0e, 0x84, 0x00, 0xe2, 0x9b, 0x41, 0xd4,
       0xa7, 0x16, 0x44, 0x66, 0x55, 0x44, 0x00, 0x00];
     let ticket = encode_reference_v1 C k_mac room_bytes 0;
     let policy = test_attach_policy;
     let v = (\<lambda>ticket. decode_reference_v1 C ticket k_mac 0);
     json \<leftarrow> unwrap (encode_guyos_wire_v1_json D (attach_with 1 3 ticket));
     decoded \<leftarrow> unwrap (decode_guyos_wire_v1_json D json);
     let ledger = room_publish_state_default;
     (_, out, ledger) \<leftarrow> handles AwaitingAttach decoded policy v ledger;
     (case out of
        Reply (MAttachAck a) \<Rightarrow> do {
          assert_that (ack_room_id a = test_id_text);
          assert_that (ack_server_protocol_minor a = 3) }
      | _ \<Rightarrow> None) }"

section \<open>Tests of the hub's error frame\<close>

definition expect_error_body :: "string \<Rightarrow> 'ts deps \<Rightarrow> (guyos_wire_v1_session_error + string option) \<Rightarrow> unit option" where
  "expect_error_body code D r = do {
     body \<leftarrow> unwrap r;
     body \<leftarrow> body;
     m \<leftarrow> unwrap (decode_guyos_wire_v1_json D body);
     error_code_is code m }"

definition hub_best_effort_error_after_inbound_frame_too_large :: "'ts deps \<Rightarrow> unit option" where
  "hub_best_effort_error_after_inbound_frame_too_large D = do {
     let (client_wire, hub_side) = paired_with_max_frame_bytes [] [] 2048;
     let declared = 2049;
     let (r, client_wire) = send_raw_chunk client_wire (u32_to_be_bytes declared);
     unwrap r;
     let (client_wire, hub_side) = deliver client_wire hub_side;
     (r, hub_side) \<leftarrow> awaits_read hub_side;
     err \<leftarrow> unwrap_err r;
     assert_that (case err of FrameTooLarge _ _ \<Rightarrow> True | _ \<Rightarrow> False);
     let hub_side = hub_try_send_wire_error_for_session_read_failure D write_application_frame_inner hub_side err;
     let (hub_side, client_wire) = deliver hub_side client_wire;
     (r, client_wire) \<leftarrow> awaits_read client_wire;
     expect_error_body ''frame_too_large'' D r }"

definition hub_best_effort_error_after_inbound_invalid_utf8_payload :: "'ts deps \<Rightarrow> unit option" where
  "hub_best_effort_error_after_inbound_invalid_utf8_payload D = do {
     let (client_wire, hub_side) = paired_with_max_frame_bytes [] [] 2048;
     let declared = 2;
     let chunk = u32_to_be_bytes declared;
     let chunk = chunk @ [0xFF, 0xFE];
     let (r, client_wire) = send_raw_chunk client_wire chunk;
     unwrap r;
     let (client_wire, hub_side) = deliver client_wire hub_side;
     (r, hub_side) \<leftarrow> awaits_read hub_side;
     err \<leftarrow> unwrap_err r;
     assert_that (err = InvalidUtf8);
     let hub_side = hub_try_send_wire_error_for_session_read_failure D write_application_frame_inner hub_side err;
     let (hub_side, client_wire) = deliver hub_side client_wire;
     (r, client_wire) \<leftarrow> awaits_read client_wire;
     expect_error_body ''malformed_json'' D r }"

definition wire_error_body_skipped_for_unexpected_eof :: "'ts deps \<Rightarrow> unit option" where
  "wire_error_body_skipped_for_unexpected_eof D = do {
     assert_that (wire_error_json_body_for_session_read_failure D UnexpectedEof = None);
     let io_err = Io ''closed'';
     assert_that (wire_error_json_body_for_session_read_failure D io_err = None) }"

section \<open>The model passes them\<close>

text \<open>
  What the tests need of the JSON library for a value it writes: one line of UTF-8, of more than
  8 and at most 2048 octets here, that it reads back.
\<close>

definition writes_line :: "'ts deps \<Rightarrow> json \<Rightarrow> bool" where
  "writes_line D v \<longleftrightarrow> (case serde_to_string D v of
     None \<Rightarrow> False
   | Some s \<Rightarrow> 8 < length s \<and> length s \<le> 2048 \<and> CHR 0x0A \<notin> set s \<and> CHR 0x0D \<notin> set s \<and> utf8_string s
       \<and> serde_from_str D s = Some v)"

definition writes_message :: "'ts deps \<Rightarrow> 'ts guyos_wire_v1_message \<Rightarrow> bool" where
  "writes_message D msg \<longleftrightarrow> message_ok D msg
     \<and> (case encode_to_value_with_limits D msg 65536 of Inl _ \<Rightarrow> False | Inr v \<Rightarrow> writes_line D v)"

lemma writes_messageE:
  assumes "writes_message D msg"
  obtains v s where "encode_to_value_with_limits D msg 65536 = Inr v" "serde_to_string D v = Some s"
    "8 < length s" "length s \<le> 2048" "CHR 0x0A \<notin> set s" "CHR 0x0D \<notin> set s" "utf8_string s"
    "encode_guyos_wire_v1_json D msg = Inr s" "decode_guyos_wire_v1_json D s = Inr msg"
proof -
  from assms obtain v s where vs: "message_ok D msg" "encode_to_value_with_limits D msg 65536 = Inr v"
    "serde_to_string D v = Some s" "8 < length s" "length s \<le> 2048" "CHR 0x0A \<notin> set s" "CHR 0x0D \<notin> set s"
    "utf8_string s" "serde_from_str D s = Some v"
    by (auto simp: writes_message_def writes_line_def split: sum.splits option.splits)
  then have enc: "encode_guyos_wire_v1_json_within_limits D msg MAX_FRAME_BYTES_ADR_V1 65536 = Inr s"
    by (simp add: encode_within_limits_Inr_iff MAX_FRAME_BYTES_ADR_V1_def)
  from encode_decode_value [OF vs(2,1)] vs(9) have "decode_guyos_wire_v1_json D s = Inr msg"
    using decode_guyos_wire_v1_json_type by fastforce
  with that [OF vs(2-8)] enc show thesis
    by (simp add: encode_guyos_wire_v1_json_def MAX_MESSAGE_BYTES_ADR_V1_def)
qed

lemma rt_passes: "writes_message D msg \<Longrightarrow> rt D msg = Some ()"
  by (erule writes_messageE) (simp add: rt_def)

text \<open>The messages the tests encode, for a timestamp.\<close>

definition msg_frame_too_large :: "'ts guyos_wire_v1_message" where
  "msg_frame_too_large = MError \<lparr>err_code = ''frame_too_large'',
     err_message = ''Declared F1 payload length '' @ dec_of_nat (unat (2049 :: u32))
       @ '' exceeds max_frame_bytes limit '' @ dec_of_nat (unat (2048 :: u32)) @ ''.'', err_details = None\<rparr>"

definition msg_bad_utf8 :: "'ts guyos_wire_v1_message" where
  "msg_bad_utf8 = MError \<lparr>err_code = ''malformed_json'',
     err_message = ''F1 frame payload is not valid UTF-8.'', err_details = None\<rparr>"

definition round_trip_messages :: "'ts \<Rightarrow> 'ts guyos_wire_v1_message list" where
  "round_trip_messages ts = [msg_attach, msg_attach_ack None, msg_attach_ack (Some 30),
     msg_publish test_id [], msg_publish_ack 42 test_id (Some ts), msg_chat test_id ts, MDetach,
     MKeepalive, msg_error]"

lemma round_trip_tests_pass:
  assumes "test_ids_ok D" and "rfc3339_parse D test_ts_text = Some ts"
    and "list_all (writes_message D) (round_trip_messages ts)"
  shows "round_trip_attach D = Some ()" "round_trip_attach_ack_minimal D = Some ()"
    "round_trip_attach_ack_with_keepalive D = Some ()" "round_trip_publish_empty_text D = Some ()"
    "round_trip_publish_ack_with_optional_ts D = Some ()"
    "round_trip_chat_message_full_optionals D = Some ()" "round_trip_detach_keepalive_error D = Some ()"
  using assms
  by (simp_all add: round_trip_messages_def round_trip_attach_def round_trip_attach_ack_minimal_def
      round_trip_attach_ack_with_keepalive_def round_trip_publish_empty_text_def
      round_trip_publish_ack_with_optional_ts_def round_trip_chat_message_full_optionals_def
      round_trip_detach_keepalive_error_def rt_passes test_ids_ok_def)

lemma seq_max_test_passes:
  assumes "test_ids_ok D" and "writes_message D (msg_publish_ack (- 1) test_id None)"
    and \<open>\<And>v s. encode_to_value_with_limits D (msg_publish_ack (- 1) test_id None) 65536 = Inr v \<Longrightarrow>
      serde_to_string D v = Some s \<Longrightarrow> sublist ''"18446744073709551615"'' s\<close>
  shows "round_trip_seq_max_u64 D = Some ()"
  using assms(2)
proof (rule writes_messageE)
  fix v s
  assume v: "encode_to_value_with_limits D (msg_publish_ack (- 1) test_id None) 65536 = Inr v"
    "serde_to_string D v = Some s"
    and ed: "encode_guyos_wire_v1_json D (msg_publish_ack (- 1) test_id None) = Inr s"
      "decode_guyos_wire_v1_json D s = Inr (msg_publish_ack (- 1) test_id None)"
  from assms(3) [OF v] ed assms(1) show ?thesis
    by (simp add: round_trip_seq_max_u64_def test_ids_ok_def) (simp add: msg_publish_ack_def)
qed

lemma oversized_encode_tests_pass:
  assumes "test_ids_ok D" and "writes_message D (msg_publish test_id ''ok'')"
  shows "encode_publish_rejects_oversized_text D = Some ()"
    and "encode_within_limits_rejects_oversized_json_body D = Some ()"
proof -
  show "encode_publish_rejects_oversized_text D = Some ()"
    using assms(1)
    by (simp add: encode_publish_rejects_oversized_text_def test_ids_ok_def encode_guyos_wire_v1_json_def
        encode_guyos_wire_v1_json_within_limits_def msg_publish_def validate_text_len_eq
        MAX_MESSAGE_BYTES_ADR_V1_def del: replicate.simps)
  from assms(2) show "encode_within_limits_rejects_oversized_json_body D = Some ()"
    by (rule writes_messageE)
      (use assms(1) in \<open>simp add: encode_within_limits_rejects_oversized_json_body_def test_ids_ok_def
        encode_guyos_wire_v1_json_within_limits_def Let_def\<close>)
qed

lemma framed_test_passes:
  assumes "test_ids_ok D" and "writes_message D (msg_publish test_id ''hi'')"
  shows "framed_round_trip_with_fake_session D = Some ()"
  using assms(2)
proof (rule writes_messageE)
  fix s
  assume s: "length s \<le> 2048" "utf8_string s" "encode_guyos_wire_v1_json D (msg_publish test_id ''hi'') = Inr s"
    "decode_guyos_wire_v1_json D s = Inr (msg_publish test_id ''hi'')"
  let ?e = "fake_end MAX_FRAME_BYTES_ADR_V1 [] False"
  have pair: "paired [] [] = (?e, ?e)" by (simp add: paired_def paired_with_max_frame_bytes_def)
  have e: "clear MAX_FRAME_BYTES_ADR_V1 ?e" by (simp add: fake_end_def clear_def)
  from frame_passes [OF e e _ s(2)] s(1) obtain s1 s2 r1 r2 where
    "write_application_frame_inner ?e s = (Inr (), s1)" "deliver s1 ?e = (s2, r1)"
    "awaits_read r1 = Some (Inr (Some s), r2)"
    by (auto simp: MAX_FRAME_BYTES_ADR_V1_def)
  with pair s(3,4) assms(1) show ?thesis
    by (simp add: framed_round_trip_with_fake_session_def test_ids_ok_def)
qed

lemma handled_encodes_test_passes:
  assumes "test_ids_ok D" and "writes_message D (msg_publish_ack 0 test_id None)"
    and "writes_message D (MChatMessage \<lparr>cm_seq = 0, cm_client_message_id = test_id, cm_text = ''hello'',
      cm_sender_endpoint_id = None, cm_server_timestamp = None\<rparr>)" (is "writes_message D ?chat")
  shows "publish_handled_outbound_encodes_within_session_limits D = Some ()"
proof -
  have enc: "\<exists>s. encode_guyos_wire_v1_json_within_limits D m 1048576 65536 = Inr s" if "writes_message D m" for m
    using that by (rule writes_messageE) (simp add: encode_within_limits_Inr_iff)
  from enc [OF assms(2)] enc [OF assms(3)] obtain s s' where
    "encode_guyos_wire_v1_json_within_limits D (msg_publish_ack 0 test_id None) 1048576 65536 = Inr s"
    "encode_guyos_wire_v1_json_within_limits D ?chat 1048576 65536 = Inr s'" by blast
  with assms(1) show ?thesis
    by (simp add: publish_handled_outbound_encodes_within_session_limits_def test_ids_ok_def
        msg_publish_ack_def dispatch_test_defs)
qed

lemma oversized_dispatch_test_passes:
  assumes "test_ids_ok D" and "serde_to_string D (JString (replicate 65537 CHR ''x'')) = Some quoted"
    and \<open>serde_from_str D (''{"type":"publish","client_message_id":"550e8400-e29b-41d4-a716-446655440000","text":''
       @ quoted @ ''}'') = Some (JObject [''type'' \<mapsto> JString ''publish'',
         ''client_message_id'' \<mapsto> JString test_id_text, ''text'' \<mapsto> JString (replicate 65537 CHR ''x'')])\<close>
  shows "oversized_publish_decodes_then_dispatch_emits_message_too_large D = Some ()"
proof -
  have "decode_publish D [''type'' \<mapsto> JString ''publish'', ''client_message_id'' \<mapsto> JString test_id_text,
      ''text'' \<mapsto> JString (replicate 65537 CHR ''x'')]
    = Inr (publish_with test_id (replicate 65537 CHR ''x''))"
    using assms(1) by (simp add: decode_publish_def require_string_def parse_uuid_canonical_def test_ids_ok_def
        del: replicate.simps)
  with decode_guyos_wire_v1_json_type [OF assms(3), of "''publish''"]
  have "decode_guyos_wire_v1_json D (''{\"type\":\"publish\",\"client_message_id\":\"550e8400-e29b-41d4-a716-446655440000\",\"text\":''
       @ quoted @ ''}'') = Inr (publish_with test_id (replicate 65537 CHR ''x''))"
    by (simp add: decode_by_type_def del: replicate.simps)
  with assms(2) show ?thesis
    by (simp add: oversized_publish_decodes_then_dispatch_emits_message_too_large_def dispatch_test_defs
        MAX_MESSAGE_BYTES_ADR_V1_def del: replicate.simps)
qed

lemma ticket_test_passes:
  assumes "crypto_ok C" and "uuid_text C test_id = test_id_text"
    and "writes_message D (attach_with 1 3 (encode_reference_v1 C (replicate 32 9)
      [0x55, 0x0e, 0x84, 0x00, 0xe2, 0x9b, 0x41, 0xd4, 0xa7, 0x16, 0x44, 0x66, 0x55, 0x44, 0x00, 0x00] 0))"
  shows "codec_round_trip_then_reference_ticket_accept C D = Some ()"
proof -
  let ?room = "[0x55, 0x0e, 0x84, 0x00, 0xe2, 0x9b, 0x41, 0xd4, 0xa7, 0x16, 0x44, 0x66, 0x55, 0x44, 0x00, 0x00] :: bytes"
  let ?t = "encode_reference_v1 C (replicate 32 9) ?room 0"
  have "uuid_from_bytes ?room = test_id"
    by (simp add: uuid_from_bytes_def test_id_def)
  with assms(2) have "uuid_text C (uuid_from_bytes ?room) = test_id_text" by simp
  moreover have "length ?room = 16" by simp
  ultimately have "decode_reference_v1 C ?t (replicate 32 9) 0 = Inr test_id_text"
    using decode_reference_v1_Inr_iff [OF assms(1), of ?t "replicate 32 9" 0 test_id_text] by fastforce
  with assms(3) show ?thesis
    by (elim writes_messageE)
      (simp add: codec_round_trip_then_reference_ticket_accept_def dispatch_test_defs del: replicate.simps)
qed

text \<open>A frame with an error body from the hub's end to the client's.\<close>

lemma hub_error_passes:
  assumes "clear 2048 client" and "clear 2048 (hub\<lparr>fs_decoder := f1_new 2048\<rparr>)"
    and "wire_error_json_body_for_session_read_failure D err = Some s" and "length s \<le> 2048" and "utf8_string s"
  shows "\<exists>h c c'. deliver (hub_try_send_wire_error_for_session_read_failure D write_application_frame_inner hub err) client
      = (h, c) \<and> awaits_read c = Some (Inr (Some s), c')"
proof -
  let ?w = "u32_to_be_bytes (word_of_nat (length s)) @ as_bytes s"
  have w: "encode_application_frame s 2048 = Inr ?w" using assms(4) by (simp add: encode_application_frame_Inr_iff)
  have "write_application_frame_inner hub s = (Inr (), hub\<lparr>fs_tx := [?w]\<rparr>)"
    using assms(2) w by (simp add: write_application_frame_inner_def tx_send_def clear_def)
  moreover have "awaits_read (client\<lparr>fs_rx := [Some ?w]\<rparr>) = Some (Inr (Some s), client\<lparr>fs_rx := []\<rparr>)"
    using awaits_frame [of s "client\<lparr>fs_rx := [Some ?w]\<rparr>" ?w "[]"] assms(1,5) w
    by (simp add: clear_def f1_new_def)
  ultimately show ?thesis
    using assms(1,3) by (simp add: hub_try_send_wire_error_for_session_read_failure_def deliver_def clear_def)
qed

lemma awaits_failed_frame:
  assumes "fs_decoder s = f1_new l" and "fs_rx s = [Some c]" and "pop_complete_frame (f1_feed (f1_new l) c) = (Inl e, d)"
  shows "awaits_read s = Some (Inl e, s\<lparr>fs_decoder := d, fs_rx := []\<rparr>)"
proof -
  have "pop_complete_frame (f1_new l) = (Inr None, f1_new l)" by (rule pop_empty_buffer) (simp add: f1_new_def)
  then have "read_loop (fs_decoder s) (fs_rx s) = (Some (Inl e), d, [])"
    using assms by (simp add: read_loop.simps)
  then show ?thesis by (simp add: awaits_read_def read_application_frame_inner_def)
qed

lemma hub_after_bad_frame:
  assumes "pop_complete_frame (f1_feed (f1_new 2048) c) = (Inl err, d)"
    and "encode_guyos_wire_v1_json D msg = Inr s" and "decode_guyos_wire_v1_json D s = Inr msg"
    and "length s \<le> 2048" and "utf8_string s"
    and "wire_error_json_body_for_session_read_failure D err
      = (case encode_guyos_wire_v1_json D msg of Inl _ \<Rightarrow> None | Inr s \<Rightarrow> Some s)"
  shows "\<exists>client hub hub' h w w'.
    send_raw_chunk (fake_end 2048 [] False) c = (Inr (), client)
    \<and> deliver client (fake_end 2048 [] False) = (fake_end 2048 [] False, hub)
    \<and> awaits_read hub = Some (Inl err, hub')
    \<and> deliver (hub_try_send_wire_error_for_session_read_failure D write_application_frame_inner hub' err)
        (fake_end 2048 [] False) = (h, w)
    \<and> awaits_read w = Some (Inr (Some s), w')"
proof -
  let ?e = "fake_end 2048 [] False"
  let ?hub = "?e\<lparr>fs_rx := [Some c]\<rparr>"
  let ?hub' = "?hub\<lparr>fs_decoder := d, fs_rx := []\<rparr>"
  have e: "clear 2048 ?e" by (simp add: clear_def fake_end_def)
  have "send_raw_chunk ?e c = (Inr (), ?e\<lparr>fs_tx := [c]\<rparr>)"
    by (simp add: send_raw_chunk_def tx_send_def fake_end_def)
  moreover have "deliver (?e\<lparr>fs_tx := [c]\<rparr>) ?e = (?e, ?hub)" by (simp add: deliver_def fake_end_def)
  moreover have "awaits_read ?hub = Some (Inl err, ?hub')"
    by (rule awaits_failed_frame [OF _ _ assms(1)]) (simp_all add: fake_end_def)
  moreover have "\<exists>h w w'. deliver (hub_try_send_wire_error_for_session_read_failure D write_application_frame_inner ?hub' err) ?e
      = (h, w) \<and> awaits_read w = Some (Inr (Some s), w')"
    by (rule hub_error_passes [OF e]) (use assms in \<open>simp_all add: clear_def fake_end_def\<close>)
  ultimately show ?thesis by blast
qed

lemma hub_error_tests_pass:
  assumes "writes_message D msg_frame_too_large" and "writes_message D msg_bad_utf8"
  shows "hub_best_effort_error_after_inbound_frame_too_large D = Some ()"
    and "hub_best_effort_error_after_inbound_invalid_utf8_payload D = Some ()"
proof -
  let ?e = "fake_end 2048 [] False"
  have pair: "paired_with_max_frame_bytes [] [] 2048 = (?e, ?e)" by (simp add: paired_with_max_frame_bytes_def)
  from assms(1) show "hub_best_effort_error_after_inbound_frame_too_large D = Some ()"
  proof (rule writes_messageE)
    fix s
    assume s: "length s \<le> 2048" "utf8_string s" "encode_guyos_wire_v1_json D msg_frame_too_large = Inr s"
      "decode_guyos_wire_v1_json D s = Inr msg_frame_too_large"
    let ?c = "u32_to_be_bytes 2049"
    have "pop_complete_frame (f1_feed (f1_new 2048) ?c) = (Inl (FrameTooLarge 2049 2048), f1_feed (f1_new 2048) ?c)"
      by (simp add: pop_complete_frame_def f1_new_def Let_def)
    from hub_after_bad_frame [OF this s(3,4,1,2)] obtain client hub hub' h w w' where
      "send_raw_chunk ?e ?c = (Inr (), client)" "deliver client ?e = (?e, hub)"
      "awaits_read hub = Some (Inl (FrameTooLarge 2049 2048), hub')"
      "deliver (hub_try_send_wire_error_for_session_read_failure D write_application_frame_inner hub'
          (FrameTooLarge 2049 2048)) ?e = (h, w)"
      "awaits_read w = Some (Inr (Some s), w')"
      by (auto simp: msg_frame_too_large_def)
    with pair s(4) show ?thesis
      by (simp add: hub_best_effort_error_after_inbound_frame_too_large_def expect_error_body_def
          error_code_is_def msg_frame_too_large_def)
  qed
  from assms(2) show "hub_best_effort_error_after_inbound_invalid_utf8_payload D = Some ()"
  proof (rule writes_messageE)
    fix s
    assume s: "length s \<le> 2048" "utf8_string s" "encode_guyos_wire_v1_json D msg_bad_utf8 = Inr s"
      "decode_guyos_wire_v1_json D s = Inr msg_bad_utf8"
    let ?c = "u32_to_be_bytes 2 @ [0xFF, 0xFE]"
    have "\<not> utf8_valid [0xFF, 0xFE]" by (simp add: utf8_valid.simps [of "[0xFF, 0xFE]"] utf8_step_def)
    then obtain d where "pop_complete_frame (f1_feed (f1_new 2048) ?c) = (Inl InvalidUtf8, d)"
      by (simp add: pop_complete_frame_def f1_new_def Let_def from_utf8_def usize_saturating_add_def)
    from hub_after_bad_frame [OF this s(3,4,1,2)] obtain client hub hub' h w w' where
      "send_raw_chunk ?e ?c = (Inr (), client)" "deliver client ?e = (?e, hub)"
      "awaits_read hub = Some (Inl InvalidUtf8, hub')"
      "deliver (hub_try_send_wire_error_for_session_read_failure D write_application_frame_inner hub' InvalidUtf8) ?e
        = (h, w)"
      "awaits_read w = Some (Inr (Some s), w')"
      by (auto simp: msg_bad_utf8_def)
    with pair s(4) show ?thesis
      by (simp add: hub_best_effort_error_after_inbound_invalid_utf8_payload_def expect_error_body_def
          error_code_is_def msg_bad_utf8_def)
  qed
qed

lemma no_error_body_test_passes: "wire_error_body_skipped_for_unexpected_eof D = Some ()"
  by (simp add: wire_error_body_skipped_for_unexpected_eof_def)

end
