(* ===== verification/Client_Tests.thy ===== *)
theory Client_Tests
  imports Llm_Relay Reference_Ticket Test_Support
begin

text \<open>
  The unit tests of the chat service (\<^verbatim>\<open>guyos_core/src/application/client_chat_service.rs\<close>), of the
  model client's event stream (\<^verbatim>\<open>guyos_core/src/llm.rs\<close>) and of the ticket prefix
  (\<^verbatim>\<open>guyos_core/src/domain/reference_ticket_v1.rs\<close>) run on the model. A sleep of a test that lets
  the spawned join run is the step that runs it.
\<close>

section \<open>Chat service tests\<close>

definition fake_backend_join_and_send_roundtrip :: "unit option" where
  "fake_backend_join_and_send_roundtrip = do {
     let service = client_chat_service_new fake_new (Some ''alice'') 100;
     (r, service) \<leftarrow> service_join fake_relay () ''not-empty-ticket'' service;
     unwrap r;
     assert_that (fake_joined (svc_backend service));
     (r, service) \<leftarrow> service_send fake_relay () ''hello'' service;
     unwrap r;
     assert_that (last_send (svc_backend service) = Some ''hello'');
     (msg, service) \<leftarrow> service_next_message service;
     assert_that (chat_text msg = ''hello'') }"

definition fake_backend_open_spawns_finish_path :: "unit option" where
  "fake_backend_open_spawns_finish_path = do {
     let service = client_chat_service_new fake_new None 100;
     (r, service) \<leftarrow> service_open fake_relay () service;
     ticket \<leftarrow> unwrap r;
     assert_that (ticket = ''fake-open-ticket'');
     assert_that (0 < svc_spawned service);
     service \<leftarrow> service_finish fake_relay () service;
     assert_that (fake_joined (svc_backend service)) }"

section \<open>Event stream tests\<close>

function parse_all_events :: "parse_chunk \<Rightarrow> bytes \<Rightarrow> chat_completions_stream_event list" where
  "parse_all_events parse buf =
     (case try_parse_one_sse_event parse buf of
        (None, _) \<Rightarrow> []
      | (Some (Inr (DeltaText [])), buf') \<Rightarrow> parse_all_events parse buf'
      | (Some (Inr e), buf') \<Rightarrow> e # parse_all_events parse buf'
      | (Some (Inl _), _) \<Rightarrow> [])"
  by pat_completeness auto
termination
  by (relation "measure (length \<circ> snd)") (auto dest: try_parse_shrinks [OF sym])

declare parse_all_events.simps [simp del]

definition data_line :: "string \<Rightarrow> string \<Rightarrow> bytes" where
  "data_line s newline = as_bytes (''data: '' @ s) @ as_bytes (newline @ newline)"

definition delta_doc :: "string \<Rightarrow> string" where
  \<open>delta_doc s = ''{"choices":[{"delta":{"content":"'' @ s @ ''"}}]}''\<close>

definition sse_parses_delta_and_done :: "parse_chunk \<Rightarrow> unit option" where
  "sse_parses_delta_and_done parse = do {
     let payload = data_line (delta_doc ''Hel'') [LF] @ data_line (delta_doc ''lo'') [LF] @ data_line ''[DONE]'' [LF];
     let events = parse_all_events parse payload;
     assert_that (case events of [DeltaText a, DeltaText b, Done] \<Rightarrow> a = ''Hel'' \<and> b = ''lo'' | _ \<Rightarrow> False) }"

definition sse_tolerates_crlf_delimiters :: "parse_chunk \<Rightarrow> unit option" where
  "sse_tolerates_crlf_delimiters parse = do {
     let payload = data_line (delta_doc ''Hi'') [CR, LF] @ data_line ''[DONE]'' [CR, LF];
     let events = parse_all_events parse payload;
     assert_that (case events of [DeltaText a, Done] \<Rightarrow> a = ''Hi'' | _ \<Rightarrow> False) }"

section \<open>Plain response test\<close>

definition doc_response :: string where
  \<open>doc_response = ''{'' @ [LF] @ ''          "choices": ['' @ [LF]
     @ ''            { "message": { "content": "Hello!" } }'' @ [LF] @ ''          ]'' @ [LF] @ ''        }''\<close>

definition non_stream_response_parses_first_choice_message_content ::
    "(string \<Rightarrow> string + chat_completions_response) \<Rightarrow> unit option" where
  "non_stream_response_parses_first_choice_message_content parse = do {
     let payload = doc_response;
     parsed \<leftarrow> unwrap (parse payload);
     c \<leftarrow> (case resp_choices parsed of [] \<Rightarrow> None | c # _ \<Rightarrow> Some c);
     assert_that (rmsg_content (rchoice_message c) = ''Hello!'') }"

section \<open>Ticket prefix test\<close>

definition prefix_is_16_octets :: "unit option" where
  "prefix_is_16_octets = do {
     assert_that (length PREFIX = 16);
     assert_that (take 15 PREFIX = as_bytes ''guyos-ticket-v1'');
     assert_that (PREFIX ! 15 = 0) }"

section \<open>The model passes them\<close>

lemma service_tests_pass:
  "fake_backend_join_and_send_roundtrip = Some ()" "fake_backend_open_spawns_finish_path = Some ()"
  by (simp_all add: fake_backend_join_and_send_roundtrip_def fake_backend_open_spawns_finish_path_def
      client_chat_service_new_def service_join_def service_send_def service_open_def service_finish_def
      service_next_message_def after_call_def fake_relay_defs fake_new_def Let_def)

lemma prefix_test_passes: "prefix_is_16_octets = Some ()"
  by (simp add: prefix_is_16_octets_def PREFIX_def as_bytes_def)

lemma response_test_passes:
  assumes "parse doc_response = Inr \<lparr>resp_choices = [\<lparr>rchoice_message = \<lparr>rmsg_content = ''Hello!''\<rparr>\<rparr>]\<rparr>"
  shows "non_stream_response_parses_first_choice_message_content parse = Some ()"
  using assms by (simp add: non_stream_response_parses_first_choice_message_content_def)

definition text_chunk :: "string \<Rightarrow> chat_completions_chunk" where
  "text_chunk s = \<lparr>chunk_choices = [\<lparr>choice_delta = \<lparr>delta_content = Some s\<rparr>\<rparr>]\<rparr>"

lemma line_ends: "as_bytes ([LF] @ [LF]) \<in> blank_lines" "as_bytes ([CR, LF] @ [CR, LF]) \<in> blank_lines"
  by (simp_all add: blank_lines_def as_bytes_def byte_of_char_def)

lemma parse_all_steps:
  "try_parse_one_sse_event parse buf = (Some (Inr (DeltaText s)), buf') \<Longrightarrow> s \<noteq> [] \<Longrightarrow>
     parse_all_events parse buf = DeltaText s # parse_all_events parse buf'"
  "try_parse_one_sse_event parse buf = (Some (Inr Done), buf') \<Longrightarrow>
     parse_all_events parse buf = Done # parse_all_events parse buf'"
  "parse_all_events parse [] = []"
  by (cases s; simp add: parse_all_events.simps [of parse buf])
    (simp_all add: parse_all_events.simps [of parse buf] parse_all_events.simps [of parse "[]"]
      try_parse_one_sse_event_def find_event_delimiter_def find_event_delimiter_from.simps)

lemma parse_all_delta:
  assumes "parse (delta_doc s) = Inr (text_chunk s)" and "s \<noteq> []"
    and "\<forall>c \<in> set s. 32 \<le> char_code c \<and> char_code c < 127" and "as_bytes (nl @ nl) \<in> blank_lines"
  shows "parse_all_events parse (data_line (delta_doc s) nl @ rest) = DeltaText s # parse_all_events parse rest"
proof -
  have "try_parse_one_sse_event parse (as_bytes (''data: '' @ delta_doc s) @ as_bytes (nl @ nl) @ rest)
      = (Some (Inr (DeltaText s)), rest)"
    using sse_data_event [of "delta_doc s" "as_bytes (nl @ nl)" parse rest] assms
    by (auto simp: delta_doc_def text_chunk_def)
  from parse_all_steps(1) [OF this assms(2)] show ?thesis by (simp add: data_line_def)
qed

lemma parse_all_done:
  assumes "as_bytes (nl @ nl) \<in> blank_lines"
  shows "parse_all_events parse (data_line ''[DONE]'' nl) = [Done]"
proof -
  have "try_parse_one_sse_event parse (as_bytes (''data: '' @ ''[DONE]'') @ as_bytes (nl @ nl) @ []) = (Some (Inr Done), [])"
    using sse_data_event [of "''[DONE]''" "as_bytes (nl @ nl)" parse "[]"] assms by simp
  from parse_all_steps(2) [OF this] show ?thesis by (simp add: data_line_def parse_all_steps(3))
qed

lemma sse_tests_pass:
  assumes "\<And>s. s \<in> {''Hel'', ''lo'', ''Hi''} \<Longrightarrow> parse (delta_doc s) = Inr (text_chunk s)"
  shows "sse_parses_delta_and_done parse = Some ()" "sse_tolerates_crlf_delimiters parse = Some ()"
  using parse_all_delta [of parse _ "[LF]"] parse_all_delta [of parse _ "[CR, LF]"] assms line_ends
  by (simp_all add: sse_parses_delta_and_done_def sse_tolerates_crlf_delimiters_def parse_all_done)

end
