(* ===== verification/Crate_Tests.thy ===== *)
theory Crate_Tests
  imports Wire_Tests Client_Tests Standard_Wire
begin

text \<open>
  All unit tests of the crate on the model with the standard algorithms in place of the third-party
  crates: JSON (RFC 8259), UUID text (RFC 4122), timestamps (RFC 3339) and the cryptography of
  \<^verbatim>\<open>Standard_Crypto\<close>. The documents the tests parse are parsed, and what they encode is printed and
  parsed again, by the definitions of \<^verbatim>\<open>Standard_Json\<close>.
\<close>

section \<open>The documents of the tests\<close>

lemmas parse_defs = json_parse_def skip_space_def json_space_def string_literal_def simple_escape_def
  parse_number_def parse_digits_def number_goes_on_def is_ascii_digit_def

lemma documents_parsed: "list_all (\<lambda>(s, v). json_parse s = Some v) test_documents"
  by (simp add: test_documents_def parse_defs doc_defs test_id_text_def test_id_upper_def nat_of_dec_def digit_val_def)

lemma standard_reads_documents: "reads_documents (standard_deps fmt prs)"
  using documents_parsed by (simp add: reads_documents_def)

lemma standard_test_ids: "test_ids_ok (standard_deps fmt prs)"
proof -
  have "parse_hyphenated test_id_text = Some test_id" "parse_hyphenated test_id_upper = Some test_id"
    by (simp_all add: parse_hyphenated_def test_id_text_def test_id_upper_def test_id_def to_ascii_lowercase_def
        ascii_lower_def hex_value_def)
  moreover have "hyphenated test_id = test_id_text"
    by (simp add: hyphenated_def test_id_def test_id_text_def be_of_nat_numeral hex_def hex_digit_def char_of_eq_iff Let_def)
  ultimately show ?thesis by (simp add: test_ids_ok_def)
qed

definition test_ts :: timestamp where
  "test_ts = \<lparr>ts_year = 2026, ts_month = 5, ts_day = 2, ts_hour = 14, ts_minute = 32, ts_second = 1, ts_nano = 234000000,
     ts_offset = 0\<rparr>"

lemma test_ts_text: "format_timestamp test_ts = Some test_ts_text" "parse_timestamp test_ts_text = Some test_ts"
proof -
  show "format_timestamp test_ts = Some test_ts_text"
    by (simp add: format_timestamp_def test_ts_def timestamp_valid_def days_in_month_def test_ts_text_def dec_fixed_numeral
        digit_char_def char_of_eq_iff eq_commute [of "CHR ''0''"] format_fraction_def format_offset_def)
  then show "parse_timestamp test_ts_text = Some test_ts" by (rule parse_format_timestamp)
qed


section \<open>The messages of the tests\<close>

lemma length_commas_member: "x \<in> set ts \<Longrightarrow> length x \<le> length (commas ts)"
  by (induction ts rule: commas.induct) auto

lemma typed_object_length:
  assumes "json_print (JObject m) = Some t" and "m ''type'' \<noteq> None"
  shows "8 < length t"
proof -
  from assms(1) have "print_members (\<lambda>k. map_option json_print (m k)) = Some t" by simp
  then show ?thesis
  proof (rule print_members_Some)
    let ?g = "\<lambda>k. the (json_print (the (m k)))"
    assume fin: "finite (dom m)"
      and vals: "\<And>k. k \<in> dom m \<Longrightarrow> utf8_string k \<and> json_print (the (m k)) = Some (?g k)"
      and t: "t = ''{'' @ commas (map (\<lambda>k. json_quote k @ '':'' @ ?g k) (sorted_list_of_set (dom m))) @ ''}''"
    from assms(2) have k: "''type'' \<in> dom m" by auto
    with fin have "length (json_quote ''type'' @ '':'' @ ?g ''type'')
        \<le> length (commas (map (\<lambda>k. json_quote k @ '':'' @ ?g k) (sorted_list_of_set (dom m))))"
      by (intro length_commas_member) simp
    moreover have "?g ''type'' \<noteq> []" using json_print_start vals [OF k] by blast
    then have "0 < length (?g ''type'')" by blast
    moreover have "length (json_quote ''type'') = 6" by (simp add: json_quote_def json_escape_def escape_char_def)
    ultimately show ?thesis by (simp add: t)
  qed
qed

text \<open>A message is written and read back when its object is printed in at most 2048 octets.\<close>

lemma standard_writes:
  assumes "message_ok (standard_deps fmt prs) msg"
    and "encode_to_value_with_limits (standard_deps fmt prs) msg 65536 = Inr (JObject m)"
    and "json_print (JObject m) = Some t" and "length t \<le> 2048"
  shows "writes_message (standard_deps fmt prs) msg"
proof -
  have "8 < length t"
    using typed_object_length [OF assms(3)] encode_decode_value [OF assms(2,1)] by auto
  moreover note json_parse_print [OF assms(3)]
  moreover from json_print_line [OF assms(3)] have "CHR 0x0A \<notin> set t" "CHR 0x0D \<notin> set t" "utf8_string t"
    by (auto simp: text_line_def)
  ultimately show ?thesis
    using assms by (simp add: writes_message_def writes_line_def del: json_print.simps)
qed

lemma standard_writes_flat:
  assumes "message_ok (standard_deps fmt prs) msg"
    and "encode_to_value_with_limits (standard_deps fmt prs) msg 65536 = Inr (JObject m)"
    and "flat_object m" and "flat_size m \<le> 2048"
  shows "writes_message (standard_deps fmt prs) msg"
proof -
  from flat_object_print [OF assms(3)] obtain t where "json_print (JObject m) = Some t" "length t \<le> flat_size m" by blast
  with standard_writes [OF assms(1,2)] assms(4) show ?thesis by force
qed

lemma standard_flat_message:
  assumes "message_flat msg" and "\<And>t. message_text msg = Some t \<Longrightarrow> length t \<le> 65536" and "message_bound msg \<le> 2048"
  shows "writes_message (standard_deps fmt prs) msg"
  using standard.flat_message_value [OF assms(1), of 65536] assms(2,3)
    standard_writes_flat [OF standard.flat_message_ok [OF assms(1)]]
  by force

lemma flat_test_messages:
  "list_all (writes_message (standard_deps fmt prs)) [msg_attach, msg_attach_ack None, msg_attach_ack (Some 30),
     msg_publish test_id [], msg_publish test_id ''hi'', msg_publish test_id ''ok'', msg_publish_ack 0 test_id None,
     msg_publish_ack (- 1) test_id None, MChatMessage \<lparr>cm_seq = 0, cm_client_message_id = test_id, cm_text = ''hello'',
       cm_sender_endpoint_id = None, cm_server_timestamp = None\<rparr>, MDetach, MKeepalive]"
  by (simp add: list_all_iff) (intro conjI;
    rule standard_flat_message; simp add: msg_attach_def msg_attach_ack_def msg_publish_def
      msg_publish_ack_def utf8_string_ascii U31_MAX_def attach_in_range_def)

lemma timestamp_flat: "format_timestamp test_ts = Some test_ts_text" "utf8_string test_ts_text" "length test_ts_text = 24"
  by (simp add: test_ts_text) (simp_all add: test_ts_text_def utf8_string_ascii)

lemma hyphenated_flat: "utf8_string (hyphenated u)" "length (hyphenated u) = 36"
  by (simp_all add: utf8_hyphenated length_hyphenated)

lemma timed_test_messages:
  "writes_message rfc3339_deps (msg_publish_ack 42 test_id (Some test_ts))"
  "writes_message rfc3339_deps (msg_chat test_id test_ts)"
proof -
  let ?D = "standard_deps format_timestamp parse_timestamp"
  have ts: "timestamp_ok ?D test_ts"
    by (simp add: timestamp_ok_def test_ts_text)
  note ok = standard.ids_ok [of format_timestamp parse_timestamp test_id]
  note sizes = length_u64_text [of 42] length_u64_text [of 99]
  show "writes_message rfc3339_deps (msg_publish_ack 42 test_id (Some test_ts))"
    unfolding rfc3339_deps_def
  proof (rule standard_writes_flat)
    show "message_ok ?D (msg_publish_ack 42 test_id (Some test_ts))" using ok ts by (simp add: msg_publish_ack_def)
    show "encode_to_value_with_limits ?D (msg_publish_ack 42 test_id (Some test_ts)) 65536
      = Inr (JObject [''type'' \<mapsto> JString ''publish_ack'', ''client_message_id'' \<mapsto> JString (hyphenated test_id),
         ''seq'' \<mapsto> JString (u64_to_string 42), ''server_timestamp'' \<mapsto> JString test_ts_text])"
      by (simp add: msg_publish_ack_def format_rfc3339_ts_def timestamp_flat uuid_wire_string_def seq_to_wire_def)
  qed (use sizes in \<open>simp_all add: flat_object_upd flat_size_upd flat_member_def utf8_string_ascii hyphenated_flat
      timestamp_flat u64_to_string_def\<close>)
  show "writes_message rfc3339_deps (msg_chat test_id test_ts)"
    unfolding rfc3339_deps_def
  proof (rule standard_writes_flat)
    show "message_ok ?D (msg_chat test_id test_ts)" using ok ts by (simp add: msg_chat_def)
    show "encode_to_value_with_limits ?D (msg_chat test_id test_ts) 65536
      = Inr (JObject [''type'' \<mapsto> JString ''chat_message'', ''seq'' \<mapsto> JString (u64_to_string 99),
         ''client_message_id'' \<mapsto> JString (hyphenated test_id), ''text'' \<mapsto> JString ''hello'',
         ''sender_endpoint_id'' \<mapsto> JString ''ep1'', ''server_timestamp'' \<mapsto> JString test_ts_text])"
      by (simp add: msg_chat_def format_rfc3339_ts_def timestamp_flat uuid_wire_string_def seq_to_wire_def
          validate_text_len_eq)
  qed (use sizes in \<open>simp_all add: flat_object_upd flat_size_upd flat_member_def utf8_string_ascii hyphenated_flat
      timestamp_flat u64_to_string_def\<close>)
qed

text \<open>The error messages, whose body is an object of its own.\<close>

lemma ascii_keys: "list_all utf8_string [''code'', ''message'']" "list_all utf8_string [''error'', ''type'']"
  "list_all utf8_string [''code'', ''details'', ''message'']" "utf8_string ''k''"
  by (simp_all add: utf8_string_ascii)

lemma print_error_object:
  assumes "json_print (JObject body) = Some u" and "length u \<le> 2000"
  shows "\<exists>t. json_print (JObject [''type'' \<mapsto> JString ''error'', ''error'' \<mapsto> JObject body]) = Some t \<and> length t \<le> 2048"
proof -
  let ?m = "[''type'' \<mapsto> JString ''error'', ''error'' \<mapsto> JObject body]"
  have "json_print (JObject ?m)
      = Some (''{'' @ commas (map2 (\<lambda>k t. json_quote k @ '':'' @ t) [''error'', ''type''] [u, json_quote ''error'']) @ ''}'')"
    by (rule json_print_object) (use assms(1) in \<open>auto simp: ascii_keys utf8_string_ascii simp del: json_print.simps(6)\<close>)
  with assms(2) show ?thesis by (simp add: json_quote_def json_escape_def escape_char_def)
qed

lemma print_error_body:
  assumes "utf8_string s" and "utf8_string t" and "length s + length t \<le> 200"
  shows "\<exists>u. json_print (JObject [''code'' \<mapsto> JString s, ''message'' \<mapsto> JString t]) = Some u \<and> length u \<le> 2000"
    and "\<exists>u. json_print (JObject [''code'' \<mapsto> JString s, ''message'' \<mapsto> JString t,
      ''details'' \<mapsto> JObject [''k'' \<mapsto> JNumber (PosInt 1)]]) = Some u \<and> length u \<le> 2000"
proof -
  have len: "length (json_quote s) + length (json_quote t) \<le> 1300"
    using assms(3) length_json_escape(2) [of s] length_json_escape(2) [of t] by (simp add: json_quote_def)
  have "json_print (JObject [''code'' \<mapsto> JString s, ''message'' \<mapsto> JString t])
      = Some (''{'' @ commas (map2 (\<lambda>k t. json_quote k @ '':'' @ t) [''code'', ''message''] [json_quote s, json_quote t]) @ ''}'')"
    by (rule json_print_object) (use assms in \<open>auto simp: utf8_string_ascii\<close>)
  with len show "\<exists>u. json_print (JObject [''code'' \<mapsto> JString s, ''message'' \<mapsto> JString t]) = Some u \<and> length u \<le> 2000"
    by (simp add: json_quote_def json_escape_def escape_char_def)
  have one: "dec_of_nat (Suc 0) = ''1''"
    by (subst dec_of_nat.simps) (simp add: digit_char_def char_of_eq_iff)
  have "json_print (JObject [''k'' \<mapsto> JNumber (PosInt 1)])
      = Some (''{'' @ commas (map2 (\<lambda>k t. json_quote k @ '':'' @ t) [''k''] [''1'']) @ ''}'')"
    by (rule json_print_object) (simp_all add: ascii_keys one)
  then obtain d where d: "json_print (JObject [''k'' \<mapsto> JNumber (PosInt 1)]) = Some d" "length d = 7"
    by (simp add: json_quote_def json_escape_def escape_char_def)
  have "json_print (JObject [''code'' \<mapsto> JString s, ''message'' \<mapsto> JString t, ''details'' \<mapsto> JObject [''k'' \<mapsto> JNumber (PosInt 1)]])
      = Some (''{'' @ commas (map2 (\<lambda>k t. json_quote k @ '':'' @ t) [''code'', ''details'', ''message'']
          [json_quote s, d, json_quote t]) @ ''}'')"
    by (rule json_print_object) (use assms d(1) in \<open>auto simp: utf8_string_ascii simp del: json_print.simps(6)\<close>)
  with len d(2) show "\<exists>u. json_print (JObject [''code'' \<mapsto> JString s, ''message'' \<mapsto> JString t,
      ''details'' \<mapsto> JObject [''k'' \<mapsto> JNumber (PosInt 1)]]) = Some u \<and> length u \<le> 2000"
    by (simp add: json_quote_def json_escape_def escape_char_def)
qed

lemma error_message_writes:
  assumes "json_print (JObject (case err_details e of None \<Rightarrow> [''code'' \<mapsto> JString (err_code e), ''message'' \<mapsto> JString (err_message e)]
      | Some d \<Rightarrow> [''code'' \<mapsto> JString (err_code e), ''message'' \<mapsto> JString (err_message e), ''details'' \<mapsto> JObject d])) = Some u"
    and "length u \<le> 2000"
  shows "writes_message (standard_deps fmt prs) (MError e)"
proof -
  from print_error_object [OF assms] obtain t where t: "json_print (JObject [''type'' \<mapsto> JString ''error'',
      ''error'' \<mapsto> JObject (case err_details e of None \<Rightarrow> [''code'' \<mapsto> JString (err_code e), ''message'' \<mapsto> JString (err_message e)]
      | Some d \<Rightarrow> [''code'' \<mapsto> JString (err_code e), ''message'' \<mapsto> JString (err_message e), ''details'' \<mapsto> JObject d])])
    = Some t" "length t \<le> 2048" by blast
  show ?thesis by (rule standard_writes [OF _ _ t]) (simp_all add: Let_def)
qed

lemma error_test_messages:
  "list_all (writes_message (standard_deps fmt prs)) [msg_error, msg_frame_too_large, msg_bad_utf8]"
proof -
  have digits: "dec_of_nat 2049 = ''2049''" "dec_of_nat 2048 = ''2048''"
    by (simp_all add: dec_of_nat.simps digit_char_def char_of_eq_iff)
  have "writes_message (standard_deps fmt prs) msg_error"
    unfolding msg_error_def
    using print_error_body(2) [of "''invalid_attach''" "''bad''"] by (auto simp: utf8_string_ascii intro: error_message_writes)
  moreover have "writes_message (standard_deps fmt prs) msg_frame_too_large"
    unfolding msg_frame_too_large_def
    using print_error_body(1) [of "''frame_too_large''" "''Declared F1 payload length 2049 exceeds max_frame_bytes limit 2048.''"]
    by (auto simp: utf8_string_ascii digits intro: error_message_writes)
  moreover have "writes_message (standard_deps fmt prs) msg_bad_utf8"
    unfolding msg_bad_utf8_def
    using print_error_body(1) [of "''malformed_json''" "''F1 frame payload is not valid UTF-8.''"]
    by (auto simp: utf8_string_ascii intro: error_message_writes)
  ultimately show ?thesis by simp
qed

lemma test_messages:
  "list_all (writes_message rfc3339_deps) (round_trip_messages test_ts)"
  "list_all (writes_message rfc3339_deps) [msg_frame_too_large, msg_bad_utf8]"
  using flat_test_messages [of format_timestamp parse_timestamp] error_test_messages [of format_timestamp parse_timestamp]
    timed_test_messages
  by (simp_all add: round_trip_messages_def rfc3339_deps_def)

section \<open>Sequence numbers and oversized text\<close>

lemma sublist_after: "sublist x zs \<Longrightarrow> sublist x (ys @ zs)" "sublist x zs \<Longrightarrow> sublist x (z # zs)"
  by (erule sublist_order.order_trans, rule sublist_append_leftI) (simp add: sublist_Cons_right)

lemma sublist_commas: "x \<in> set ts \<Longrightarrow> sublist x (commas ts)"
proof (induction ts rule: commas.induct)
  case (3 y z ts)
  then show ?case
    by (auto intro: sublist_after)
qed auto

lemma standard_seq_max:
  assumes "encode_to_value_with_limits (standard_deps fmt prs) (msg_publish_ack (- 1) test_id None) 65536 = Inr v"
    and "json_print v = Some s"
  shows \<open>sublist ''"18446744073709551615"'' s\<close>
proof -
  let ?m = "[''type'' \<mapsto> JString ''publish_ack'', ''client_message_id'' \<mapsto> JString (hyphenated test_id),
    ''seq'' \<mapsto> JString ''18446744073709551615'']"
  have "unat (- 1 :: u64) = 18446744073709551615" by (simp add: unsigned_minus_1_eq_mask mask_eq_exp_minus_1)
  moreover have "dec_of_nat 18446744073709551615 = ''18446744073709551615''"
    by (simp add: dec_of_nat.simps digit_char_def char_of_eq_iff)
  ultimately have "dec_of_nat (unat (- 1 :: u64)) = ''18446744073709551615''" by (simp only:)
  with assms(1) have v: "v = JObject ?m"
    by (simp add: msg_publish_ack_def seq_to_wire_def u64_to_string_def uuid_wire_string_def)
  let ?ts = "map2 (\<lambda>k t. json_quote k @ '':'' @ t) [''client_message_id'', ''seq'', ''type'']
    [json_quote (hyphenated test_id), json_quote ''18446744073709551615'', json_quote ''publish_ack'']"
  have "json_print (JObject ?m) = Some (''{'' @ commas ?ts @ ''}'')"
    by (rule json_print_object) (auto simp: utf8_string_ascii hyphenated_flat)
  with assms(2) v have s: "s = ''{'' @ commas ?ts @ ''}''" by (simp del: json_print.simps(6))
  have "sublist (json_quote ''18446744073709551615'') (?ts ! 1)"
    by (simp add: sublist_after del: sublist_append_leftI) 
  moreover have "sublist (?ts ! 1) (commas ?ts)" by (rule sublist_commas) simp
  ultimately have "sublist (json_quote ''18446744073709551615'') (commas ?ts)" using sublist_order.order_trans by blast
  moreover have "sublist (commas ?ts) s" unfolding s by (rule sublist_appendI)
  ultimately have "sublist (json_quote ''18446744073709551615'') s" by (rule sublist_order.order_trans)
  then show ?thesis by (simp add: json_quote_def json_escape_def escape_char_def)
qed

lemma parse_publish_text:
  \<open>json_parse (''{"type":"publish","client_message_id":"550e8400-e29b-41d4-a716-446655440000","text":'' @ json_quote t @ ''}'')
    = Some (JObject [''type'' \<mapsto> JString ''publish'', ''client_message_id'' \<mapsto> JString test_id_text, ''text'' \<mapsto> JString t])\<close>
  by (simp add: parse_defs json_quote_def string_body_escape length_json_escape(1) le_imp_less_Suc le_SucI
      test_id_text_def)

section \<open>Tickets\<close>

lemma length_to_sextets: "length (to_sextets bs) \<le> 2 * length bs"
  by (induction bs rule: to_sextets.induct) simp_all

lemma ticket_text:
  assumes "length room = 16"
  shows "utf8_string (encode_reference_v1 standard_crypto k room e)"
    and "length (encode_reference_v1 standard_crypto k room e) \<le> 114"
proof -
  let ?b = "ticket_body room e @ hmac k (PREFIX @ ticket_body room e)"
  have t: "encode_reference_v1 standard_crypto k room e = base64url_encode ?b"
    by (simp add: encode_reference_v1_def hmac_sha256_def standard_crypto_def Let_def)
  have "\<forall>n \<in> set (to_sextets (map unat ?b)). n < 64" by (rule to_sextets_less) (auto simp del: map_append)
  moreover have "char_code (sextet_char n) < 128" if "n < 64" for n
    using that by (auto simp: sextet_char_def of_char_of)
  ultimately show "utf8_string (encode_reference_v1 standard_crypto k room e)"
    unfolding t base64url_encode_def by (intro utf8_string_ascii) auto
  show "length (encode_reference_v1 standard_crypto k room e) \<le> 114"
    using length_to_sextets [of "map unat ?b"] assms
    by (simp add: t base64url_encode_def length_ticket_body)
qed

section \<open>The model client's documents\<close>

text \<open>
  \<open>serde_json::from_str\<close> into the client's response types: unknown keys are ignored, a missing or
  null \<open>content\<close> of a delta is \<open>None\<close>.
\<close>

definition required :: "json_map \<Rightarrow> string \<Rightarrow> (json \<Rightarrow> 'a option) \<Rightarrow> 'a option" where
  "required m k f = Option.bind (m k) f"

fun as_object :: "json \<Rightarrow> json_map option" where
  "as_object (JObject m) = Some m"
| "as_object _ = None"

fun as_array :: "json \<Rightarrow> json list option" where
  "as_array (JArray vs) = Some vs"
| "as_array _ = None"

fun as_string :: "json \<Rightarrow> string option" where
  "as_string (JString s) = Some s"
| "as_string _ = None"

definition optional_string :: "json option \<Rightarrow> string option option" where
  "optional_string v = (case v of None \<Rightarrow> Some None | Some JNull \<Rightarrow> Some None | Some v \<Rightarrow> map_option Some (as_string v))"

definition chunk_of_json :: "json \<Rightarrow> chat_completions_chunk option" where
  "chunk_of_json v = do {
     m \<leftarrow> as_object v;
     vs \<leftarrow> required m ''choices'' as_array;
     cs \<leftarrow> those (map (\<lambda>c. do {
       c \<leftarrow> as_object c;
       d \<leftarrow> required c ''delta'' as_object;
       s \<leftarrow> optional_string (d ''content'');
       Some \<lparr>choice_delta = \<lparr>delta_content = s\<rparr>\<rparr> }) vs);
     Some \<lparr>chunk_choices = cs\<rparr> }"

definition response_of_json :: "json \<Rightarrow> chat_completions_response option" where
  "response_of_json v = do {
     m \<leftarrow> as_object v;
     vs \<leftarrow> required m ''choices'' as_array;
     cs \<leftarrow> those (map (\<lambda>c. do {
       c \<leftarrow> as_object c;
       msg \<leftarrow> required c ''message'' as_object;
       s \<leftarrow> required msg ''content'' as_string;
       Some \<lparr>rchoice_message = \<lparr>rmsg_content = s\<rparr>\<rparr> }) vs);
     Some \<lparr>resp_choices = cs\<rparr> }"

definition json_from_str :: "(json \<Rightarrow> 'a option) \<Rightarrow> string \<Rightarrow> string + 'a" where
  "json_from_str of_json s = (case Option.bind (json_parse s) of_json of None \<Rightarrow> Inl ''invalid JSON'' | Some x \<Rightarrow> Inr x)"

lemmas from_str_defs = json_from_str_def chunk_of_json_def response_of_json_def required_def optional_string_def

lemma chunk_documents:
  "s \<in> {''Hel'', ''lo'', ''Hi''} \<Longrightarrow> json_from_str chunk_of_json (delta_doc s) = Inr (text_chunk s)"
proof -
  have "json_parse (delta_doc s) = Some (JObject [''choices'' \<mapsto> JArray [JObject [''delta'' \<mapsto> JObject [''content'' \<mapsto> JString s]]]])"
    if "s \<in> {''Hel'', ''lo'', ''Hi''}" for s
    using that by (auto simp: parse_defs delta_doc_def)
  then show "s \<in> {''Hel'', ''lo'', ''Hi''} \<Longrightarrow> ?thesis" by (simp add: from_str_defs text_chunk_def)
qed

lemma response_document:
  "json_from_str response_of_json doc_response = Inr \<lparr>resp_choices = [\<lparr>rchoice_message = \<lparr>rmsg_content = ''Hello!''\<rparr>\<rparr>]\<rparr>"
proof -
  have "json_parse doc_response = Some (JObject [''choices'' \<mapsto> JArray [JObject [''message'' \<mapsto> JObject [''content'' \<mapsto> JString ''Hello!'']]]])"
    by (simp add: parse_defs doc_response_def)
  then show ?thesis by (simp add: from_str_defs)
qed

section \<open>All tests\<close>

text \<open>The tests of each module of the crate, with the third-party code they run on as parameters.\<close>

definition wire_tests :: "timestamp deps \<Rightarrow> unit deps \<Rightarrow> crypto \<Rightarrow> unit option list" where
  "wire_tests D E C = decode_tests D @ [
     round_trip_attach D, round_trip_attach_ack_minimal D, round_trip_attach_ack_with_keepalive D,
     round_trip_publish_empty_text D, round_trip_publish_ack_with_optional_ts D,
     round_trip_chat_message_full_optionals D, round_trip_detach_keepalive_error D,
     round_trip_seq_max_u64 D, encode_publish_rejects_oversized_text D,
     encode_within_limits_rejects_oversized_json_body D,
     oversized_publish_decodes_then_dispatch_emits_message_too_large E,
     publish_handled_outbound_encodes_within_session_limits E, framed_round_trip_with_fake_session D,
     codec_round_trip_then_reference_ticket_accept C E,
     hub_best_effort_error_after_inbound_frame_too_large D,
     hub_best_effort_error_after_inbound_invalid_utf8_payload D, wire_error_body_skipped_for_unexpected_eof D]"

definition session_tests :: "unit option list" where
  "session_tests = [round_trip_small_json_object_string,
     declared_length_over_limit_returns_frame_too_large_before_body, encode_rejects_body_len_over_limit,
     invalid_utf8_payload_returns_invalid_utf8, empty_body_frame_round_trips,
     paired_ends_exchange_frames_independently, clean_close_between_frames_returns_none,
     truncated_payload_returns_unexpected_eof, write_payload_over_limit_returns_frame_too_large]"

definition client_tests ::
    "parse_chunk \<Rightarrow> (string \<Rightarrow> string + chat_completions_response) \<Rightarrow> unit option list" where
  "client_tests parse_chunk parse_response = [fake_backend_join_and_send_roundtrip,
     fake_backend_open_spawns_finish_path, sse_parses_delta_and_done parse_chunk,
     sse_tolerates_crlf_delimiters parse_chunk,
     non_stream_response_parses_first_choice_message_content parse_response, prefix_is_16_octets]"

definition crate_tests :: "unit option list" where
  "crate_tests = dispatch_tests @ [outbound_error_from_message_error_maps_portable_codes rfc3339_deps]
     @ wire_tests rfc3339_deps no_time_deps standard_crypto @ session_tests
     @ client_tests (json_from_str chunk_of_json) (json_from_str response_of_json)"

abbreviation passed :: "unit option list \<Rightarrow> bool" where
  "passed ts \<equiv> list_all (\<lambda>t. t = Some ()) ts"

lemma standard_ticket_test: "codec_round_trip_then_reference_ticket_accept standard_crypto no_time_deps = Some ()"
proof (rule ticket_test_passes [OF standard_crypto_ok])
  show "uuid_text standard_crypto test_id = test_id_text"
    using standard_test_ids by (simp add: test_ids_ok_def standard_crypto_def)
  let ?room = "[0x55, 0x0e, 0x84, 0x00, 0xe2, 0x9b, 0x41, 0xd4, 0xa7, 0x16, 0x44, 0x66, 0x55, 0x44, 0x00, 0x00] :: bytes"
  have "length ?room = 16" by simp
  from ticket_text [OF this, of "replicate 32 9" 0]
  show "writes_message no_time_deps (attach_with 1 3 (encode_reference_v1 standard_crypto (replicate 32 9) ?room 0))"
    unfolding no_time_deps_def
    by (intro standard_flat_message) (auto simp: attach_in_range_def U31_MAX_def)
qed

lemma standard_oversized_dispatch_test:
  "oversized_publish_decodes_then_dispatch_emits_message_too_large no_time_deps = Some ()"
proof (rule oversized_dispatch_test_passes)
  have "utf8_string (replicate 65537 CHR ''x'')" by (rule utf8_string_ascii) simp
  then show "serde_to_string no_time_deps (JString (replicate 65537 CHR ''x'')) = Some (json_quote (replicate 65537 CHR ''x''))"
    by (simp add: no_time_deps_def del: replicate.simps)
qed (use standard_test_ids parse_publish_text in \<open>simp_all add: no_time_deps_def del: replicate.simps\<close>)

lemma wire_tests_pass: "passed (wire_tests rfc3339_deps no_time_deps standard_crypto)"
proof -
  have ids: "test_ids_ok rfc3339_deps" "test_ids_ok no_time_deps" and docs: "reads_documents rfc3339_deps"
    by (simp_all add: rfc3339_deps_def no_time_deps_def standard_test_ids standard_reads_documents)
  have ts: "rfc3339_parse rfc3339_deps test_ts_text = Some test_ts" by (simp add: rfc3339_deps_def test_ts_text)
  have flat: "writes_message rfc3339_deps (msg_publish test_id ''hi'')"
    "writes_message rfc3339_deps (msg_publish test_id ''ok'')"
    "writes_message rfc3339_deps (msg_publish_ack (- 1) test_id None)"
    "writes_message no_time_deps (msg_publish_ack 0 test_id None)"
    "writes_message no_time_deps (MChatMessage \<lparr>cm_seq = 0, cm_client_message_id = test_id, cm_text = ''hello'',
       cm_sender_endpoint_id = None, cm_server_timestamp = None\<rparr>)"
    using flat_test_messages [of format_timestamp parse_timestamp]
      flat_test_messages [of "\<lambda>_ :: unit. None" "\<lambda>_. None"]
    by (simp_all add: rfc3339_deps_def no_time_deps_def)
  have "round_trip_seq_max_u64 rfc3339_deps = Some ()"
    by (rule seq_max_test_passes [OF ids(1) flat(3)])
      (use standard_seq_max [of format_timestamp parse_timestamp] in \<open>simp add: rfc3339_deps_def\<close>)
  then show ?thesis
    using decode_tests_pass [OF docs ids(1)] round_trip_tests_pass [OF ids(1) ts test_messages(1)]
      oversized_encode_tests_pass [OF ids(1) flat(2)] framed_test_passes [OF ids(1) flat(1)]
      handled_encodes_test_passes [OF ids(2) flat(4,5)] hub_error_tests_pass [of rfc3339_deps] test_messages(2)
    by (simp add: wire_tests_def standard_ticket_test standard_oversized_dispatch_test no_error_body_test_passes)
qed

text \<open>
  C35: All unit tests of the crate pass on the model: attach handshake, dispatch, codec, framing,
  in-memory session, hub error frames, chat service, event stream and ticket prefix,
  with JSON, UUIDs, timestamps and cryptography by their standards.
\<close>

theorem crate_tests_pass: "passed crate_tests"
  using sse_tests_pass [OF chunk_documents] response_test_passes [of "json_from_str response_of_json"] response_document
  by (simp add: crate_tests_def dispatch_tests_pass portable_codes_test_passes wire_tests_pass session_tests_def
      framing_tests_pass session_tests_pass client_tests_def service_tests_pass prefix_test_passes)

end
