(* ===== verification/Ticket_Vectors.thy ===== *)
theory Ticket_Vectors
  imports Standard_Crypto Test_Support
begin

text \<open>
  The conformance tests of the reference ticket
  (\<^verbatim>\<open>guyos_core/tests/reference_ticket_v1_conformance.rs\<close>) with the vectors of
  \<^verbatim>\<open>docs/fixtures/0004-ticket-profile-reference-v1.json\<close>, run on the model with the published
  algorithms. Hexadecimal text of the fixture is written as the octets it means.
\<close>

section \<open>The fixture\<close>

datatype expect = ExpectOk string | ExpectError string

record ticket_vector =
  vec_name :: string
  vec_ticket :: string
  vec_key :: bytes
  vec_now :: u64
  vec_expect :: expect

definition test_key :: bytes where
  "test_key = [0, 1, 2, 3, 4, 5, 6, 7, 8, 9, 10, 11, 12, 13, 14, 15, 16, 17, 18, 19,
     20, 21, 22, 23, 24, 25, 26, 27, 28, 29, 30, 31]"

definition room_text :: string where
  "room_text = ''550e8400-e29b-41d4-a716-446655440000''"

definition test_room :: bytes where
  "test_room = [85, 14, 132, 0, 226, 155, 65, 212, 167, 22, 68, 102, 85, 68, 0, 0]"

definition vector_of :: "string \<Rightarrow> string \<Rightarrow> u64 \<Rightarrow> expect \<Rightarrow> ticket_vector" where
  "vector_of name ticket now e =
     \<lparr>vec_name = name, vec_ticket = ticket, vec_key = test_key, vec_now = now, vec_expect = e\<rparr>"

definition profile_id :: string where
  "profile_id = ''guyos.reference_v1''"

definition ticket_ok_no_expiry :: string where
  "ticket_ok_no_expiry =
     ''AVUOhADim0HUpxZEZlVEAAAAAAAAAAAAAK6COQMKFVew513p7PCoDSoExnbJEAx9BZEd3J3K6zwN''"

definition ticket_ok_with_expiry :: string where
  "ticket_ok_with_expiry =
     ''AVUOhADim0HUpxZEZlVEAAAAAAAAdzWUAP5T6sxxHO5tnvMgtxjqkNFi-ZOEOfxvvUadyzA9QfDh''"

definition ticket_ok_expiry_boundary :: string where
  "ticket_ok_expiry_boundary =
     ''AVUOhADim0HUpxZEZlVEAAAAAAAAaBZsYKhzuq-FZTkU61W2RqGqJcrJEYZRME6Y4Z_RArYx8pYz''"

definition ticket_bad_signature :: string where
  "ticket_bad_signature =
     ''AVUOhADim0HUpxZEZlVEAAAAAAAAAAAAAK6COQMKFVew513p7PCoDSoExnbJEAx9BZEd3J3K6zzy''"

definition ticket_wrong_version :: string where
  "ticket_wrong_version =
     ''AlUOhADim0HUpxZEZlVEAAAAAAAAAAAAAFX2Y_xKexlXoCqBvdEsw0KlBZfaeWPLUqmJvgKuViDF''"

definition ticket_wrong_length_short :: string where
  "ticket_wrong_length_short =
     ''AVUOhADim0HUpxZEZlVEAAAAAAAAAAAAAK6COQMKFVew513p7PCoDQ''"

definition ticket_wrong_length_long :: string where
  "ticket_wrong_length_long =
     ''AVUOhADim0HUpxZEZlVEAAAAAAAAAAAAAK6COQMKFVew513p7PCoDSoExnbJEAx9BZEd3J3K6zwNAA''"

definition ticket_invalid_base64url_padding :: string where
  "ticket_invalid_base64url_padding =
     ''AVUOhADim0HUpxZEZlVEAAAAAAAAAAAAAK6COQMKFVew513p7PCoDSoExnbJEAx9BZEd3J3K6zwN=''"

definition ticket_invalid_base64url_alphabet :: string where
  "ticket_invalid_base64url_alphabet =
     ''AVUOhADim!HUpxZEZlVEAAAAAAAAAAAAAK6COQMKFVew513p7PCoDSoExnbJEAx9BZEd3J3K6zwN''"

definition ticket_truncated_base64url :: string where
  "ticket_truncated_base64url =
     ''AVUOhADim0HUpxZEZlVEAAAAAAAAAAAAAK6COQMKFVew513p7PCoDSoExnbJEAx9BZEd3J3K6zw''"

definition fixture_vectors :: "ticket_vector list" where
  "fixture_vectors = [
     vector_of ''ok_no_expiry'' ticket_ok_no_expiry 1746300000 (ExpectOk room_text),
     vector_of ''ok_with_expiry'' ticket_ok_with_expiry 1746300000 (ExpectOk room_text),
     vector_of ''ok_expiry_boundary'' ticket_ok_expiry_boundary 1746300000 (ExpectOk room_text),
     vector_of ''expired'' ticket_ok_expiry_boundary 1746300001 (ExpectError ''invalid_ticket''),
     vector_of ''bad_signature'' ticket_bad_signature 1746300000 (ExpectError ''invalid_ticket''),
     vector_of ''wrong_version'' ticket_wrong_version 1746300000 (ExpectError ''ticket_decode_failed''),
     vector_of ''wrong_length_short'' ticket_wrong_length_short 1746300000 (ExpectError ''ticket_decode_failed''),
     vector_of ''wrong_length_long'' ticket_wrong_length_long 1746300000 (ExpectError ''ticket_decode_failed''),
     vector_of ''invalid_base64url_padding'' ticket_invalid_base64url_padding 1746300000 (ExpectError ''ticket_decode_failed''),
     vector_of ''invalid_base64url_alphabet'' ticket_invalid_base64url_alphabet 1746300000 (ExpectError ''ticket_decode_failed''),
     vector_of ''truncated_base64url'' ticket_truncated_base64url 1746300000 (ExpectError ''ticket_decode_failed'')]"

record fixture =
  fx_schema_version :: u64
  fx_profile_id :: string
  fx_vectors :: "ticket_vector list"

definition fixture_json :: fixture where
  "fixture_json = \<lparr>fx_schema_version = 1, fx_profile_id = profile_id, fx_vectors = fixture_vectors\<rparr>"

section \<open>The tests\<close>

fun for_each :: "('a \<Rightarrow> unit option) \<Rightarrow> 'a list \<Rightarrow> unit option" where
  "for_each f [] = Some ()"
| "for_each f (x # xs) = do { f x; for_each f xs }"

definition required_names :: "string list" where
  "required_names = [
     ''ok_no_expiry'',
     ''ok_with_expiry'',
     ''ok_expiry_boundary'',
     ''expired'',
     ''bad_signature'',
     ''wrong_version'',
     ''wrong_length_short'',
     ''wrong_length_long'',
     ''invalid_base64url_padding'',
     ''invalid_base64url_alphabet'',
     ''truncated_base64url'']"

definition check_vector :: "crypto \<Rightarrow> ticket_vector \<Rightarrow> unit option" where
  "check_vector C v = do {
     let got = decode_reference_v1 C (vec_ticket v) (vec_key v) (vec_now v);
     (case vec_expect v of
        ExpectOk room_id \<Rightarrow> (case got of Inr u \<Rightarrow> assert_that (u = room_id) | Inl e \<Rightarrow> None)
      | ExpectError code \<Rightarrow> (case got of Inr u \<Rightarrow> None | Inl e \<Rightarrow> assert_that (portable_code e = code))) }"

definition reference_v1_fixture_vectors :: "crypto \<Rightarrow> unit option" where
  "reference_v1_fixture_vectors C = do {
     let fx = fixture_json;
     assert_that (fx_profile_id fx = ''guyos.reference_v1'');
     for_each (\<lambda>name. assert_that (\<exists>v \<in> set (fx_vectors fx). vec_name v = name)) required_names;
     for_each (check_vector C) (fx_vectors fx) }"

definition ok_no_expiry_encode_round_trip_matches_golden_ticket :: "(string \<Rightarrow> bytes option) \<Rightarrow> crypto \<Rightarrow> unit option" where
  "ok_no_expiry_encode_round_trip_matches_golden_ticket hex_decode C = do {
     let fx = fixture_json;
     v \<leftarrow> List.find (\<lambda>v. vec_name v = ''ok_no_expiry'') (fx_vectors fx);
     let key = vec_key v;
     room_str \<leftarrow> unwrap (decode_reference_v1 C (vec_ticket v) key (vec_now v));
     let compact = filter (\<lambda>c. c \<noteq> CHR ''-'') room_str;
     room \<leftarrow> hex_decode compact;
     assert_that (length room = 16);
     assert_that (encode_reference_v1 C key room 0 = vec_ticket v) }"

definition error_enum_matches_portable_codes :: "unit option" where
  "error_enum_matches_portable_codes = do {
     assert_that (portable_code TicketDecodeFailed = ''ticket_decode_failed'');
     assert_that (portable_code InvalidTicket = ''invalid_ticket'') }"

section \<open>The tags\<close>

text \<open>The compression function at the blocks that occur.\<close>

lemmas sha_eval = sha_block_def round_constants_def next_word_def add32_def rot_right_def big_sigma0_def
  big_sigma1_def small_sigma0_def small_sigma1_def sha_choose_def sha_majority_def

lemma inner_key_block:
  "sha_block [909587509, 842215473, 1044331581, 976959545, 640099365, 572727329, 774843437, 707471401,
     909522486, 909522486, 909522486, 909522486, 909522486, 909522486, 909522486, 909522486] initial_state =
     Sha 2191680787 1981571887 3156623726 1669935873 174638877 534837901 2928807161 15987328"
  by (simp add: sha_eval initial_state_def)

lemma outer_key_block:
  "sha_block [1549622879, 1482250843, 1414878807, 1347506771, 1280134735, 1212762699, 1145390663, 1078018627,
     1549556828, 1549556828, 1549556828, 1549556828, 1549556828, 1549556828, 1549556828, 1549556828] initial_state =
     Sha 594006887 534343563 2882424653 4239323749 3164187609 3293907652 1959486309 3102667110"
  by (simp add: sha_eval initial_state_def)

lemma inner_no_expiry_block:
  "sha_block [1735752047, 1932358761, 1667982708, 762720512, 22351492, 14850881, 3567720004, 1716864000,
     0, 0, 8388608, 0, 0, 0, 0, 840]
     (Sha 2191680787 1981571887 3156623726 1669935873 174638877 534837901 2928807161 15987328) =
     Sha 1926066713 943186243 1123087057 3847074311 3519142492 1491158211 163591595 3223188118"
  by (simp add: sha_eval)

lemma outer_no_expiry_block:
  "sha_block [1926066713, 943186243, 1123087057, 3847074311, 3519142492, 1491158211, 163591595, 3223188118,
     2147483648, 0, 0, 0, 0, 0, 0, 768]
     (Sha 594006887 534343563 2882424653 4239323749 3164187609 3293907652 1959486309 3102667110) =
     Sha 2927769859 169170864 3881691628 4037545258 80115401 269253893 2434653341 3404413965"
  by (simp add: sha_eval)

lemma inner_with_expiry_block:
  "sha_block [1735752047, 1932358761, 1667982708, 762720512, 22351492, 14850881, 3567720004, 1716864000,
     0, 7812500, 8388608, 0, 0, 0, 0, 840]
     (Sha 2191680787 1981571887 3156623726 1669935873 174638877 534837901 2928807161 15987328) =
     Sha 609909154 4067821236 4094675918 3383007702 8529982 3707667444 184381428 56420298"
  by (simp add: sha_eval)

lemma outer_with_expiry_block:
  "sha_block [609909154, 4067821236, 4094675918, 3383007702, 8529982, 3707667444, 184381428, 56420298,
     2147483648, 0, 0, 0, 0, 0, 0, 768]
     (Sha 594006887 534343563 2882424653 4239323749 3164187609 3293907652 1959486309 3102667110) =
     Sha 4266912460 1897721453 2666733751 418025681 1660523396 972844989 1184746288 1027731681"
  by (simp add: sha_eval)

lemma inner_boundary_block:
  "sha_block [1735752047, 1932358761, 1667982708, 762720512, 22351492, 14850881, 3567720004, 1716864000,
     0, 6821484, 1619001344, 0, 0, 0, 0, 840]
     (Sha 2191680787 1981571887 3156623726 1669935873 174638877 534837901 2928807161 15987328) =
     Sha 342677339 3156006398 3587429954 738957069 191881253 3144996156 3236517410 2588289852"
  by (simp add: sha_eval)

lemma outer_boundary_block:
  "sha_block [342677339, 3156006398, 3587429954, 738957069, 191881253, 3144996156, 3236517410, 2588289852,
     2147483648, 0, 0, 0, 0, 0, 0, 768]
     (Sha 594006887 534343563 2882424653 4239323749 3164187609 3293907652 1959486309 3102667110) =
     Sha 2826156719 2238003476 3948262982 2712282570 3373368913 810457313 2681275062 837981747"
  by (simp add: sha_eval)

definition tag_no_expiry :: bytes where
  "tag_no_expiry = [174, 130, 57, 3, 10, 21, 87, 176, 231, 93, 233, 236, 240, 168, 13, 42, 4, 198, 118, 201,
     16, 12, 125, 5, 145, 29, 220, 157, 202, 235, 60, 13]"

definition tag_with_expiry :: bytes where
  "tag_with_expiry = [254, 83, 234, 204, 113, 28, 238, 109, 158, 243, 32, 183, 24, 234, 144, 209, 98, 249, 147, 132,
     57, 252, 111, 189, 70, 157, 203, 48, 61, 65, 240, 225]"

definition tag_boundary :: bytes where
  "tag_boundary = [168, 115, 186, 175, 133, 101, 57, 20, 235, 85, 182, 70, 161, 170, 37, 202, 201, 17, 134, 81,
     48, 78, 152, 225, 159, 209, 2, 182, 49, 242, 150, 51]"

text \<open>A message behind one block of key.\<close>

lemma words_of_append: "length a mod 4 = 0 \<Longrightarrow> words_of (a @ b) = words_of a @ words_of b"
  by (induction a rule: words_of.induct) auto

lemma length_words_of: "length (words_of a) = length a div 4"
  by (induction a rule: words_of.induct) auto

definition pad_tail :: "bytes \<Rightarrow> bytes" where
  "pad_tail m = m @ [0x80] @ replicate (55 - length m) 0 @ be_of_nat 8 (512 + 8 * length m)"

lemma sha256_behind_key:
  assumes "length p = 64" and "length m < 56"
  shows "sha256 (p @ m) = digest (sha_block (words_of (pad_tail m)) (sha_block (words_of p) initial_state))"
proof -
  have "(119 - length m mod 64) mod 64 = 55 - length m" using assms(2) by (simp add: mod_if)
  then have pad: "sha_pad (p @ m) = p @ pad_tail m" using assms(1) by (simp add: sha_pad_def pad_tail_def)
  have len: "length (words_of p) = 16" "length (words_of (pad_tail m)) = 16"
    using assms by (simp_all add: length_words_of pad_tail_def)
  then have "words_of p \<noteq> []" "words_of (pad_tail m) \<noteq> []" by auto
  with len show ?thesis
    using words_of_append [of p "pad_tail m"] assms(1)
    by (simp add: pad sha256_def sha_blocks.simps [of "words_of p @ _"] sha_blocks.simps [of "words_of (pad_tail m)"]
        sha_blocks.simps [of "[]"])
qed

lemma test_key_pads:
  "words_of (map (\<lambda>b. b XOR 0x36) (hmac_key test_key)) = [909587509, 842215473, 1044331581, 976959545, 640099365, 572727329, 774843437, 707471401,
     909522486, 909522486, 909522486, 909522486, 909522486, 909522486, 909522486, 909522486]"
  "words_of (map (\<lambda>b. b XOR 0x5C) (hmac_key test_key)) = [1549622879, 1482250843, 1414878807, 1347506771, 1280134735, 1212762699, 1145390663, 1078018627,
     1549556828, 1549556828, 1549556828, 1549556828, 1549556828, 1549556828, 1549556828, 1549556828]"
  "length (hmac_key test_key) = 64"
  by (simp_all add: hmac_key_def test_key_def replicate_by_numeral)

lemma hmac_test_key:
  assumes "length m < 56"
  shows "hmac test_key m = digest (sha_block (words_of (pad_tail (digest (sha_block (words_of (pad_tail m))
     (Sha 2191680787 1981571887 3156623726 1669935873 174638877 534837901 2928807161 15987328))))) (Sha 594006887 534343563 2882424653 4239323749 3164187609 3293907652 1959486309 3102667110))"
proof -
  have inner: "sha256 (map (\<lambda>b. b XOR 0x36) (hmac_key test_key) @ m) = digest (sha_block (words_of (pad_tail m)) (Sha 2191680787 1981571887 3156623726 1669935873 174638877 534837901 2928807161 15987328))"
    using assms by (subst sha256_behind_key) (simp_all add: test_key_pads inner_key_block)
  have "length (digest st) = 32" for st by (cases st) simp
  then show ?thesis
    unfolding hmac_def inner by (subst sha256_behind_key) (simp_all add: test_key_pads outer_key_block)
qed

lemma length_ticket_message: "length (PREFIX @ ticket_body test_room e) = 41"
  by (simp add: PREFIX_def ticket_body_def test_room_def as_bytes_def)

lemma prefix_octets: "PREFIX = [103, 117, 121, 111, 115, 45, 116, 105, 99, 107, 101, 116, 45, 118, 49, 0]"
  by (simp add: PREFIX_def as_bytes_def byte_of_char_def)

lemma hmac_no_expiry: "hmac test_key (PREFIX @ ticket_body test_room 0) = tag_no_expiry"
proof -
  have w: "words_of (pad_tail (PREFIX @ ticket_body test_room 0)) = [1735752047, 1932358761, 1667982708, 762720512, 22351492, 14850881, 3567720004, 1716864000,
     0, 0, 8388608, 0, 0, 0, 0, 840]"
    by (simp add: pad_tail_def prefix_octets ticket_body_def test_room_def VERSION_V1_def u64_to_be_bytes_def
        be_of_nat_numeral replicate_by_numeral)
  have w': "words_of (pad_tail (digest (Sha 1926066713 943186243 1123087057 3847074311 3519142492 1491158211 163591595 3223188118))) = [1926066713, 943186243, 1123087057, 3847074311, 3519142492, 1491158211, 163591595, 3223188118,
     2147483648, 0, 0, 0, 0, 0, 0, 768]"
    by (simp add: pad_tail_def be_of_nat_numeral replicate_by_numeral)
  have d: "digest (Sha 2927769859 169170864 3881691628 4037545258 80115401 269253893 2434653341 3404413965) = tag_no_expiry" by (simp add: tag_no_expiry_def be_of_nat_numeral)
  have "length (PREFIX @ ticket_body test_room 0) < 56" by (simp only: length_ticket_message)
  from hmac_test_key [OF this] show ?thesis
    by (simp only: w inner_no_expiry_block w' outer_no_expiry_block d)
qed

lemma hmac_with_expiry: "hmac test_key (PREFIX @ ticket_body test_room 2000000000) = tag_with_expiry"
proof -
  have w: "words_of (pad_tail (PREFIX @ ticket_body test_room 2000000000)) = [1735752047, 1932358761, 1667982708, 762720512, 22351492, 14850881, 3567720004, 1716864000,
     0, 7812500, 8388608, 0, 0, 0, 0, 840]"
    by (simp add: pad_tail_def prefix_octets ticket_body_def test_room_def VERSION_V1_def u64_to_be_bytes_def
        be_of_nat_numeral replicate_by_numeral)
  have w': "words_of (pad_tail (digest (Sha 609909154 4067821236 4094675918 3383007702 8529982 3707667444 184381428 56420298))) = [609909154, 4067821236, 4094675918, 3383007702, 8529982, 3707667444, 184381428, 56420298,
     2147483648, 0, 0, 0, 0, 0, 0, 768]"
    by (simp add: pad_tail_def be_of_nat_numeral replicate_by_numeral)
  have d: "digest (Sha 4266912460 1897721453 2666733751 418025681 1660523396 972844989 1184746288 1027731681) = tag_with_expiry" by (simp add: tag_with_expiry_def be_of_nat_numeral)
  have "length (PREFIX @ ticket_body test_room 2000000000) < 56" by (simp only: length_ticket_message)
  from hmac_test_key [OF this] show ?thesis
    by (simp only: w inner_with_expiry_block w' outer_with_expiry_block d)
qed

lemma hmac_boundary: "hmac test_key (PREFIX @ ticket_body test_room 1746300000) = tag_boundary"
proof -
  have w: "words_of (pad_tail (PREFIX @ ticket_body test_room 1746300000)) = [1735752047, 1932358761, 1667982708, 762720512, 22351492, 14850881, 3567720004, 1716864000,
     0, 6821484, 1619001344, 0, 0, 0, 0, 840]"
    by (simp add: pad_tail_def prefix_octets ticket_body_def test_room_def VERSION_V1_def u64_to_be_bytes_def
        be_of_nat_numeral replicate_by_numeral)
  have w': "words_of (pad_tail (digest (Sha 342677339 3156006398 3587429954 738957069 191881253 3144996156 3236517410 2588289852))) = [342677339, 3156006398, 3587429954, 738957069, 191881253, 3144996156, 3236517410, 2588289852,
     2147483648, 0, 0, 0, 0, 0, 0, 768]"
    by (simp add: pad_tail_def be_of_nat_numeral replicate_by_numeral)
  have d: "digest (Sha 2826156719 2238003476 3948262982 2712282570 3373368913 810457313 2681275062 837981747) = tag_boundary" by (simp add: tag_boundary_def be_of_nat_numeral)
  have "length (PREFIX @ ticket_body test_room 1746300000) < 56" by (simp only: length_ticket_message)
  from hmac_test_key [OF this] show ?thesis
    by (simp only: w inner_boundary_block w' outer_boundary_block d)
qed

section \<open>The tickets\<close>

lemma golden_no_expiry: "encode_reference_v1 standard_crypto test_key test_room 0 = ticket_ok_no_expiry"
proof -
  have "encode_reference_v1 standard_crypto test_key test_room 0
      = base64url_encode (ticket_body test_room 0 @ tag_no_expiry)"
    by (simp add: encode_reference_v1_def hmac_sha256_def standard_crypto_def hmac_no_expiry)
  also have "\<dots> = ticket_ok_no_expiry"
    by (simp add: base64url_encode_def sextet_char_def char_of_eq_iff ticket_body_def test_room_def VERSION_V1_def
        u64_to_be_bytes_def be_of_nat_numeral tag_no_expiry_def ticket_ok_no_expiry_def)
  finally show ?thesis .
qed

lemma golden_with_expiry: "encode_reference_v1 standard_crypto test_key test_room 2000000000 = ticket_ok_with_expiry"
proof -
  have "encode_reference_v1 standard_crypto test_key test_room 2000000000
      = base64url_encode (ticket_body test_room 2000000000 @ tag_with_expiry)"
    by (simp add: encode_reference_v1_def hmac_sha256_def standard_crypto_def hmac_with_expiry)
  also have "\<dots> = ticket_ok_with_expiry"
    by (simp add: base64url_encode_def sextet_char_def char_of_eq_iff ticket_body_def test_room_def VERSION_V1_def
        u64_to_be_bytes_def be_of_nat_numeral tag_with_expiry_def ticket_ok_with_expiry_def)
  finally show ?thesis .
qed

lemma golden_boundary: "encode_reference_v1 standard_crypto test_key test_room 1746300000 = ticket_ok_expiry_boundary"
proof -
  have "encode_reference_v1 standard_crypto test_key test_room 1746300000
      = base64url_encode (ticket_body test_room 1746300000 @ tag_boundary)"
    by (simp add: encode_reference_v1_def hmac_sha256_def standard_crypto_def hmac_boundary)
  also have "\<dots> = ticket_ok_expiry_boundary"
    by (simp add: base64url_encode_def sextet_char_def char_of_eq_iff ticket_body_def test_room_def VERSION_V1_def
        u64_to_be_bytes_def be_of_nat_numeral tag_boundary_def ticket_ok_expiry_boundary_def)
  finally show ?thesis .
qed

definition octets_bad_signature :: bytes where
  "octets_bad_signature = [1, 85, 14, 132, 0, 226, 155, 65, 212, 167, 22, 68, 102, 85, 68, 0, 0, 0, 0, 0,
     0, 0, 0, 0, 0, 174, 130, 57, 3, 10, 21, 87, 176, 231, 93, 233, 236, 240, 168, 13,
     42, 4, 198, 118, 201, 16, 12, 125, 5, 145, 29, 220, 157, 202, 235, 60, 242]"

lemma encoded_bad_signature: "base64url_encode octets_bad_signature = ticket_bad_signature"
  by (simp add: base64url_encode_def sextet_char_def char_of_eq_iff ticket_bad_signature_def octets_bad_signature_def)

definition octets_wrong_version :: bytes where
  "octets_wrong_version = [2, 85, 14, 132, 0, 226, 155, 65, 212, 167, 22, 68, 102, 85, 68, 0, 0, 0, 0, 0,
     0, 0, 0, 0, 0, 85, 246, 99, 252, 74, 123, 25, 87, 160, 42, 129, 189, 209, 44, 195,
     66, 165, 5, 151, 218, 121, 99, 203, 82, 169, 137, 190, 2, 174, 86, 32, 197]"

lemma encoded_wrong_version: "base64url_encode octets_wrong_version = ticket_wrong_version"
  by (simp add: base64url_encode_def sextet_char_def char_of_eq_iff ticket_wrong_version_def octets_wrong_version_def)

definition octets_wrong_length_short :: bytes where
  "octets_wrong_length_short = [1, 85, 14, 132, 0, 226, 155, 65, 212, 167, 22, 68, 102, 85, 68, 0, 0, 0, 0, 0,
     0, 0, 0, 0, 0, 174, 130, 57, 3, 10, 21, 87, 176, 231, 93, 233, 236, 240, 168, 13]"

lemma encoded_wrong_length_short: "base64url_encode octets_wrong_length_short = ticket_wrong_length_short"
  by (simp add: base64url_encode_def sextet_char_def char_of_eq_iff ticket_wrong_length_short_def octets_wrong_length_short_def)

definition octets_wrong_length_long :: bytes where
  "octets_wrong_length_long = [1, 85, 14, 132, 0, 226, 155, 65, 212, 167, 22, 68, 102, 85, 68, 0, 0, 0, 0, 0,
     0, 0, 0, 0, 0, 174, 130, 57, 3, 10, 21, 87, 176, 231, 93, 233, 236, 240, 168, 13,
     42, 4, 198, 118, 201, 16, 12, 125, 5, 145, 29, 220, 157, 202, 235, 60, 13, 0]"

lemma encoded_wrong_length_long: "base64url_encode octets_wrong_length_long = ticket_wrong_length_long"
  by (simp add: base64url_encode_def sextet_char_def char_of_eq_iff ticket_wrong_length_long_def octets_wrong_length_long_def)

definition octets_truncated_base64url :: bytes where
  "octets_truncated_base64url = [1, 85, 14, 132, 0, 226, 155, 65, 212, 167, 22, 68, 102, 85, 68, 0, 0, 0, 0, 0,
     0, 0, 0, 0, 0, 174, 130, 57, 3, 10, 21, 87, 176, 231, 93, 233, 236, 240, 168, 13,
     42, 4, 198, 118, 201, 16, 12, 125, 5, 145, 29, 220, 157, 202, 235, 60]"

lemma encoded_truncated_base64url: "base64url_encode octets_truncated_base64url = ticket_truncated_base64url"
  by (simp add: base64url_encode_def sextet_char_def char_of_eq_iff ticket_truncated_base64url_def octets_truncated_base64url_def)

lemma shape_of_octets:
  "ticket_shape standard_crypto (base64url_encode d)
     = (if length d = TICKET_BINARY_LEN \<and> d ! 0 = VERSION_V1 then Some d else None)"
  using crypto_okD(1,3) [OF standard_crypto_ok] by (auto simp: ticket_shape_def standard_crypto_def)

lemma encoded_shape:
  "length d \<noteq> TICKET_BINARY_LEN \<or> d ! 0 \<noteq> VERSION_V1 \<Longrightarrow>
     decode_reference_v1 standard_crypto (base64url_encode d) k now = Inl TicketDecodeFailed"
proof -
  assume "length d \<noteq> TICKET_BINARY_LEN \<or> d ! 0 \<noteq> VERSION_V1"
  then have "ticket_shape standard_crypto (base64url_encode d) = None" by (auto simp: shape_of_octets)
  then show ?thesis by (simp add: decode_reference_v1_shape)
qed

lemma outside_alphabet:
  "\<not> list_all is_base64url_byte (as_bytes t) \<Longrightarrow>
     decode_reference_v1 C t k now = Inl TicketDecodeFailed"
proof -
  assume "\<not> list_all is_base64url_byte (as_bytes t)"
  then have "ticket_shape C t = None" by (auto simp: ticket_shape_def list_all_iff)
  then show ?thesis by (simp add: decode_reference_v1_shape)
qed

lemma structural_failures:
  "decode_reference_v1 standard_crypto ticket_wrong_version k now = Inl TicketDecodeFailed"
  "decode_reference_v1 standard_crypto ticket_wrong_length_short k now = Inl TicketDecodeFailed"
  "decode_reference_v1 standard_crypto ticket_wrong_length_long k now = Inl TicketDecodeFailed"
  "decode_reference_v1 standard_crypto ticket_truncated_base64url k now = Inl TicketDecodeFailed"
  "decode_reference_v1 standard_crypto ticket_invalid_base64url_padding k now = Inl TicketDecodeFailed"
  "decode_reference_v1 standard_crypto ticket_invalid_base64url_alphabet k now = Inl TicketDecodeFailed"
  by (simp_all flip: encoded_wrong_version encoded_wrong_length_short encoded_wrong_length_long
      encoded_truncated_base64url
      add: encoded_shape octets_wrong_version_def octets_wrong_length_short_def octets_wrong_length_long_def
        octets_truncated_base64url_def VERSION_V1_def TICKET_BINARY_LEN_def)
    (simp_all add: outside_alphabet ticket_invalid_base64url_padding_def ticket_invalid_base64url_alphabet_def
      as_bytes_def is_base64url_byte_def byte_of_char_def)

lemma bad_signature_fails: "decode_reference_v1 standard_crypto ticket_bad_signature test_key now = Inl InvalidTicket"
proof -
  have "take 25 octets_bad_signature = ticket_body test_room 0"
    by (simp add: octets_bad_signature_def ticket_body_def test_room_def VERSION_V1_def u64_to_be_bytes_def
        be_of_nat_numeral)
  moreover have "drop 25 octets_bad_signature \<noteq> tag_no_expiry"
    by (simp add: octets_bad_signature_def tag_no_expiry_def)
  moreover have "length octets_bad_signature = TICKET_BINARY_LEN" "octets_bad_signature ! 0 = VERSION_V1"
    by (simp_all add: octets_bad_signature_def TICKET_BINARY_LEN_def VERSION_V1_def)
  ultimately show ?thesis
    by (simp flip: encoded_bad_signature add: decode_reference_v1_shape shape_of_octets hmac_sha256_def)
      (simp add: standard_crypto_def hmac_no_expiry)
qed

lemma room_text_of_room: "uuid_text standard_crypto (uuid_from_bytes test_room) = room_text"
  by (simp add: standard_crypto_def hyphenated_def uuid_from_bytes_def test_room_def room_text_def hex_def
      hex_digit_def be_of_nat_numeral char_of_eq_iff Let_def)

section \<open>Properties\<close>

lemma golden_decode:
  "decode_reference_v1 standard_crypto ticket_ok_no_expiry test_key now = Inr room_text"
  "decode_reference_v1 standard_crypto ticket_ok_with_expiry test_key now
     = (if 2000000000 < now then Inl InvalidTicket else Inr room_text)"
  "decode_reference_v1 standard_crypto ticket_ok_expiry_boundary test_key now
     = (if 1746300000 < now then Inl InvalidTicket else Inr room_text)"
proof -
  have "length test_room = 16" by (simp add: test_room_def)
  note d = reference_ticket_expiry [OF standard_crypto_ok this, of test_key, unfolded room_text_of_room]
  show "decode_reference_v1 standard_crypto ticket_ok_no_expiry test_key now = Inr room_text"
    unfolding golden_no_expiry [symmetric] d by simp
  show "decode_reference_v1 standard_crypto ticket_ok_with_expiry test_key now
     = (if 2000000000 < now then Inl InvalidTicket else Inr room_text)"
    unfolding golden_with_expiry [symmetric] d by simp
  show "decode_reference_v1 standard_crypto ticket_ok_expiry_boundary test_key now
     = (if 1746300000 < now then Inl InvalidTicket else Inr room_text)"
    unfolding golden_boundary [symmetric] d by simp
qed

text \<open>
  C10: The ticket conforms: with base64url, HMAC and SHA-256 as their standards define them, every
  vector of the fixture gives the answer the fixture expects, and the golden ticket is what the
  issuer writes for its room.
\<close>

theorem golden_vectors_pass:
  "reference_v1_fixture_vectors standard_crypto = Some ()
   \<and> ok_no_expiry_encode_round_trip_matches_golden_ticket unhex standard_crypto = Some ()
   \<and> error_enum_matches_portable_codes = Some ()"
proof (intro conjI)
  show "reference_v1_fixture_vectors standard_crypto = Some ()"
    by (simp add: reference_v1_fixture_vectors_def fixture_json_def profile_id_def required_names_def fixture_vectors_def
        vector_of_def check_vector_def golden_decode structural_failures bad_signature_fails)
  have "length test_room = 16" by (simp add: test_room_def)
  moreover have "unhex (filter (\<lambda>c. c \<noteq> CHR ''-'') room_text) = Some test_room"
    by (simp add: room_text_def hex_value_def test_room_def)
  ultimately show "ok_no_expiry_encode_round_trip_matches_golden_ticket unhex standard_crypto = Some ()"
    by (simp add: ok_no_expiry_encode_round_trip_matches_golden_ticket_def fixture_json_def fixture_vectors_def vector_of_def
        golden_decode golden_no_expiry)
  show "error_enum_matches_portable_codes = Some ()" by (simp add: error_enum_matches_portable_codes_def)
qed

text \<open>
  The vector \<open>truncated_base64url\<close> is not malformed base64url, as its description says: it decodes
  to 56 octets, and only the length check refuses it.
\<close>

lemma truncated_vector_decodes:
  "b64url_decode standard_crypto (as_bytes ticket_truncated_base64url) = Some octets_truncated_base64url
   \<and> length octets_truncated_base64url = 56"
  using crypto_okD(1) [OF standard_crypto_ok, of octets_truncated_base64url]
  by (simp add: encoded_truncated_base64url standard_crypto_def) (simp add: octets_truncated_base64url_def)

end
