(* ===== verification/Layer_Policy.thy ===== *)
theory Layer_Policy
  imports Test_Support "HOL-Library.Sublist" "HOL-Library.Char_ord" "HOL-Library.List_Lexorder"
begin

text \<open>
  The architecture test of the crate (\<^verbatim>\<open>guyos_core/tests/layer_policy.rs\<close>): it walks the sources of
  the application and port layers and fails when one names the iroh adapter. The file system is a
  tree below the manifest directory; a directory that cannot be listed, an entry that cannot be
  read and a file that is not UTF-8 text are the \<open>None\<close> of the tree. Paths are lists of components.
\<close>

section \<open>The file system\<close>

type_synonym path = "string list"

datatype file_tree = File "string option" | Dir "(string \<times> file_tree) option list option"

text \<open>The entries that can be read (\<open>Iterator::flatten\<close>).\<close>

fun readable :: "'a option list \<Rightarrow> 'a list" where
  "readable [] = []"
| "readable (None # es) = readable es"
| "readable (Some e # es) = e # readable es"

fun tree_lookup :: "file_tree \<Rightarrow> path \<Rightarrow> file_tree option" where
  "tree_lookup t [] = Some t"
| "tree_lookup (Dir (Some es)) (n # p) =
     (case map_of (readable es) n of None \<Rightarrow> None | Some t \<Rightarrow> tree_lookup t p)"
| "tree_lookup _ (n # p) = None"

definition read_to_string :: "file_tree \<Rightarrow> path \<Rightarrow> string option" where
  "read_to_string fs p = (case tree_lookup fs p of Some (File c) \<Rightarrow> c | _ \<Rightarrow> None)"

text \<open>\<open>Path::extension\<close> of the last component: what follows its last dot, unless the dot leads.\<close>

definition name_extension :: "string \<Rightarrow> string option" where
  "name_extension n =
     (let ext = takeWhile (\<lambda>c. c \<noteq> CHR ''.'') (rev n); before = drop (length ext + 1) (rev n)
      in if n = ''..'' \<or> CHR ''.'' \<notin> set n \<or> before = [] then None else Some (rev ext))"

definition path_extension :: "path \<Rightarrow> string option" where
  "path_extension p = (if p = [] then None else name_extension (last p))"

section \<open>The test\<close>

definition LAYER_ROOTS :: "path list" where
  "LAYER_ROOTS = [[''src'', ''application''], [''src'', ''ports'']]"

definition FORBIDDEN :: "string list" where
  "FORBIDDEN = [''iroh::'', ''iroh_gossip::'', ''IrohGossipRelayBackend'']"

text \<open>The loop over \<open>entries.flatten()\<close> pushes on \<open>out\<close>.\<close>

fun collect_rs_files :: "path \<Rightarrow> file_tree \<Rightarrow> path list \<Rightarrow> path list" where
  "collect_rs_files dir (File c) out = out"
| "collect_rs_files dir (Dir None) out = out"
| "collect_rs_files dir (Dir (Some [])) out = out"
| "collect_rs_files dir (Dir (Some (None # es))) out = collect_rs_files dir (Dir (Some es)) out"
| "collect_rs_files dir (Dir (Some (Some (n, Dir d) # es))) out =
     collect_rs_files dir (Dir (Some es)) (collect_rs_files (dir @ [n]) (Dir d) out)"
| "collect_rs_files dir (Dir (Some (Some (n, File c) # es))) out =
     collect_rs_files dir (Dir (Some es)) (if path_extension (dir @ [n]) = Some ''rs'' then out @ [dir @ [n]] else out)"

fun display_path :: "path \<Rightarrow> string" where
  "display_path [] = []"
| "display_path [n] = n"
| "display_path (n # m # p) = n @ ''/'' @ display_path (m # p)"

definition layer_files :: "file_tree \<Rightarrow> path list" where
  "layer_files fs = sort (fold (\<lambda>rel out. case tree_lookup fs rel of None \<Rightarrow> out | Some t \<Rightarrow> collect_rs_files rel t out)
     LAYER_ROOTS [])"

fun layer_violations :: "file_tree \<Rightarrow> path list \<Rightarrow> string list option" where
  "layer_violations fs [] = Some []"
| "layer_violations fs (p # ps) = do {
     content \<leftarrow> read_to_string fs p;
     vs \<leftarrow> layer_violations fs ps;
     Some (map (\<lambda>pat. display_path p @ '' contains `'' @ pat @ ''`'') (filter (\<lambda>pat. sublist pat content) FORBIDDEN) @ vs) }"

definition application_and_ports_avoid_direct_iroh_adapter_references :: "file_tree \<Rightarrow> unit option" where
  "application_and_ports_avoid_direct_iroh_adapter_references fs = do {
     violations \<leftarrow> layer_violations fs (layer_files fs);
     assert_that (violations = []) }"

section \<open>What it checks\<close>

text \<open>The files a walk from a directory reaches, with their paths below it and their text.\<close>

inductive holds_file :: "file_tree \<Rightarrow> path \<Rightarrow> string option \<Rightarrow> bool" where
  here: "Some (n, File c) \<in> set es \<Longrightarrow> holds_file (Dir (Some es)) [n] c"
| below: "Some (n, Dir d) \<in> set es \<Longrightarrow> holds_file (Dir d) p c \<Longrightarrow> holds_file (Dir (Some es)) (n # p) c"

inductive_cases holds_fileE: "holds_file (Dir (Some es)) p c"
inductive_cases holds_in_file: "holds_file (File c) p c'"
inductive_cases holds_unlisted: "holds_file (Dir None) p c"

text \<open>Names are unique in every directory, as in a file system.\<close>

fun names_unique :: "file_tree \<Rightarrow> bool" where
  "names_unique (File c) = True"
| "names_unique (Dir None) = True"
| "names_unique (Dir (Some [])) = True"
| "names_unique (Dir (Some (None # es))) = names_unique (Dir (Some es))"
| "names_unique (Dir (Some (Some (n, t) # es))) \<longleftrightarrow>
     n \<notin> fst ` set (readable es) \<and> names_unique t \<and> names_unique (Dir (Some es))"

lemma holds_file_Cons:
  "holds_file (Dir (Some (None # es))) p c \<longleftrightarrow> holds_file (Dir (Some es)) p c"
  "holds_file (Dir (Some (Some (n, File c') # es))) p c \<longleftrightarrow> p = [n] \<and> c = c' \<or> holds_file (Dir (Some es)) p c"
  "holds_file (Dir (Some (Some (n, Dir d) # es))) p c
     \<longleftrightarrow> (\<exists>q. p = n # q \<and> holds_file (Dir d) q c) \<or> holds_file (Dir (Some es)) p c"
  "\<not> holds_file (Dir (Some [])) p c" "\<not> holds_file (Dir None) p c" "\<not> holds_file (File c') p c"
  by (auto intro: holds_file.intros elim!: holds_fileE holds_in_file holds_unlisted)

lemma holds_file_path: "holds_file t p c \<Longrightarrow> p \<noteq> []"
  by (induction rule: holds_file.induct) auto

lemma collected_files:
  "set (collect_rs_files dir t out) = set out \<union> {dir @ p |p c. holds_file t p c \<and> path_extension p = Some ''rs''}"
proof (induction dir t out rule: collect_rs_files.induct)
  case (5 dir n d es out)
  have ext: "path_extension (n # q) = path_extension q" if "holds_file (Dir d) q c" for q c
    using holds_file_path [OF that] by (simp add: path_extension_def)
  show ?case
    unfolding collect_rs_files.simps 5 holds_file_Cons using ext by fastforce
next
  case (6 dir n c es out)
  then show ?case by (auto simp: holds_file_Cons path_extension_def)
qed (simp_all add: holds_file_Cons)

lemma set_readable: "e \<in> set (readable es) \<longleftrightarrow> Some e \<in> set es"
  by (induction es rule: readable.induct) auto

lemma names_unique_Dir:
  "names_unique (Dir (Some es)) \<longleftrightarrow>
     distinct (map fst (readable es)) \<and> (\<forall>(n, t) \<in> set (readable es). names_unique t)"
proof (induction es)
  case (Cons e es)
  have "(n, t) \<in> set (readable es) \<Longrightarrow> n \<in> fst ` set (readable es)" for n t by force
  with Cons show ?case by (cases e) auto
qed simp

lemma entry_lookup:
  "names_unique (Dir (Some es)) \<Longrightarrow> Some (n, t) \<in> set es \<Longrightarrow> map_of (readable es) n = Some t \<and> names_unique t"
  by (auto simp: names_unique_Dir set_readable [symmetric])

lemma held_file_is_read: "holds_file t p c \<Longrightarrow> names_unique t \<Longrightarrow> tree_lookup t p = Some (File c)"
  by (induction rule: holds_file.induct) (simp_all add: entry_lookup)

lemma tree_lookup_append:
  "tree_lookup fs p = Some t \<Longrightarrow> tree_lookup fs (p @ q) = tree_lookup t q"
  by (induction fs p rule: tree_lookup.induct) (auto split: option.splits)

lemma names_unique_lookup: "tree_lookup fs p = Some t \<Longrightarrow> names_unique fs \<Longrightarrow> names_unique t"
  by (induction fs p rule: tree_lookup.induct)
    (auto simp: names_unique_Dir split: option.splits dest!: map_of_SomeD)

lemma layer_files_iff:
  "p \<in> set (layer_files fs) \<longleftrightarrow> (\<exists>rel \<in> set LAYER_ROOTS. \<exists>t q c. p = rel @ q \<and> tree_lookup fs rel = Some t
     \<and> holds_file t q c \<and> path_extension q = Some ''rs'')"
proof -
  have "p \<in> set (fold (\<lambda>rel out. case tree_lookup fs rel of None \<Rightarrow> out | Some t \<Rightarrow> collect_rs_files rel t out) rels out)
      \<longleftrightarrow> p \<in> set out \<or> (\<exists>rel \<in> set rels. \<exists>t q c. p = rel @ q \<and> tree_lookup fs rel = Some t
         \<and> holds_file t q c \<and> path_extension q = Some ''rs'')" for rels out
    by (induction rels arbitrary: out) (auto simp: collected_files split: option.split)
  then show ?thesis by (simp add: layer_files_def)
qed

lemma layer_violations_none:
  "layer_violations fs ps = Some [] \<longleftrightarrow>
     (\<forall>p \<in> set ps. \<exists>content. read_to_string fs p = Some content \<and> (\<forall>pat \<in> set FORBIDDEN. \<not> sublist pat content))"
proof (induction ps)
  case (Cons p ps)
  have "layer_violations fs (p # ps) = Some [] \<longleftrightarrow>
      (\<exists>content. read_to_string fs p = Some content \<and> (\<forall>pat \<in> set FORBIDDEN. \<not> sublist pat content))
        \<and> layer_violations fs ps = Some []"
    by (auto simp: filter_empty_conv split: bind_splits)
  with Cons.IH show ?case by simp
qed simp

text \<open>
  C36: The layer policy test passes exactly when every \<open>.rs\<close> file that lies below the application or
  the port directory, in directories that can be listed, is readable text that contains none of the
  forbidden names. (A layer directory that is missing or cannot be listed is passed over.)
\<close>

theorem layer_policy_exactly:
  assumes "names_unique fs"
  shows "application_and_ports_avoid_direct_iroh_adapter_references fs = Some () \<longleftrightarrow>
    (\<forall>rel \<in> {[''src'', ''application''], [''src'', ''ports'']}. \<forall>t p c.
       tree_lookup fs rel = Some t \<longrightarrow> holds_file t p c \<longrightarrow> path_extension p = Some ''rs'' \<longrightarrow>
       (\<exists>text. c = Some text
          \<and> (\<forall>pat \<in> {''iroh::'', ''iroh_gossip::'', ''IrohGossipRelayBackend''}. \<not> sublist pat text)))"
proof -
  have read: "read_to_string fs (rel @ p) = c" if "tree_lookup fs rel = Some t" "holds_file t p c" for rel t p c
    using held_file_is_read [OF that(2) names_unique_lookup [OF that(1) assms]] tree_lookup_append [OF that(1), of p]
    by (simp add: read_to_string_def)
  have "application_and_ports_avoid_direct_iroh_adapter_references fs = Some ()
      \<longleftrightarrow> layer_violations fs (layer_files fs) = Some []"
    by (auto simp: application_and_ports_avoid_direct_iroh_adapter_references_def assert_that_def split: bind_splits if_splits)
  also have "\<dots> \<longleftrightarrow> (\<forall>rel \<in> set LAYER_ROOTS. \<forall>t p c. tree_lookup fs rel = Some t \<longrightarrow> holds_file t p c
      \<longrightarrow> path_extension p = Some ''rs'' \<longrightarrow> (\<exists>text. c = Some text \<and> (\<forall>pat \<in> set FORBIDDEN. \<not> sublist pat text)))"
    unfolding layer_violations_none Ball_def layer_files_iff using read by fast
  finally show ?thesis by (simp add: LAYER_ROOTS_def FORBIDDEN_def)
qed

definition small_crate :: file_tree where
  "small_crate = Dir (Some [Some (''src'', Dir (Some [
     Some (''application'', Dir (Some [None, Some (''mod.rs'', File (Some ''mod a;'')), Some (''ports'', Dir None)])),
     Some (''adapters'', Dir (Some [Some (''b.rs'', File (Some ''iroh::B''))]))]))])"

theorem layer_policy_exactly_witness:
  "application_and_ports_avoid_direct_iroh_adapter_references small_crate = Some ()
   \<and> names_unique small_crate"
proof -
  have names: "names_unique small_crate" by (simp add: small_crate_def)
  have "application_and_ports_avoid_direct_iroh_adapter_references small_crate = Some ()"
    unfolding layer_policy_exactly [OF names]
    by (auto simp: small_crate_def holds_file_Cons sublist_Cons_right)
  with names show ?thesis by simp
qed

end
