(* ===== verification/Gossip_Network.thy ===== *)
theory Gossip_Network
  imports Chat_Service
begin

text \<open>
  Several \<open>Chat\<close> objects on one gossip network: what a member is shown is what another member said.
  The network is third party and is described by what it may do: a broadcast on a topic can reach
  any other member whose subscription to that topic is older than the broadcast, any number of
  times, in any order, or never; it delivers nothing that was broadcast before the subscription
  and nothing to its own sender. Endpoint ids are public keys of fresh secret keys: \<open>own\<close> says whose.
\<close>

section \<open>The network\<close>

fun broadcasts :: "effect list \<Rightarrow> (topic_id \<times> bytes) list" where
  "broadcasts [] = []"
| "broadcasts (Broadcast t bs # effs) = (t, bs) # broadcasts effs"
| "broadcasts (_ # effs) = broadcasts effs"

lemma broadcasts_append [simp]: "broadcasts (xs @ ys) = broadcasts xs @ broadcasts ys"
  by (induction xs rule: broadcasts.induct) auto

text \<open>
  \<open>net_air\<close> is every broadcast so far with its sender, \<open>net_ears\<close> the subscriptions of a member with
  the length of \<open>net_air\<close> when they began.
\<close>

record gossip_net =
  net_client :: "nat \<Rightarrow> iroh_backend client_chat_service"
  net_air :: "(nat \<times> topic_id \<times> bytes) list"
  net_ears :: "nat \<Rightarrow> (topic_id \<times> nat) list"

definition net_start :: "(nat \<Rightarrow> string option) \<Rightarrow> gossip_net" where
  "net_start nm = \<lparr>net_client = (\<lambda>i. chat_new (nm i)), net_air = [], net_ears = (\<lambda>_. [])\<rparr>"

definition net_after :: "nat \<Rightarrow> iroh_backend client_chat_service \<Rightarrow> gossip_net \<Rightarrow> gossip_net" where
  "net_after i s N =
     (let effs = drop (length (svc_log (net_client N i))) (svc_log s)
      in \<lparr>net_client = (net_client N)(i := s),
          net_air = net_air N @ map (Pair i) (broadcasts effs),
          net_ears = (net_ears N)(i := net_ears N i @ map (\<lambda>t. (t, length (net_air N))) (subscribe_loops effs))\<rparr>)"

definition own_env :: "(endpoint_id \<Rightarrow> nat) \<Rightarrow> nat \<Rightarrow> 'a iroh_env \<Rightarrow> bool" where
  "own_env own i e \<longleftrightarrow> (\<forall>ep. env_bind e = Inr ep \<longrightarrow> own ep = i)"

text \<open>A broadcast that has been made reaches a subscription that is older.\<close>

definition audible :: "gossip_net \<Rightarrow> nat \<Rightarrow> nat \<Rightarrow> bool" where
  "audible N i k \<longleftrightarrow> k < length (net_air N)
     \<and> (\<exists>(t, p) \<in> set (net_ears N i). p \<le> k \<and> fst (snd (net_air N ! k)) = t)"

text \<open>A step of member \<open>i\<close>, with the messages it gives to its application.\<close>

inductive net_step ::
    "'a iroh_deps \<Rightarrow> (endpoint_id \<Rightarrow> nat) \<Rightarrow> gossip_net \<Rightarrow> nat \<times> chat_message list \<Rightarrow> gossip_net \<Rightarrow> bool"
  for D own where
  opens: "own_env own i e \<Longrightarrow> chat_open D e (net_client N i) = Some (r, s)
    \<Longrightarrow> net_step D own N (i, []) (net_after i s N)"
| finishes: "own_env own i e \<Longrightarrow> 0 < svc_spawned (net_client N i)
    \<Longrightarrow> service_finish (iroh_relay D) e (net_client N i) = Some s
    \<Longrightarrow> net_step D own N (i, []) (net_after i s N)"
| joins: "own_env own i e \<Longrightarrow> chat_join D e ticket (net_client N i) = Some (r', s)
    \<Longrightarrow> net_step D own N (i, []) (net_after i s N)"
| sends: "own_env own i e \<Longrightarrow> chat_send D e text (net_client N i) = Some (r', s)
    \<Longrightarrow> length (svc_queue s) \<le> svc_capacity (net_client N i) \<Longrightarrow> net_step D own N (i, []) (net_after i s N)"
| hears: "audible N i k \<Longrightarrow> net_air N ! k = (j, t, bs) \<Longrightarrow> j \<noteq> i
    \<Longrightarrow> s = service_event D (Received bs) (net_client N i) \<Longrightarrow> length (svc_queue s) \<le> svc_capacity (net_client N i)
    \<Longrightarrow> net_step D own N (i, []) (net_after i s N)"
| reads: "chat_next_message (net_client N i) = Some (m, s) \<Longrightarrow> net_step D own N (i, [m]) (net_after i s N)"

inductive net_run ::
    "'a iroh_deps \<Rightarrow> (endpoint_id \<Rightarrow> nat) \<Rightarrow> gossip_net \<Rightarrow> (nat \<times> chat_message list) list \<Rightarrow> gossip_net \<Rightarrow> bool"
  for D own N where
  none: "net_run D own N [] N"
| more: "net_run D own N tr N' \<Longrightarrow> net_step D own N' l N'' \<Longrightarrow> net_run D own N (tr @ [l]) N''"

section \<open>What a member puts on the air\<close>

text \<open>What an endpoint under a display name may put on the air: its texts and its own name.\<close>

definition own_words :: "'a iroh_deps \<Rightarrow> string option \<Rightarrow> endpoint_id \<Rightarrow> bytes \<Rightarrow> bool" where
  "own_words D name ep bs \<longleftrightarrow> (\<exists>body nonce. bs = message_to_vec D \<lparr>gm_body = body, gm_nonce = nonce\<rparr>
     \<and> ((\<exists>text. body = UserMessage ep text) \<or> (\<exists>n. body = AboutMe ep n \<and> name = Some n)))"

definition own_echo :: "'a iroh_deps \<Rightarrow> string option \<Rightarrow> endpoint_id \<Rightarrow> effect list \<Rightarrow> chat_message \<Rightarrow> bool" where
  "own_echo D name ep effs m \<longleftrightarrow> (\<exists>t nonce.
     (t, message_to_vec D \<lparr>gm_body = UserMessage ep (chat_text m), gm_nonce = nonce\<rparr>) \<in> set (broadcasts effs)
     \<and> chat_id m = hexlower_encode D nonce
     \<and> chat_from m = (case name of Some n \<Rightarrow> n | None \<Rightarrow> fmt_short D ep))"

lemma own_wordsI:
  "own_words D name ep (message_to_vec D \<lparr>gm_body = UserMessage ep text, gm_nonce = nonce\<rparr>)"
  "own_words D (Some n) ep (message_to_vec D \<lparr>gm_body = AboutMe ep n, gm_nonce = nonce\<rparr>)"
  unfolding own_words_def by blast+

text \<open>
  A backend call is honest: the endpoint stays once it is bound, the broadcasts are words of the
  endpoint, and it echoes only texts it broadcast.
\<close>

definition honest ::
    "'a iroh_deps \<Rightarrow> 'a iroh_env \<Rightarrow> string option \<Rightarrow> iroh_backend \<Rightarrow> iroh_backend \<Rightarrow> effect list \<Rightarrow> bool" where
  "honest D e name b b' effs \<longleftrightarrow>
     (\<forall>ep. ib_endpoint b = Some ep \<longrightarrow> ib_endpoint b' = Some ep)
   \<and> (\<forall>ep. ib_endpoint b' = Some ep \<longrightarrow> ib_endpoint b = Some ep \<or> env_bind e = Inr ep)
   \<and> (\<forall>(t, bs) \<in> set (broadcasts effs). \<exists>ep. ib_endpoint b' = Some ep \<and> own_words D name ep bs)
   \<and> (\<forall>m \<in> set (echoes effs). \<exists>ep. ib_endpoint b' = Some ep \<and> own_echo D name ep effs m)"

lemma own_echo_append:
  "own_echo D name ep effs m \<or> own_echo D name ep effs' m \<Longrightarrow> own_echo D name ep (effs @ effs') m"
  unfolding own_echo_def broadcasts_append set_append by blast

lemma honestD:
  assumes "honest D e name b b' effs"
  shows "ib_endpoint b = Some ep \<Longrightarrow> ib_endpoint b' = Some ep"
    "ib_endpoint b' = Some ep \<Longrightarrow> ib_endpoint b = Some ep \<or> env_bind e = Inr ep"
    "(t, bs) \<in> set (broadcasts effs) \<Longrightarrow> \<exists>ep. ib_endpoint b' = Some ep \<and> own_words D name ep bs"
    "m \<in> set (echoes effs) \<Longrightarrow> \<exists>ep. ib_endpoint b' = Some ep \<and> own_echo D name ep effs m"
  using assms unfolding honest_def by (blast, blast, fast, blast)

lemma honest_append:
  assumes "honest D e name b b' effs" and "honest D e name b' b'' effs'"
  shows "honest D e name b b'' (effs @ effs')"
  unfolding honest_def
proof (intro conjI allI impI ballI)
  note one = honestD [OF assms(1)] and two = honestD [OF assms(2)]
  show "ib_endpoint b'' = Some ep" if "ib_endpoint b = Some ep" for ep using one(1) two(1) that by blast
  show "ib_endpoint b = Some ep \<or> env_bind e = Inr ep" if "ib_endpoint b'' = Some ep" for ep
    using one(2) two(2) that by blast
  show "case tbs of (t, bs) \<Rightarrow> \<exists>ep. ib_endpoint b'' = Some ep \<and> own_words D name ep bs"
    if "tbs \<in> set (broadcasts (effs @ effs'))" for tbs
  proof (cases tbs)
    case (Pair t bs)
    with that consider "(t, bs) \<in> set (broadcasts effs)" | "(t, bs) \<in> set (broadcasts effs')" by auto
    then have "\<exists>ep. ib_endpoint b'' = Some ep \<and> own_words D name ep bs"
      by cases (use one(3) two(1,3) in blast)+
    then show ?thesis by (simp add: Pair)
  qed
  show "\<exists>ep. ib_endpoint b'' = Some ep \<and> own_echo D name ep (effs @ effs') m" if "m \<in> set (echoes (effs @ effs'))" for m
  proof -
    from that consider "m \<in> set (echoes effs)" | "m \<in> set (echoes effs')" by auto
    then show ?thesis by cases (use one(4) two(1,4) own_echo_append in blast)+
  qed
qed

lemma honest_quiet:
  "ib_endpoint b' = ib_endpoint b \<Longrightarrow> broadcasts effs = [] \<Longrightarrow> echoes effs = [] \<Longrightarrow> honest D e name b b' effs"
  by (simp add: honest_def)

lemma honest_from: "ib_endpoint b' = ib_endpoint b \<Longrightarrow> honest D e name b' b'' effs \<Longrightarrow> honest D e name b b'' effs"
  by (simp add: honest_def)

lemma honest_to: "ib_endpoint b'' = ib_endpoint b' \<Longrightarrow> honest D e name b b' effs \<Longrightarrow> honest D e name b b'' effs"
  by (simp add: honest_def)

lemma honest_stack: "ensure_stack e b = (r, b', effs) \<Longrightarrow> honest D e name b b' effs"
  by (auto simp: honest_def ensure_stack_def split: if_splits sum.splits)

lemma honest_join_internal:
  "join_internal D e topic ids name b = Some (r, b', effs) \<Longrightarrow> honest D e name b b' effs"
  by (auto simp: honest_def join_internal_def message_new_def Let_def own_wordsI split: option.splits sum.splits)

lemma honest_begin: "begin_open_room_inner D e b = Some (r, b', effs) \<Longrightarrow> honest D e name b b' effs"
  by (auto simp: begin_open_room_inner_def Let_def split: prod.splits sum.splits option.splits
      intro: honest_stack) (rule honest_to [OF _ honest_stack]; simp)

lemma honest_finish: "finish_open_join_pending_inner D e name b = Some (r, b', effs) \<Longrightarrow> honest D e name b b' effs"
  by (auto simp: finish_open_join_pending_inner_def honest_quiet split: option.splits)
    (rule honest_from [OF _ honest_join_internal]; simp)

lemma honest_join: "join_room_inner D e ticket name b = Some (r, b', effs) \<Longrightarrow> honest D e name b b' effs"
  by (auto simp: join_room_inner_def Let_def honest_quiet split: option.splits sum.splits prod.splits
      intro: honest_append honest_stack honest_join_internal)

lemma honest_send: "send_user_message_inner D e name text b = Some (r, b', effs) \<Longrightarrow> honest D e name b b' effs"
  by (auto simp: honest_def send_user_message_inner_def message_new_def Let_def own_wordsI own_echo_def
      split: option.splits sum.splits)


text \<open>What one call of a \<open>Chat\<close> does for the network.\<close>

definition acts ::
    "'a iroh_deps \<Rightarrow> 'a iroh_env \<Rightarrow> iroh_backend client_chat_service \<Rightarrow> iroh_backend client_chat_service
     \<Rightarrow> effect list \<Rightarrow> bool" where
  "acts D e s s' effs \<longleftrightarrow> svc_log s' = svc_log s @ effs \<and> svc_queue s' = svc_queue s @ echoes effs
     \<and> svc_name s' = svc_name s \<and> svc_names s' = svc_names s \<and> svc_loops s' = svc_loops s @ subscribe_loops effs
     \<and> honest D e (svc_name s) (svc_backend s) (svc_backend s') effs"

lemma acts_after_call:
  assumes "honest D e (svc_name s) (svc_backend s) b effs"
  shows "\<exists>d. acts D e s (after_call b effs s) d"
    "\<exists>d. acts D e s ((after_call b effs s)\<lparr>svc_spawned := n\<rparr>) d"
    "\<exists>d. acts D e s (after_call b effs (s\<lparr>svc_spawned := n\<rparr>)) d"
  using assms by (auto simp: acts_def after_call_def)

lemma chat_acts:
  "chat_open D e s = Some (r, s') \<Longrightarrow> \<exists>effs. acts D e s s' effs"
  "service_finish (iroh_relay D) e s = Some s' \<Longrightarrow> \<exists>effs. acts D e s s' effs"
  "chat_join D e ticket s = Some (r', s') \<Longrightarrow> \<exists>effs. acts D e s s' effs"
  "chat_send D e text s = Some (r', s') \<Longrightarrow> \<exists>effs. acts D e s s' effs"
  by (auto simp: chat_open_def service_open_def service_finish_def chat_join_def service_join_def chat_send_def
      service_send_def iroh_relay_def Let_def split: option.splits sum.splits
      dest!: honest_begin [where name = "svc_name s"] honest_finish honest_join honest_send
      intro: acts_after_call)

section \<open>What the air holds\<close>






















lemma quiet_step:
  assumes "svc_log s' = svc_log (net_client N i)"
  shows "net_after i s' N = N\<lparr>net_client := (net_client N)(i := s')\<rparr>"
  using assms by (simp add: net_after_def)






section \<open>Each member runs the service\<close>

definition ears_are_loops :: "gossip_net \<Rightarrow> bool" where
  "ears_are_loops N \<longleftrightarrow> (\<forall>i. map fst (net_ears N i) = svc_loops (net_client N i))"

lemma acting_ears:
  assumes "acts D e (net_client N i) s effs" and "ears_are_loops N"
  shows "ears_are_loops (net_after i s N)"
  using assms by (auto simp: ears_are_loops_def acts_def net_after_def Let_def comp_def)

lemma quiet_ears:
  assumes "svc_log s = svc_log (net_client N i)" "svc_loops s = svc_loops (net_client N i)" and "ears_are_loops N"
  shows "ears_are_loops (net_after i s N)"
  using assms by (simp add: quiet_step ears_are_loops_def)

lemma service_event_keeps [simp]:
  "svc_log (service_event D ev s) = svc_log s" "svc_loops (service_event D ev s) = svc_loops s"
  by (simp_all add: service_event_def split: prod.split)

lemma net_after_client [simp]: "net_client (net_after i s N) = (net_client N)(i := s)"
  by (simp add: net_after_def Let_def)

lemma net_step_member:
  assumes "net_step D own N l N'" and "ears_are_loops N"
  shows "ears_are_loops N'
    \<and> (\<exists>ins. svc_step (iroh_relay D) D (net_client N (fst l)) (ins, snd l) (net_client N' (fst l)))
    \<and> (\<forall>j. j \<noteq> fst l \<longrightarrow> net_client N' j = net_client N j)"
  using assms(1)
proof cases
  case (opens i e r s)
  from chat_acts(1) [OF opens(4)] acting_ears assms(2) have "ears_are_loops (net_after i s N)" by blast
  with opens show ?thesis by (auto simp: chat_open_def intro: svc_step.opens)
next
  case (finishes i e s)
  from chat_acts(2) [OF finishes(5)] acting_ears assms(2) have "ears_are_loops (net_after i s N)" by blast
  with finishes show ?thesis by (auto intro: svc_step.finishes)
next
  case (joins i e ticket r' s)
  from chat_acts(3) [OF joins(4)] acting_ears assms(2) have "ears_are_loops (net_after i s N)" by blast
  with joins show ?thesis by (auto simp: chat_join_def intro: svc_step.joins)
next
  case (sends i e w r' s)
  from chat_acts(4) [OF sends(4)] acting_ears assms(2) have "ears_are_loops (net_after i s N)" by blast
  with sends show ?thesis by (auto simp: chat_send_def intro: svc_step.sends)
next
  case (hears i k j t bs s)
  then have "net_ears N i \<noteq> []" by (auto simp: audible_def)
  with assms(2) have "svc_loops (net_client N i) \<noteq> []" unfolding ears_are_loops_def by (metis map_is_Nil_conv)
  with hears quiet_ears [OF _ _ assms(2), of s i] show ?thesis by (auto intro: svc_step.receives)
next
  case (reads i m s)
  then have "svc_log s = svc_log (net_client N i)" "svc_loops s = svc_loops (net_client N i)"
    by (auto simp: chat_next_message_def service_next_message_Some)
  with reads quiet_ears [OF _ _ assms(2), of s i] show ?thesis by (auto simp: chat_next_message_def intro: svc_step.delivers)
qed

text \<open>So what is proved of runs of the service holds of every member: it does not panic, for instance.\<close>

lemma net_member_run:
  assumes "net_run D own (net_start nm) tr N"
  shows "ears_are_loops N \<and> (\<forall>i. \<exists>tri. svc_run (iroh_relay D) D (chat_new (nm i)) tri (net_client N i)
    \<and> concat (map snd tri) = concat (map snd (filter (\<lambda>l. fst l = i) tr)))"
  using assms
proof induction
  case none
  have "ears_are_loops (net_start nm)"
    by (simp add: ears_are_loops_def net_start_def chat_new_def wire_chat_for_clients_def client_chat_service_new_def)
  moreover have "svc_run (iroh_relay D) D (chat_new (nm i)) [] (net_client (net_start nm) i)" for i
    by (simp add: net_start_def svc_run.none)
  ultimately show ?case by (auto intro!: exI [of _ "[]"])
next
  case (more tr N l N')
  from net_step_member [OF more.hyps(2)] more.IH obtain ins where step: "ears_are_loops N'"
    "svc_step (iroh_relay D) D (net_client N (fst l)) (ins, snd l) (net_client N' (fst l))"
    "\<And>j. j \<noteq> fst l \<Longrightarrow> net_client N' j = net_client N j" by blast
  have "\<exists>tri. svc_run (iroh_relay D) D (chat_new (nm i)) tri (net_client N' i)
      \<and> concat (map snd tri) = concat (map snd (filter (\<lambda>l. fst l = i) (tr @ [l])))" for i
  proof -
    from more.IH obtain tri where tri: "svc_run (iroh_relay D) D (chat_new (nm i)) tri (net_client N i)"
      "concat (map snd tri) = concat (map snd (filter (\<lambda>l. fst l = i) tr))" by blast
    show ?thesis
    proof (cases "fst l = i")
      case True
      with svc_run.more [OF tri(1)] step(2) have "svc_run (iroh_relay D) D (chat_new (nm i)) (tri @ [(ins, snd l)]) (net_client N' i)"
        by blast
      with tri(2) True show ?thesis by (intro exI [of _ "tri @ [(ins, snd l)]"]) simp
    next
      case False
      with tri step(3) [of i] show ?thesis by (intro exI [of _ tri]) simp
    qed
  qed
  with step(1) show ?case by blast
qed

section \<open>Properties\<close>



section \<open>Two members talk\<close>






























end
