(* ===== verification/Spec2Isabelle.thy ===== *)
theory Spec2Isabelle
  imports Wire_Delivery Chat_Locking Command_Line Crate_Tests Ticket_Vectors Layer_Policy Gossip_Network
begin

text \<open>
  Verification of the Rust crate \<^verbatim>\<open>guyos_core\<close> (directory \<^verbatim>\<open>src/guyos_core/src\<close>), the core of
  the guyos chat: wire protocol of the hub, tickets, chat service over a gossip network, and the
  relay that answers chat messages with a language model. File names below are relative to that
  directory.

  Parts of the program and their theories, in the order of the calls from the leaves up:

    \<^item> \<^verbatim>\<open>Prelude\<close>: bytes, 32- and 64-bit big-endian integers, sum-type results, lemmas on lists and
      words. \<^verbatim>\<open>Text\<close>: the parts of Rust's \<open>str\<close> the code uses (UTF-8 lossy decoding, trim, lines,
      character boundaries, decimal printing and parsing). A Rust string is the list of its UTF-8
      octets as characters.
    \<^item> \<^verbatim>\<open>Reference_Ticket\<close> (\<^verbatim>\<open>domain/reference_ticket_v1.rs\<close>): the signed \<open>guyos.reference_v1\<close>
      ticket, issue and check.
    \<^item> \<^verbatim>\<open>Wire_Attach\<close> (\<^verbatim>\<open>domain/guyos_wire_attach.rs\<close>): attach payload, hub policy, the ordered
      checks of the handshake, portable error codes.
    \<^item> \<^verbatim>\<open>Publish_Ledger\<close> (\<^verbatim>\<open>domain/guyos_wire_publish.rs\<close>): sequence numbers and deduplication per
      room; the Rust trait is the locale \<open>room_publish_ledger\<close>, interpreted on the in-memory ledger.
    \<^item> \<^verbatim>\<open>Json_Value\<close>, \<^verbatim>\<open>Wire_Codec\<close>, \<^verbatim>\<open>Codec_Correct\<close>, \<^verbatim>\<open>Wire_Dispatch\<close>
      (\<^verbatim>\<open>domain/guyos_wire_v1.rs\<close>): JSON values as \<open>serde_json\<close> has them, the codec of all message
      types with its limits, its correctness, and \<open>handle_client_message\<close> with the session phases.
    \<^item> \<^verbatim>\<open>F1_Framing\<close> (\<^verbatim>\<open>ports/outbound/f1_framing.rs\<close>): length-prefixed frames.
    \<^item> \<^verbatim>\<open>Wire_Session\<close> (\<^verbatim>\<open>ports/outbound/guyos_wire_v1_session.rs\<close> and
      \<^verbatim>\<open>fake_guyos_wire_v1_session.rs\<close>): the session trait as locale \<open>wire_v1_session\<close>, the in-memory
      session as its interpretation, the error frame after a failed read.
    \<^item> \<^verbatim>\<open>Hub_Rooms\<close>: many streams that call \<open>handle_client_message\<close> in any order over one shared
      ledger (\<open>hub_step\<close>, \<open>hub_run\<close>); the verifier of an event is the one of the event's clock.
    \<^item> \<^verbatim>\<open>Chat_Backend\<close> (\<^verbatim>\<open>error.rs\<close>, \<^verbatim>\<open>ports/outbound/relay_chat_backend.rs\<close> and its test double): the
      backend trait as a record of operations with the locale \<open>relay_backend\<close> of its laws.
      \<^verbatim>\<open>Iroh_Backend\<close> (\<^verbatim>\<open>adapters/outbound/iroh_gossip_relay_backend.rs\<close>): the gossip backend.
      \<^verbatim>\<open>Chat_Service\<close> (\<^verbatim>\<open>application/client_chat_service.rs\<close>, \<^verbatim>\<open>adapters/inbound/chat.rs\<close>,
      \<^verbatim>\<open>infrastructure/mod.rs\<close>): the service, with the spawned join as a later step (\<open>svc_step\<close>,
      \<open>svc_run\<close>) and the bounded message channel. \<^verbatim>\<open>Chat_Locking\<close>: the same service at the grain of
      its locks, single effects and waits for room in the channel (\<open>lock_step\<close>, \<open>lock_run\<close>).
      \<^verbatim>\<open>Gossip_Network\<close>: any number of these clients on one gossip network (\<open>net_step\<close>, \<open>net_run\<close>).
    \<^item> \<^verbatim>\<open>Sse_Stream\<close> and \<^verbatim>\<open>Llm_Relay\<close> (\<^verbatim>\<open>llm.rs\<close>, \<^verbatim>\<open>main.rs\<close>): the event stream of the model client,
      requests and answers, the throttled reply, the history, argument checks, the input thread.
      \<^verbatim>\<open>Command_Line\<close> (\<^verbatim>\<open>main.rs\<close>): \<open>main\<close> up to its loops (\<open>startup\<close>) and the interleavings of its
      tasks: incoming loop, generation, input thread, typed lines (\<open>cli_step\<close>, \<open>cli_run\<close>).
    \<^item> \<^verbatim>\<open>Attach_Verifier\<close>: the handshake and the dispatch over a ticket verifier with a state of its
      own, in the state monad, and the proof that the stateless model gives the same answers.
    \<^item> \<^verbatim>\<open>Wire_Library\<close>: what the protocol needs of the JSON and UUID libraries, as the locale
      \<open>wire_library\<close>; \<^verbatim>\<open>Standard_Json\<close>, \<^verbatim>\<open>Standard_Text\<close> and \<^verbatim>\<open>Standard_Wire\<close>: its interpretation by RFC
      8259, UUID text and RFC 3339. \<^verbatim>\<open>Wire_Delivery\<close>: hub, codec and framed session together, when the
      limits leave room for every message and when they do not.
    \<^item> \<^verbatim>\<open>Test_Support\<close>, \<^verbatim>\<open>Dispatch_Tests\<close>, \<^verbatim>\<open>Session_Tests\<close>, \<^verbatim>\<open>Wire_Tests\<close>, \<^verbatim>\<open>Client_Tests\<close>: the unit
      tests of the modules above as computations on the model, and lemmas that they pass;
      \<^verbatim>\<open>Crate_Tests\<close>: all of them run with the standards in place of the libraries.
      \<^verbatim>\<open>Layer_Policy\<close> (\<^verbatim>\<open>tests/layer_policy.rs\<close> beside \<^verbatim>\<open>src\<close>): the architecture test over a tree of files.
    \<^item> \<^verbatim>\<open>Standard_Crypto\<close>: base64url, HMAC, SHA-256 and UUID text as their standards define them, an
      instance of the ticket code's third-party parameters with the proof of \<open>crypto_ok\<close>.
      \<^verbatim>\<open>Ticket_Vectors\<close> (\<^verbatim>\<open>tests/reference_ticket_v1_conformance.rs\<close> beside \<^verbatim>\<open>src\<close>): the vectors of the
      fixture, run with that instance in the kernel.
    \<^item> This theory: the properties that need several of them.

  How code corresponds to definitions. A struct is a record (fields with a prefix of the struct
  where names would clash), an enum a datatype, a method that changes its object a function that
  returns the new state, a \<open>Result\<close> a sum with the error on the left, a method that may panic an
  option with \<open>None\<close> the panic. Machine integers are words of their width; the ledger's counter
  panics on overflow (\<open>None\<close>), which needs more than \<open>2 ^ 64 - 2\<close> accepted messages, hence the
  bound of the progress property. No definition of the program's code uses fuel: loops are structural
  recursion over the remaining input, or recursion with a measure (bytes left in a buffer, inputs
  left). The JSON parser of \<^verbatim>\<open>Standard_Json\<close> has one more unit of fuel than its text has characters,
  enough for every text the printer writes (\<open>json_value_print\<close>). Code
  outside the repository is a parameter: \<open>serde_json\<close>, \<open>uuid\<close> and \<open>time\<close> in the record of JSON
  dependencies, base64, HMAC, constant-time comparison and UUID text in the record \<open>crypto\<close>, with
  \<open>crypto_ok\<close> and the round-trip hypotheses as the laws the code relies on, each satisfied by a
  concrete instance in a witness. Answers of iroh, iroh-gossip, HTTP, the system's random source
  and terminal input are explicit inputs of the operation that asks for them.

  What the lemmas show, by group: each codec and framing function inverts its counterpart and
  fails exactly when stated (\<open>encode_then_decode\<close>, \<open>drain_frames\<close>), and the frame decoder does not
  see how the octets were cut into chunks (\<open>drain_chunks_concat\<close>); tickets are accepted exactly
  when the issuer can have written them; the ledger refines a list of accepted ids per room, so that duplicates are
  answered with their first number and rooms do not influence each other; sessions publish only
  after an attach, attached sessions stay attached (sessions are ordered, and steps move up), so a
  stream publishes to one room; every interleaving of streams keeps the
  messages of a room numbered without gap, and when the frame limit leaves room for the escapes of
  the longest text every member can be sent and reads them all; a verifier is asked for exactly
  the tickets the protocol says; the service never reaches a panic, its channel keeps
  order and never holds more than its capacity of 100; its locks implement the atomic operations,
  every waiting call can return when messages are read, and none does when the channel is full
  and nobody reads; clients on a gossip network see only what their members said, under no other
  member's name; the program shows what arrives and never sends an answer to a message other
  than the last one; the event stream gives the events of the
  whole body; a streamed reply is neither truncated nor repeated.

  Not modelled: the Swift app and generated bindings; parsing of arguments by \<open>clap\<close> and the
  picture of the QR code (parameters); drops of handles. Aborting a generation is immediate.
  The JSON instance leaves out numbers with a fraction or exponent and \<open>serde_json\<close>'s depth limit of
  128; the codec itself treats JSON values of any kind. Cryptographic strength is not a claim:
  tickets are characterised by the issuer's function, not by a forger's chance.
\<close>

section \<open>Lemmas across components\<close>

text \<open>A hub that checks reference tickets with key \<open>k\<close>.\<close>

definition reference_verifier :: "crypto \<Rightarrow> bytes \<Rightarrow> u64 \<Rightarrow> ticket_verifier" where
  "reference_verifier C k now t = decode_reference_v1 C t k now"

lemma accept_minted:
  assumes "crypto_ok C" and "length room = 16" and "expires = 0 \<or> now \<le> expires"
    and "attach_in_range a" and "att_protocol_major a = pol_supported_major pol"
    and "att_ticket a = encode_reference_v1 C k room expires"
  shows "accept_attach a pol (reference_verifier C k now) = Inr
    \<lparr>ack_room_id = uuid_text C (uuid_from_bytes room),
     ack_max_frame_bytes = pol_max_frame_bytes pol,
     ack_max_message_bytes = pol_max_message_bytes pol,
     ack_protocol_major = att_protocol_major a,
     ack_server_protocol_minor = min (att_protocol_minor a) (pol_hub_minor_ceiling pol),
     ack_keepalive_interval_seconds = pol_keepalive_interval_seconds pol\<rparr>"
  using assms
  by (auto simp: accept_attach_Inr_iff reference_verifier_def decode_reference_v1_Inr_iff)

section \<open>Properties\<close>

text \<open>
  C1: Only minted tickets publish: in every interleaving of any streams, a publish is handled for
  a room only after the same stream attached with a ticket that the issuer wrote with the hub's
  key for exactly that room and that had not expired at that moment.
\<close>

theorem only_minted_tickets_publish:
  assumes "crypto_ok C"
    and "hub_run accept pol (reference_verifier C k) (hub_start l0) (xs @ ev # ys) h"
    and "ev_out ev = PublishHandled ack chat"
  shows "\<exists>e \<in> set xs. \<exists>a room expires. ev_conn e = ev_conn ev \<and> ev_msg e = MAttach a
    \<and> length room = 16 \<and> att_ticket a = encode_reference_v1 C k room expires
    \<and> (expires = 0 \<or> ev_clock e \<le> expires)
    \<and> session_room (ev_session ev) = uuid_text C (uuid_from_bytes room)"
proof -
  from hub_publish_needs_ticket [OF assms(2,3)] obtain e where
    e: "e \<in> set xs" "attached_by pol (reference_verifier C k) (ev_conn ev) (session_room (ev_session ev)) e"
    by blast
  then show ?thesis
    by (auto simp: attached_by_def reference_verifier_def decode_reference_v1_Inr_iff [OF assms(1)])
qed

definition minted_attach :: attach where
  "minted_attach = \<lparr>att_protocol_major = 1, att_protocol_minor = 0,
     att_ticket = encode_reference_v1 letters_crypto [7] (replicate 16 3) 90\<rparr>"

definition minted_room :: string where
  "minted_room = uuid_text letters_crypto (uuid_from_bytes (replicate 16 3))"

lemma minted_run:
  "\<exists>e ev h ack chat. ev_conn e = 0 \<and> ev_msg e = MAttach minted_attach \<and> ev_conn ev = 0
     \<and> (ev_out ev :: unit guyos_wire_inbound_outcome) = PublishHandled ack chat
     \<and> session_room (ev_session ev) = minted_room
     \<and> hub_run accept_or_replay demo_policy (reference_verifier letters_crypto [7])
         (hub_start room_publish_state_default) ([e] @ ev # []) h"
proof -
  let ?v = "reference_verifier letters_crypto [7]" and ?h0 = "hub_start room_publish_state_default"
  have pol: "attach_in_range minted_attach" "att_protocol_major minted_attach = pol_supported_major demo_policy"
    "pol_max_message_bytes demo_policy = 65536"
    by (simp_all add: minted_attach_def demo_policy_def single_major_def attach_in_range_def U31_MAX_def)
  from accept_minted [OF letters_crypto_ok _ _ pol(1,2), of "replicate 16 3" 90 80 "[7]"]
  obtain ack where ack: "accept_attach minted_attach demo_policy (?v 80) = Inr ack"
    "ack_room_id ack = minted_room" "ack_max_message_bytes ack = 65536"
    by (simp add: minted_attach_def minted_room_def pol(3))
  define s where "s = Attached minted_room (ack_max_frame_bytes ack) 65536"
  define e :: "unit hub_event" where "e = \<lparr>ev_conn = 0, ev_clock = 80, ev_session = hub_sessions ?h0 0,
      ev_msg = MAttach minted_attach, ev_out = Reply (MAttachAck ack)\<rparr>"
  define h1 where "h1 = \<lparr>hub_sessions = (hub_sessions ?h0)(0 := s), hub_ledger = hub_ledger ?h0\<rparr>"
  have "hub_step accept_or_replay demo_policy ?v ?h0 e h1"
    unfolding e_def h1_def using ack by (intro hub_step.message) (simp add: hub_start_def s_def)
  then have r1: "hub_run accept_or_replay demo_policy ?v ?h0 [e] h1"
    using hub_run.step [OF hub_run.start] by fastforce
  obtain d l' where "accept_or_replay room_publish_state_default minted_room 5 = Some (d, l')"
    using accept_or_replay_simulates [OF ledger_rel_default, of minted_room 5]
    by (auto simp: spec_accept_def)
  then obtain ack' chat where p: "handle_client_message (hub_sessions h1 0) (MPublish hi_publish) demo_policy (?v 80)
      accept_or_replay (hub_ledger h1) = Some (s, PublishHandled ack' chat :: unit guyos_wire_inbound_outcome, l')"
    by (simp add: h1_def s_def hub_start_def dispatch_publish_cases hi_publish_def)
  define ev :: "unit hub_event" where "ev = \<lparr>ev_conn = 0, ev_clock = 80, ev_session = hub_sessions h1 0,
      ev_msg = MPublish hi_publish, ev_out = PublishHandled ack' chat\<rparr>"
  have "hub_step accept_or_replay demo_policy ?v h1 ev \<lparr>hub_sessions = (hub_sessions h1)(0 := s), hub_ledger = l'\<rparr>"
    unfolding ev_def by (rule hub_step.message [where v = ?v and now = 80, OF p])
  from hub_run.step [OF r1 this] show ?thesis
    by (intro exI [of _ e] exI [of _ ev] exI [of _ "\<lparr>hub_sessions = (hub_sessions h1)(0 := s), hub_ledger = l'\<rparr>"])
      (simp add: e_def ev_def h1_def s_def)
qed

theorem only_minted_tickets_publish_witness:
  "\<exists>(e :: unit hub_event) (ev :: unit hub_event) h ack chat.
     hub_run accept_or_replay demo_policy (reference_verifier letters_crypto [7])
         (hub_start room_publish_state_default) ([e] @ ev # []) h
   \<and> ev_out ev = PublishHandled ack chat
   \<and> (\<exists>a room expires. ev_msg e = MAttach a \<and> length room = 16
        \<and> att_ticket a = encode_reference_v1 letters_crypto [7] room expires
        \<and> session_room (ev_session ev) = uuid_text letters_crypto (uuid_from_bytes room))"
proof -
  obtain e ev :: "unit hub_event" and h ack chat where
    run: "hub_run accept_or_replay demo_policy (reference_verifier letters_crypto [7])
         (hub_start room_publish_state_default) ([e] @ ev # []) h" "ev_out ev = PublishHandled ack chat"
    using minted_run by blast
  from only_minted_tickets_publish [OF letters_crypto_ok run] run show ?thesis by fastforce
qed

text \<open>
  C14: A minted ticket attaches: the holder of a ticket that has not expired, speaking the hub's
  major, is attached to the ticket's room with the hub's limits and told so; with an expired
  ticket it is refused with \<open>invalid_ticket\<close> and stays unattached.
\<close>

theorem minted_ticket_attaches:
  assumes "crypto_ok C" and "length room = 16"
    and "attach_in_range a" and "att_protocol_major a = pol_supported_major pol"
    and "att_ticket a = encode_reference_v1 C k room expires"
  shows "if expires = 0 \<or> now \<le> expires
    then \<exists>ack. handle_client_message AwaitingAttach (MAttach a) pol (reference_verifier C k now) accept ledger
        = Some (Attached (uuid_text C (uuid_from_bytes room)) (pol_max_frame_bytes pol) (pol_max_message_bytes pol),
            Reply (MAttachAck ack), ledger)
        \<and> ack_room_id ack = uuid_text C (uuid_from_bytes room)
    else \<exists>m. handle_client_message AwaitingAttach (MAttach a) pol (reference_verifier C k now) accept ledger
        = Some (AwaitingAttach, Reply (MError \<lparr>err_code = ''invalid_ticket'', err_message = m, err_details = None\<rparr>), ledger)"
proof (cases "expires = 0 \<or> now \<le> expires")
  case True
  from accept_minted [OF assms(1,2) True assms(3-5)] True show ?thesis by simp
next
  case False
  then have "decode_reference_v1 C (att_ticket a) k now = Inl Reference_Ticket.InvalidTicket"
    using reference_ticket_expiry [OF assms(1,2), of k expires now] by (simp add: assms(5) not_le)
  then have "accept_attach a pol (reference_verifier C k now) = Inl (HsTicket Reference_Ticket.InvalidTicket)"
    using assms(3,4) by (simp add: accept_attach_Inl_iff reference_verifier_def)
  with False show ?thesis by (simp add: outbound_wire_error_def)
qed

theorem minted_ticket_attaches_witness:
  "\<exists>ack. handle_client_message AwaitingAttach (MAttach minted_attach) demo_policy
       (reference_verifier letters_crypto [7] 90) accept_or_replay room_publish_state_default
     = Some (Attached minted_room 1048576 65536, Reply (MAttachAck ack) :: unit guyos_wire_inbound_outcome,
         room_publish_state_default)"
proof -
  have a: "attach_in_range minted_attach" "att_protocol_major minted_attach = pol_supported_major demo_policy"
    "att_ticket minted_attach = encode_reference_v1 letters_crypto [7] (replicate 16 3) 90"
    "pol_max_frame_bytes demo_policy = 1048576" "pol_max_message_bytes demo_policy = 65536"
    by (simp_all add: minted_attach_def demo_policy_def single_major_def attach_in_range_def U31_MAX_def)
  have "length (replicate 16 (3 :: u8)) = 16" by simp
  from minted_ticket_attaches [OF letters_crypto_ok this a(1-3), of 90 accept_or_replay room_publish_state_default]
  show ?thesis
    unfolding a(4,5) minted_room_def [symmetric] by (simp del: handle_client_message.simps) blast
qed

text \<open>
  C5: Wire round trip: whatever message the encoder accepts under a session's limits can be
  framed for that session, and a peer that receives the frame in any chunks reads the same
  body and decodes the same message from it.
\<close>

theorem framed_codec_roundtrip:
  assumes "encode_guyos_wire_v1_json_within_limits D msg f l = Inr body" and "message_ok D msg"
    and "\<And>v. serde_to_string D v = Some body \<Longrightarrow> serde_from_str D body = Some v" and "utf8_string body"
  shows "\<exists>w. encode_application_frame body f = Inr w
    \<and> (\<forall>rx tx_closed. rx_octets rx = w \<longrightarrow>
        fst (read_application_frame_inner (fake_end f rx tx_closed)) = Some (Inr (Some body)))
    \<and> decode_guyos_wire_v1_json D body = Inr msg"
  using encoded_is_carried [OF assms] by (simp add: carried_def)

theorem framed_codec_roundtrip_witness:
  "decode_guyos_wire_v1_json hi_deps ''{publish 5 hi}'' = Inr (MPublish hi_publish)
   \<and> (\<exists>w. encode_application_frame ''{publish 5 hi}'' 64 = Inr w)"
proof -
  have "utf8_string ''{publish 5 hi}''" by (rule utf8_string_ascii) simp
  moreover have "message_ok hi_deps (MPublish hi_publish)" by (simp add: one_doc_uuid_ok)
  moreover have "serde_from_str hi_deps ''{publish 5 hi}'' = Some v"
    if "serde_to_string hi_deps v = Some ''{publish 5 hi}''" for v
    using that by (simp add: one_doc_deps_def split: if_splits)
  ultimately show ?thesis using framed_codec_roundtrip [OF hi_encodes_text] by blast
qed

text \<open>
  A publish over the wire: a publish the client encodes under the limits of its attached
  stream reaches the hub in any chunking, is decoded to the message the client sent and handled
  in the stream's room; whenever the hub can encode its answer, the client reads it in any
  chunking and decodes the acknowledgement of its own id, with the number under which the text
  is fanned out, or was fanned out before if this is a retry.
\<close>

lemma publish_over_the_wire:
  assumes "encode_guyos_wire_v1_json_within_limits D (MPublish p) f l = Inr body"
    and "uuid_ok D (pub_client_message_id p)"
    and "\<And>v s. serde_to_string D v = Some s \<Longrightarrow> serde_from_str D s = Some v \<and> utf8_string s"
    and "accept ledger room (pub_client_message_id p) = Some (d, ledger')"
  shows "\<exists>w msg ack. encode_application_frame body f = Inr w
    \<and> (\<forall>rx closed. rx_octets rx = w \<longrightarrow>
        fst (read_application_frame_inner (fake_end f rx closed)) = Some (Inr (Some body)))
    \<and> decode_guyos_wire_v1_json D body = Inr msg
    \<and> handle_client_message (Attached room f l) msg pol v accept ledger = Some (Attached room f l,
        PublishHandled ack (if is_first d then Some
          \<lparr>cm_seq = pa_seq ack, cm_client_message_id = pub_client_message_id p, cm_text = pub_text p,
           cm_sender_endpoint_id = None, cm_server_timestamp = None\<rparr> else None), ledger')
    \<and> pa_client_message_id ack = pub_client_message_id p \<and> pa_seq ack = decision_seq d
    \<and> (\<forall>reply. encode_guyos_wire_v1_json_within_limits D (MPublishAck ack) f l = Inr reply \<longrightarrow>
        (\<exists>w'. encode_application_frame reply f = Inr w'
          \<and> (\<forall>rx closed. rx_octets rx = w' \<longrightarrow>
              fst (read_application_frame_inner (fake_end f rx closed)) = Some (Inr (Some reply)))
          \<and> decode_guyos_wire_v1_json D reply = Inr (MPublishAck ack)))"
proof -
  let ?ack = "\<lparr>pa_seq = decision_seq d, pa_client_message_id = pub_client_message_id p, pa_server_timestamp = None\<rparr>"
  have carried: "\<exists>w. encode_application_frame s f = Inr w
      \<and> (\<forall>rx closed. rx_octets rx = w \<longrightarrow>
          fst (read_application_frame_inner (fake_end f rx closed)) = Some (Inr (Some s)))
      \<and> decode_guyos_wire_v1_json D s = Inr m"
    if "encode_guyos_wire_v1_json_within_limits D m f l = Inr s" "message_ok D m" for m s
    using that assms(3)
    by (intro encoded_is_carried [unfolded carried_def]) (auto simp: encode_within_limits_Inr_iff)
  from assms(1) have "length (pub_text p) \<le> unat l"
    by (auto simp: encode_within_limits_Inr_iff validate_text_len_eq split: if_splits)
  with assms(4) have "handle_client_message (Attached room f l) (MPublish p) pol v accept ledger = Some (Attached room f l,
      PublishHandled ?ack (if is_first d then Some
        \<lparr>cm_seq = pa_seq ?ack, cm_client_message_id = pub_client_message_id p, cm_text = pub_text p,
         cm_sender_endpoint_id = None, cm_server_timestamp = None\<rparr> else None), ledger')"
    by (simp add: dispatch_publish_cases)
  moreover from carried [OF assms(1)] assms(2) obtain w where "encode_application_frame body f = Inr w"
    "\<forall>rx closed. rx_octets rx = w \<longrightarrow>
        fst (read_application_frame_inner (fake_end f rx closed)) = Some (Inr (Some body))"
    "decode_guyos_wire_v1_json D body = Inr (MPublish p)" by auto
  moreover have "message_ok D (MPublishAck ?ack)" using assms(2) by simp
  note carried [OF _ this]
  ultimately show ?thesis by (intro exI [of _ w] exI [of _ "MPublish p"] exI [of _ ?ack]) simp
qed

end
